(* ===== verification/Prelude.thy ===== *)
theory Prelude
  imports Main "HOL-Library.AList" "HOL-Library.Sublist"
begin

text \<open>
  What every component shares: Go's errors as values with their wrapping chain and their text,
  Go maps and integer formatting, and the sequencing of calls that return
  \<^verbatim>\<open>(value, error)\<close> while they change a state.

  The sequencing operators \<open>retE\<close>, \<open>failE\<close>, \<open>bindE\<close> and \<open>wrapE\<close> are the model of
  \<^verbatim>\<open>x, err := f(); if err != nil { return err }\<close>: the left value of the sum is the
  error, and the state is returned on both sides, because a call that failed may still have
  changed something.
\<close>

section \<open>Collections of facts\<close>

named_theorems go_simps \<open>evaluation of sequenced calls\<close>
named_theorems frame_intros \<open>what a sequence of calls leaves alone\<close>
named_theorems alone_intros \<open>runs that succeed as they would without failures\<close>

section \<open>Basic types\<close>

text \<open>
  A \<^verbatim>\<open>time.Time\<close> is the number of nanoseconds since Go's zero time, so \<open>IsZero\<close> is
  equality with \<open>0\<close>. A \<^verbatim>\<open>[]byte\<close> and a Go string are both byte strings.
\<close>

type_synonym time = int
type_synonym duration = int
type_synonym bytes = string

text \<open>
  A \<^verbatim>\<open>map[string]string\<close> is an association list, whose order stands for the order in which
  Go happens to range over it. Reading an absent key gives the zero value.
\<close>

type_synonym gomap = "(string \<times> string) list"

definition map_get :: "gomap \<Rightarrow> string \<Rightarrow> string" where
  "map_get m k = (case map_of m k of None \<Rightarrow> [] | Some v \<Rightarrow> v)"

lemma map_get_simps [simp]:
  "map_get [] k = []"
  "map_get ((k', v) # m) k = (if k' = k then v else map_get m k)"
  by (simp_all add: map_get_def)

lemma map_get_update [simp]:
  "map_get (AList.update k v m) k' = (if k = k' then v else map_get m k')"
  by (simp add: map_get_def update_conv')

section \<open>Formatting\<close>

definition digit :: "nat \<Rightarrow> char" where
  "digit n = char_of (48 + n)"

fun digits :: "nat \<Rightarrow> string" where
  "digits n = (if n < 10 then [digit n] else digits (n div 10) @ [digit (n mod 10)])"

declare digits.simps [simp del]

definition itoa :: "int \<Rightarrow> string" where
  "itoa i = (if i < 0 then ''-'' @ digits (nat (- i)) else digits (nat i))"

text \<open>
  \<^verbatim>\<open>%q\<close> on the printable ASCII strings the program passes to it: quotes and backslashes are
  escaped.
\<close>

fun quote_chars :: "string \<Rightarrow> string" where
  "quote_chars [] = []"
| "quote_chars (c # cs) =
     (if c = CHR 0x22 \<or> c = CHR 0x5C then [CHR 0x5C, c] else [c]) @ quote_chars cs"

definition quote :: "string \<Rightarrow> string" where
  "quote s = [CHR 0x22] @ quote_chars s @ [CHR 0x22]"

section \<open>Errors\<close>

text \<open>
  Package-level sentinels are constructors. \<open>PgError code msg\<close> is a \<^verbatim>\<open>*pgconn.PgError\<close>;
  \<open>ErrorNew\<close> is any error that wraps nothing (including a \<^verbatim>\<open>fmt.Errorf\<close> that formats its
  cause with \<^verbatim>\<open>%v\<close>); \<open>Errorf\<close> has one \<^verbatim>\<open>%w\<close> between a prefix and a suffix, \<open>Errorf2\<close>
  two.
\<close>

datatype error =
    ErrVersionConflict
  | ErrUnknownEvent
  | ErrUnknownCommand
  | ErrUnknownType
  | ErrMissingAttribute
  | ErrPermanent
  | ErrSubjectNotRegistered
  | ErrNoRows
  | ErrTopicAlreadyExists
  | Canceled
  | PgError string string
  | ErrorNew string
  | Errorf string error string
  | Errorf2 string error string error

fun Error :: "error \<Rightarrow> string" where
  "Error ErrVersionConflict = ''eventstore: version conflict''"
| "Error ErrUnknownEvent = ''inventory: unknown seat event''"
| "Error ErrUnknownCommand = ''inventory: unknown command''"
| "Error ErrUnknownType = ''codec: unknown event type''"
| "Error ErrMissingAttribute = ''envelope: missing required attribute''"
| "Error ErrPermanent = ''permanent failure''"
| "Error ErrSubjectNotRegistered = ''schema: subject not registered''"
| "Error ErrNoRows = ''no rows in result set''"
| "Error ErrTopicAlreadyExists = ''TOPIC_ALREADY_EXISTS''"
| "Error Canceled = ''context canceled''"
| "Error (PgError code msg) = msg @ '' (SQLSTATE '' @ code @ '')''"
| "Error (ErrorNew s) = s"
| "Error (Errorf pre e suf) = pre @ Error e @ suf"
| "Error (Errorf2 pre e mid e') = pre @ Error e @ mid @ Error e'"

text \<open>\<^verbatim>\<open>errors.Is\<close> against a sentinel: the error itself or anything it wraps.\<close>

fun errors_Is :: "error \<Rightarrow> error \<Rightarrow> bool" where
  "errors_Is (Errorf pre e suf) x = (Errorf pre e suf = x \<or> errors_Is e x)"
| "errors_Is (Errorf2 pre e mid e') x =
     (Errorf2 pre e mid e' = x \<or> errors_Is e x \<or> errors_Is e' x)"
| "errors_Is e x = (e = x)"

text \<open>
  \<^verbatim>\<open>errors.As(err, &pgErr)\<close> followed by \<^verbatim>\<open>pgErr.Code\<close>: the SQLSTATE of the first
  \<^verbatim>\<open>*pgconn.PgError\<close> on the chain, in the order \<^verbatim>\<open>errors.As\<close> walks it.
\<close>

fun errors_As_PgError :: "error \<Rightarrow> string option" where
  "errors_As_PgError (PgError code msg) = Some code"
| "errors_As_PgError (Errorf pre e suf) = errors_As_PgError e"
| "errors_As_PgError (Errorf2 pre e mid e') =
     (case errors_As_PgError e of Some c \<Rightarrow> Some c | None \<Rightarrow> errors_As_PgError e')"
| "errors_As_PgError e = None"

lemma errors_Is_refl [simp]: "errors_Is e e"
  by (cases e) simp_all

section \<open>Resources\<close>

text \<open>
  What a piece of code takes and gives back (connections, clients, containers), in order, and what is
  still open after it.
\<close>

datatype 'r lifecycle = Acquired 'r | Released 'r

fun still_open :: "'r list \<Rightarrow> 'r lifecycle list \<Rightarrow> 'r list" where
  "still_open rs [] = rs"
| "still_open rs (Acquired r # tr) = still_open (rs @ [r]) tr"
| "still_open rs (Released r # tr) = still_open (remove1 r rs) tr"

lemma still_open_append: "still_open rs (xs @ ys) = still_open (still_open rs xs) ys"
  by (induction rs xs rule: still_open.induct) simp_all

section \<open>Sequencing calls that may fail\<close>

definition retE :: "'a \<Rightarrow> 's \<Rightarrow> (error + 'a) \<times> 's" where
  "retE x s = (Inr x, s)"

definition failE :: "error \<Rightarrow> 's \<Rightarrow> (error + 'a) \<times> 's" where
  "failE e s = (Inl e, s)"

definition bindE ::
  "('s \<Rightarrow> (error + 'a) \<times> 's) \<Rightarrow> ('a \<Rightarrow> 's \<Rightarrow> (error + 'b) \<times> 's) \<Rightarrow> 's \<Rightarrow> (error + 'b) \<times> 's" where
  "bindE m f s = (case m s of (Inl e, s') \<Rightarrow> (Inl e, s') | (Inr x, s') \<Rightarrow> f x s')"

text \<open>\<^verbatim>\<open>if err != nil { return fmt.Errorf(...) }\<close>.\<close>

definition wrapE ::
  "(error \<Rightarrow> error) \<Rightarrow> ('s \<Rightarrow> (error + 'a) \<times> 's) \<Rightarrow> 's \<Rightarrow> (error + 'a) \<times> 's" where
  "wrapE w m s = (case m s of (Inl e, s') \<Rightarrow> (Inl (w e), s') | (Inr x, s') \<Rightarrow> (Inr x, s'))"

text \<open>A computation that only reads its arguments.\<close>

definition liftE :: "error + 'a \<Rightarrow> 's \<Rightarrow> (error + 'a) \<times> 's" where
  "liftE r s = (r, s)"

lemmas seq_defs = retE_def failE_def bindE_def wrapE_def liftE_def

lemma bindE_Inr [go_simps]: "m s = (Inr x, t) \<Longrightarrow> bindE m f s = f x t"
  by (simp add: bindE_def)

lemma bindE_Inl [go_simps]: "m s = (Inl e, t) \<Longrightarrow> bindE m f s = (Inl e, t)"
  by (simp add: bindE_def)

lemma bindE_retE [simp]: "bindE (retE x) f = f x"
  by (rule ext) (simp add: bindE_def retE_def)

lemma bindE_liftE [simp]:
  "bindE (liftE (Inr x)) f = f x" "bindE (liftE (Inl e)) f = failE e"
  by (rule ext, simp add: bindE_def liftE_def failE_def)+

lemma bindE_cases:
  assumes "bindE m f s = (r, s')"
  obtains (err) e where "m s = (Inl e, s')" "r = Inl e"
    | (ok) x t where "m s = (Inr x, t)" "f x t = (r, s')"
  using assms by (auto simp: bindE_def split: prod.splits sum.splits)

lemma bindE_eq_Inr_iff:
  "bindE m f s = (Inr y, s') \<longleftrightarrow> (\<exists>x t. m s = (Inr x, t) \<and> f x t = (Inr y, s'))"
  by (auto simp: bindE_def split: prod.splits sum.splits)

lemma retE_eq_iff [simp]: "retE x s = (r, s') \<longleftrightarrow> r = Inr x \<and> s' = s"
  by (auto simp: retE_def)

lemma failE_eq_iff [simp]: "failE e s = (r, s') \<longleftrightarrow> r = Inl e \<and> s' = s"
  by (auto simp: failE_def)

lemma liftE_eq_iff [simp]: "liftE x s = (r, s') \<longleftrightarrow> r = x \<and> s' = s"
  by (auto simp: liftE_def)

lemma wrapE_eq_Inr_iff [simp]: "wrapE w m s = (Inr x, s') \<longleftrightarrow> m s = (Inr x, s')"
  by (auto simp: wrapE_def split: prod.splits sum.splits)

lemma wrapE_eq_Inl_iff:
  "wrapE w m s = (Inl e, s') \<longleftrightarrow> (\<exists>e0. m s = (Inl e0, s') \<and> e = w e0)"
  by (auto simp: wrapE_def split: prod.splits sum.splits)

lemma snd_wrapE [simp]: "snd (wrapE w m s) = snd (m s)"
  by (auto simp: wrapE_def split: prod.splits sum.splits)

section \<open>What a sequence of calls leaves alone\<close>

text \<open>
  \<open>keeps R m\<close>: running \<open>m\<close> from any state relates the state before to the state after, whether
  it failed or not. For a preorder \<open>R\<close> the property is compositional, which is proved once here
  and interpreted for every frame the components need.
\<close>

definition keeps :: "('s \<Rightarrow> 's \<Rightarrow> bool) \<Rightarrow> ('s \<Rightarrow> (error + 'a) \<times> 's) \<Rightarrow> bool" where
  "keeps R m \<longleftrightarrow> (\<forall>s. R s (snd (m s)))"

lemma keepsI: "(\<And>s. R s (snd (m s))) \<Longrightarrow> keeps R m"
  by (simp add: keeps_def)

lemma keepsD: "keeps R m \<Longrightarrow> m s = (r, s') \<Longrightarrow> R s s'"
  unfolding keeps_def by (metis snd_conv)

locale frame =
  fixes R :: "'s \<Rightarrow> 's \<Rightarrow> bool"
  assumes frame_refl: "R s s"
    and frame_trans: "R s t \<Longrightarrow> R t u \<Longrightarrow> R s u"
begin

lemma keeps_retE: "keeps R (retE x)"
  by (simp add: keeps_def retE_def frame_refl)

lemma keeps_failE: "keeps R (failE e)"
  by (simp add: keeps_def failE_def frame_refl)

lemma keeps_liftE: "keeps R (liftE r)"
  by (simp add: keeps_def liftE_def frame_refl)

lemma keeps_wrapE: "keeps R m \<Longrightarrow> keeps R (wrapE w m)"
  by (simp add: keeps_def)

lemma keeps_bindE:
  assumes "keeps R m" and "\<And>x. keeps R (f x)"
  shows "keeps R (bindE m f)"
proof (rule keepsI)
  fix s
  obtain r s' where run: "bindE m f s = (r, s')" by (cases "bindE m f s")
  then have "R s s'"
  proof (cases rule: bindE_cases)
    case (err e)
    then show ?thesis using assms(1) by (blast dest: keepsD)
  next
    case (ok x t)
    then show ?thesis using assms by (blast dest: keepsD intro: frame_trans)
  qed
  with run show "R s (snd (bindE m f s))" by simp
qed

text \<open>The same when what follows may rely on what the first call left behind.\<close>

lemma run_bindE:
  assumes "bindE m f s = (r, s')" and "keeps R m"
    and "\<And>x t. m s = (Inr x, t) \<Longrightarrow> R s t \<Longrightarrow> R t (snd (f x t))"
  shows "R s s'"
  using assms(1)
proof (cases rule: bindE_cases)
  case (err e)
  then show ?thesis using assms(2) by (blast dest: keepsD)
next
  case (ok x t)
  then have "R s t" using assms(2) by (blast dest: keepsD)
  moreover have "R t s'" using assms(3) [OF ok(1) \<open>R s t\<close>] ok(2) by simp
  ultimately show ?thesis by (rule frame_trans)
qed

lemmas keeps_seq = keeps_retE keeps_failE keeps_liftE keeps_wrapE keeps_bindE

end

text \<open>
  \<open>succeeds_as m m'\<close>: whenever \<open>m\<close> succeeds, \<open>m'\<close> does the same. It relates a run on a server that may
  fail to the run on one that does not.
\<close>

definition succeeds_as ::
  "('s \<Rightarrow> (error + 'a) \<times> 's) \<Rightarrow> ('s \<Rightarrow> (error + 'a) \<times> 's) \<Rightarrow> bool" where
  "succeeds_as m m' \<longleftrightarrow> (\<forall>s x s'. m s = (Inr x, s') \<longrightarrow> m' s = (Inr x, s'))"

lemma succeeds_as_refl [alone_intros]: "succeeds_as m m"
  by (simp add: succeeds_as_def)

lemma succeeds_as_wrapE [alone_intros]: "succeeds_as m m' \<Longrightarrow> succeeds_as (wrapE w m) (wrapE w m')"
  by (simp add: succeeds_as_def)

lemma succeeds_as_bindE [alone_intros]:
  assumes "succeeds_as m m'" and "\<And>x. succeeds_as (f x) (f' x)"
  shows "succeeds_as (bindE m f) (bindE m' f')"
  using assms unfolding succeeds_as_def bindE_eq_Inr_iff by blast

lemma succeeds_asD: "succeeds_as m m' \<Longrightarrow> m s = (Inr x, s') \<Longrightarrow> m' s = (Inr x, s')"
  by (simp add: succeeds_as_def)

text \<open>
  The contract of a once-only claim, shared by the inbox and by the timers: claiming a key
  succeeds exactly when nobody has claimed it, records it, and disturbs nothing else that is
  claimed.
\<close>

locale claim_once =
  fixes claim :: "'k \<Rightarrow> 's \<Rightarrow> bool \<times> 's"
    and taken :: "'s \<Rightarrow> 'k set"
    and claimable :: "'s \<Rightarrow> 'k \<Rightarrow> bool"
  assumes claim_wins: "claimable s k \<Longrightarrow> fst (claim k s) \<longleftrightarrow> k \<notin> taken s"
    and claim_records: "claimable s k \<Longrightarrow> taken (snd (claim k s)) = insert k (taken s)"
    and claim_claimable: "claimable s k \<Longrightarrow> claimable (snd (claim k s)) k'  \<longleftrightarrow> claimable s k'"
begin

lemma second_claim_loses:
  assumes "claimable s k"
  shows "\<not> fst (claim k (snd (claim k s)))"
  using assms claim_wins [of "snd (claim k s)" k] claim_records claim_claimable by simp

lemma other_claim_unaffected:
  assumes "claimable s k" and "claimable s k'" and "k \<noteq> k'"
  shows "fst (claim k' (snd (claim k s))) = fst (claim k' s)"
  using assms claim_wins [of s k'] claim_wins [of "snd (claim k s)" k']
    claim_records claim_claimable by simp

lemma exactly_one_winner:
  assumes "claimable s k" and "k \<notin> taken s"
  shows "fst (claim k s) \<and> \<not> fst (claim k (snd (claim k s)))"
  using assms claim_wins second_claim_loses by simp

end

section \<open>Lists\<close>

lemma sorted_key_append_last:
  "sorted (map f xs) \<Longrightarrow> (\<And>x. x \<in> set xs \<Longrightarrow> f x \<le> f y) \<Longrightarrow> sorted (map f (xs @ [y]))"
  by (auto simp: sorted_append)

lemma sort_key_sorted: "sorted (map f xs) \<Longrightarrow> sort_key f xs = xs"
  by (simp add: sort_key_id_if_sorted)

lemma filter_all_False: "(\<And>x. x \<in> set xs \<Longrightarrow> \<not> P x) \<Longrightarrow> filter P xs = []"
  by (simp add: filter_empty_conv)

lemma filter_all_True: "(\<And>x. x \<in> set xs \<Longrightarrow> P x) \<Longrightarrow> filter P xs = xs"
  by (simp add: filter_id_conv)

text \<open>\<open>n\<close> consecutive numbers after \<open>v\<close>, the shape of a stream's versions.\<close>

fun numbered :: "int \<Rightarrow> nat \<Rightarrow> int list" where
  "numbered v 0 = []"
| "numbered v (Suc n) = (v + 1) # numbered (v + 1) n"

lemma prefix_drop_nth:
  assumes "prefix xs (drop n ys)" "j < length xs"
  shows "n + j < length ys \<and> ys ! (n + j) = xs ! j"
proof -
  obtain zs where zs: "drop n ys = xs @ zs" using assms(1) by (auto simp: prefix_def)
  then have "length ys - n = length xs + length zs" by (metis length_append length_drop)
  then have "n + j < length ys" using assms(2) by linarith
  moreover from this have "ys ! (n + j) = drop n ys ! j" by simp
  ultimately show ?thesis using zs assms(2) by (simp add: nth_append)
qed

lemma length_numbered [simp]: "length (numbered v n) = n"
  by (induction n arbitrary: v) auto

lemma set_numbered: "set (numbered v n) = {v + 1..v + int n}"
  by (induction n arbitrary: v) auto

lemma sorted_numbered: "sorted (numbered v n)"
  by (induction n arbitrary: v) (auto simp: set_numbered)

lemma distinct_numbered: "distinct (numbered v n)"
  by (induction n arbitrary: v) (auto simp: set_numbered)

lemma numbered_append: "numbered v (m + n) = numbered v m @ numbered (v + int m) n"
  by (induction m arbitrary: v) (auto simp: algebra_simps)

section \<open>Event-sourced aggregates\<close>

text \<open>
  Handling inputs one after the other: replay the history, decide, append what was decided. The
  contract of an aggregate is that every valid history replays and that deciding from a replayed
  valid history leaves a valid one; then no sequence of inputs can leave the valid histories.
\<close>

fun run_inputs ::
  "('e list \<Rightarrow> error + 's) \<Rightarrow> ('s \<Rightarrow> 'c \<Rightarrow> 'e list) \<Rightarrow> 'e list \<Rightarrow> 'c list \<Rightarrow> error + 'e list" where
  "run_inputs replay decide es [] = Inr es"
| "run_inputs replay decide es (c # cs) =
     (case replay es of
        Inl err \<Rightarrow> Inl err
      | Inr s \<Rightarrow> run_inputs replay decide (es @ decide s c) cs)"

locale aggregate =
  fixes replay :: "'e list \<Rightarrow> error + 's"
    and decide :: "'s \<Rightarrow> 'c \<Rightarrow> 'e list"
    and valid :: "'e list \<Rightarrow> bool"
  assumes valid_empty: "valid []"
    and valid_replays: "valid es \<Longrightarrow> \<exists>s. replay es = Inr s"
    and decide_valid: "valid es \<Longrightarrow> replay es = Inr s \<Longrightarrow> valid (es @ decide s c)"
begin

lemma run_valid:
  "valid es \<Longrightarrow> \<exists>es'. run_inputs replay decide es cs = Inr es' \<and> valid es' \<and> prefix es es'"
proof (induction cs arbitrary: es)
  case Nil
  then show ?case by simp
next
  case (Cons c cs)
  from valid_replays [OF Cons.prems] obtain s where s: "replay es = Inr s" by blast
  from decide_valid [OF Cons.prems s] Cons.IH obtain es' where
    "run_inputs replay decide (es @ decide s c) cs = Inr es'" "valid es'"
    "prefix (es @ decide s c) es'" by blast
  with s show ?case by (auto dest: append_prefixD)
qed

lemma run_from_empty: "\<exists>es. run_inputs replay decide [] cs = Inr es \<and> valid es"
  using run_valid [OF valid_empty] by blast

end

end
