(* ===== verification/Database.thy ===== *)
theory Database
  imports Prelude
begin

text \<open>
  The database as the program uses it: the tables of \<^verbatim>\<open>internal/inventory/migrations\<close>, a
  transaction as \<^verbatim>\<open>pgx.Tx\<close> offers it, and \<^verbatim>\<open>internal/platform/pg\<close>'s \<open>WithTx\<close>.

  Postgres itself is not part of the repository, so everything it decides is the parameter
  \<open>env\<close>: which statement fails and with which error (\<open>fault\<close>), what other sessions commit
  before each statement of a \<^verbatim>\<open>READ COMMITTED\<close> transaction (\<open>others\<close>, from the sequences and the
  tables they find, and \<open>others_seq\<close> for the sequences, which no rollback returns), whether
  \<^verbatim>\<open>BEGIN\<close> and \<^verbatim>\<open>COMMIT\<close> fail (and whether a \<^verbatim>\<open>COMMIT\<close> that reported an error had been applied all the same), \<open>now\<close>, the text a
  \<^verbatim>\<open>JSONB\<close> value reads back as, the microsecond a \<^verbatim>\<open>TIMESTAMPTZ\<close> column keeps of a time, the
  collation \<^verbatim>\<open>ORDER BY\<close> uses on text, and how \<^verbatim>\<open>%s\<close> prints a time.

  A transaction carries two copies of the tables: \<open>base\<close>, what everybody else has committed, and
  \<open>view\<close>, the same with its own writes. Other sessions' commits reach both. A rollback leaves
  \<open>base\<close>, a commit leaves \<open>view\<close>.
\<close>

section \<open>Tables\<close>

record event_row =
  ev_global_seq :: int
  ev_stream_id :: string
  ev_version :: int
  ev_type :: string
  ev_data :: string
  ev_meta :: gomap
  ev_recorded_at :: time

record outbox_row =
  ob_id :: int
  ob_topic :: string
  ob_key :: string
  ob_payload :: bytes
  ob_headers :: gomap
  ob_published_at :: "time option"

record inbox_row =
  ib_consumer :: string
  ib_source :: string
  ib_event_id :: string
  ib_handled_at :: time

record timer_row =
  tm_id :: int
  tm_fire_at :: time
  tm_subject :: string
  tm_token :: string
  tm_fired_at :: "time option"

record avail_row =
  av_seat_id :: string
  av_status :: string
  av_hold_id :: string
  av_booking_id :: string
  av_expires_at :: "time option"
  av_version :: int

record tables =
  events :: "event_row list"
  outbox :: "outbox_row list"
  inbox :: "inbox_row list"
  timers :: "timer_row list"
  seat_availability :: "avail_row list"

record seqs =
  events_seq :: int
  outbox_seq :: int
  timers_seq :: int

record database =
  tbl :: tables
  sqs :: seqs
  notices :: "string list"

record env =
  fault :: "nat \<Rightarrow> error option"
  others :: "nat \<Rightarrow> seqs \<Rightarrow> tables \<Rightarrow> tables"
  others_seq :: "nat \<Rightarrow> seqs \<Rightarrow> seqs"
  begin_fault :: "error option"
  commit_fault :: "(error \<times> bool) option"
  now :: time
  jsonb_text :: "string \<Rightarrow> string option"
  tstz :: "time \<Rightarrow> time"
  text_order :: "string list \<Rightarrow> string list"
  fmt_time :: "time \<Rightarrow> string"

record tx =
  base :: tables
  view :: tables
  seqs :: seqs
  pending :: "string list"
  aborted :: bool
  stmts :: nat

section \<open>Statements\<close>

text \<open>What other sessions committed since the previous statement.\<close>

definition interleave :: "env \<Rightarrow> tx \<Rightarrow> tx" where
  "interleave e t =
     t\<lparr>base := others e (stmts t) (seqs t) (base t), view := others e (stmts t) (seqs t) (view t),
       seqs := others_seq e (stmts t) (seqs t), stmts := Suc (stmts t)\<rparr>"

text \<open>
  One statement. Once one has failed the transaction is aborted, and every later one fails with
  SQLSTATE 25P02 until it is rolled back.
\<close>

type_synonym 'a stmt = "tables \<Rightarrow> seqs \<Rightarrow> (error + 'a \<times> tables) \<times> seqs"

definition exec :: "env \<Rightarrow> 'a stmt \<Rightarrow> tx \<Rightarrow> (error + 'a) \<times> tx" where
  "exec e st t0 =
     (let t = interleave e t0 in
      if aborted t then
        (Inl (PgError ''25P02'' ''ERROR: current transaction is aborted''), t)
      else
        (case fault e (stmts t0) of
           Some err \<Rightarrow> (Inl err, t\<lparr>aborted := True\<rparr>)
         | None \<Rightarrow>
             (case st (view t) (seqs t) of
                (Inl err, sq) \<Rightarrow> (Inl err, t\<lparr>aborted := True, seqs := sq\<rparr>)
              | (Inr (x, v), sq) \<Rightarrow> (Inr x, t\<lparr>view := v, seqs := sq\<rparr>))))"

text \<open>Statements that touch no sequence, and statements that only read.\<close>

definition update_stmt :: "(tables \<Rightarrow> 'a \<times> tables) \<Rightarrow> 'a stmt" where
  "update_stmt f T sq = (Inr (f T), sq)"

definition select_stmt :: "(tables \<Rightarrow> 'a) \<Rightarrow> 'a stmt" where
  "select_stmt f T sq = (Inr (f T, T), sq)"

text \<open>\<^verbatim>\<open>SELECT pg_notify(channel, '')\<close>: delivered when the transaction commits.\<close>

definition pg_notify :: "env \<Rightarrow> string \<Rightarrow> tx \<Rightarrow> (error + unit) \<times> tx" where
  "pg_notify e channel t0 =
     (case exec e (select_stmt (\<lambda>_. ())) t0 of
        (Inl err, t) \<Rightarrow> (Inl err, t)
      | (Inr _, t) \<Rightarrow> (Inr (), t\<lparr>pending := pending t @ [channel]\<rparr>))"

section \<open>Transactions\<close>

definition begin_tx :: "database \<Rightarrow> tx" where
  "begin_tx db =
     \<lparr>base = tbl db, view = tbl db, seqs = sqs db, pending = [], aborted = False, stmts = 0\<rparr>"

definition rollback_tx :: "tx \<Rightarrow> database \<Rightarrow> database" where
  "rollback_tx t db = db\<lparr>tbl := base t, sqs := seqs t\<rparr>"

definition applied_tx :: "tx \<Rightarrow> database \<Rightarrow> database" where
  "applied_tx t db = db\<lparr>tbl := view t, sqs := seqs t, notices := notices db @ pending t\<rparr>"

definition commit_tx :: "env \<Rightarrow> tx \<Rightarrow> database \<Rightarrow> (error + unit) \<times> database" where
  "commit_tx e t0 db =
     (let t = interleave e t0 in
      if aborted t then
        (Inl (ErrorNew ''commit unexpectedly resulted in rollback''), rollback_tx t db)
      else
        (case commit_fault e of
           None \<Rightarrow> (Inr (), applied_tx t db)
         | Some (err, applied) \<Rightarrow>
             (Inl err, if applied then applied_tx t db else rollback_tx t db)))"

text \<open>
  \<^verbatim>\<open>pg.WithTx\<close>: the function's error comes back as it is, after a rollback; only a failing
  \<^verbatim>\<open>BEGIN\<close> or \<^verbatim>\<open>COMMIT\<close> is wrapped. The value is what the closure leaves in the variables it
  captures.
\<close>

definition WithTx ::
  "env \<Rightarrow> (tx \<Rightarrow> (error + 'a) \<times> tx) \<Rightarrow> database \<Rightarrow> (error + 'a) \<times> database" where
  "WithTx e fn db =
     (case begin_fault e of
        Some err \<Rightarrow> (Inl (Errorf ''begin: '' err []), db)
      | None \<Rightarrow>
          (case fn (begin_tx db) of
             (Inl err, t) \<Rightarrow> (Inl err, rollback_tx t db)
           | (Inr x, t) \<Rightarrow>
               (case commit_tx e t db of
                  (Inl err, db') \<Rightarrow> (Inl (Errorf ''commit: '' err []), db')
                | (Inr _, db') \<Rightarrow> (Inr x, db'))))"

text \<open>A statement outside a transaction block, on the pool: it commits by itself.\<close>

definition pool_exec :: "env \<Rightarrow> 'a stmt \<Rightarrow> database \<Rightarrow> (error + 'a) \<times> database" where
  "pool_exec e st db =
     (case exec e st (begin_tx db) of
        (Inl err, t) \<Rightarrow> (Inl err, rollback_tx t db)
      | (Inr x, t) \<Rightarrow>
          (case commit_tx e t db of
             (Inl err, db') \<Rightarrow> (Inl err, db')
           | (Inr _, db') \<Rightarrow> (Inr x, db')))"

section \<open>The frame of a transaction: what it leaves of everybody else's data\<close>

text \<open>Sequences only move forward, whether or not the value drawn from them is used.\<close>

definition seqs_le :: "seqs \<Rightarrow> seqs \<Rightarrow> bool" where
  "seqs_le S S' \<longleftrightarrow>
     events_seq S \<le> events_seq S' \<and> outbox_seq S \<le> outbox_seq S' \<and> timers_seq S \<le> timers_seq S'"

lemma seqs_le_refl [simp]: "seqs_le S S"
  by (simp add: seqs_le_def)

lemma seqs_le_trans: "seqs_le S S' \<Longrightarrow> seqs_le S' S'' \<Longrightarrow> seqs_le S S''"
  by (simp add: seqs_le_def)

definition draws :: "'a stmt \<Rightarrow> bool" where
  "draws st \<longleftrightarrow> (\<forall>T S. seqs_le S (snd (st T S)))"

lemma draws_update [frame_intros]: "draws (update_stmt f)"
  by (simp add: draws_def update_stmt_def)

lemma draws_select [frame_intros]: "draws (select_stmt f)"
  by (simp add: draws_def select_stmt_def)

text \<open>
  What can become of the committed tables and the sequences while a transaction is open: other
  sessions commit, and values are drawn from the sequences.
\<close>

inductive meanwhile :: "env \<Rightarrow> tables \<times> seqs \<Rightarrow> tables \<times> seqs \<Rightarrow> bool" for e where
  start: "meanwhile e x x"
| others_commit: "meanwhile e x (T, S) \<Longrightarrow> meanwhile e x (others e n S T, others_seq e n S)"
| drawn: "meanwhile e x (T, S) \<Longrightarrow> seqs_le S S' \<Longrightarrow> meanwhile e x (T, S')"

lemma meanwhile_trans:
  assumes "meanwhile e y z" and "meanwhile e x y"
  shows "meanwhile e x z"
  using assms by (induction rule: meanwhile.induct) (auto intro: meanwhile.intros)

definition base_frame :: "env \<Rightarrow> tx \<Rightarrow> tx \<Rightarrow> bool" where
  "base_frame e t t' \<longleftrightarrow>
     meanwhile e (base t, seqs t) (base t', seqs t') \<and> (aborted t \<longrightarrow> aborted t')"

interpretation base_frame: frame "base_frame e" for e
  by unfold_locales (auto simp: base_frame_def intro: meanwhile.start meanwhile_trans)

lemma base_frame_interleave: "base_frame e t (interleave e t)"
  by (simp add: base_frame_def interleave_def others_commit [OF meanwhile.start])

lemma keeps_base_exec [frame_intros]:
  assumes "draws st"
  shows "keeps (base_frame e) (exec e st)"
proof (rule keepsI)
  fix t
  have "seqs_le S (snd (st T S))" for T S using assms by (simp add: draws_def)
  then have "base_frame e (interleave e t) (snd (exec e st t))"
    by (auto simp: exec_def base_frame_def Let_def split: option.splits prod.splits sum.splits
        intro: meanwhile.intros) (metis meanwhile.drawn meanwhile.start snd_conv)+
  with base_frame_interleave show "base_frame e t (snd (exec e st t))"
    by (rule base_frame.frame_trans)
qed

lemma keeps_base_pg_notify [frame_intros]: "keeps (base_frame e) (pg_notify e ch)"
proof (rule keepsI)
  fix t
  have "base_frame e t (snd (exec e (select_stmt (\<lambda>_. ())) t))"
    using keeps_base_exec [OF draws_select] unfolding keeps_def by blast
  then show "base_frame e t (snd (pg_notify e ch t))"
    by (auto simp: pg_notify_def base_frame_def split: prod.splits sum.splits)
qed

lemmas base_seq = base_frame.keeps_seq
declare base_seq [frame_intros]

lemma begin_tx_simps [simp]:
  "base (begin_tx db) = tbl db" "view (begin_tx db) = tbl db" "seqs (begin_tx db) = sqs db"
  "pending (begin_tx db) = []" "aborted (begin_tx db) = False" "stmts (begin_tx db) = 0"
  by (simp_all add: begin_tx_def)

lemma base_frame_rollback:
  "base_frame e (begin_tx db) t \<Longrightarrow>
     meanwhile e (tbl db, sqs db) (tbl (rollback_tx t db), sqs (rollback_tx t db))"
  by (simp add: base_frame_def rollback_tx_def)

text \<open>
  The ways a transaction can end, for every closure that reaches the database only through
  statements: its own writes are either all there or none of them is, and a nil error means they
  are.
\<close>

lemma commit_tx_cases:
  assumes "commit_tx e t db = (r, db')"
  obtains (rolled_back) err where "r = Inl err" and "db' = rollback_tx (interleave e t) db"
    | (applied) "\<not> aborted t" and "db' = applied_tx (interleave e t) db"
  using assms
  by (auto simp: commit_tx_def Let_def interleave_def split: if_splits option.splits prod.splits)

lemma WithTx_cases:
  assumes "WithTx e fn db = (r, db')" and "keeps (base_frame e) fn"
  obtains (none) err where "r = Inl err" and "meanwhile e (tbl db, sqs db) (tbl db', sqs db')"
      and "notices db' = notices db"
    | (all) x t where "fn (begin_tx db) = (Inr x, t)" and "\<not> aborted t"
      and "db' = applied_tx (interleave e t) db"
      and "r = Inr x \<or> (\<exists>err. r = Inl (Errorf ''commit: '' err []))"
proof (cases "begin_fault e")
  case (Some err)
  then have "r = Inl (Errorf ''begin: '' err [])" "db' = db"
    using assms(1) by (simp_all add: WithTx_def)
  then show ?thesis by (intro none) (simp_all add: meanwhile.start)
next
  case None
  obtain r0 t where run: "fn (begin_tx db) = (r0, t)" by (cases "fn (begin_tx db)")
  then have "base_frame e (begin_tx db) t"
    using assms(2) by (blast dest: keepsD)
  then have bt: "meanwhile e (tbl db, sqs db) (base t, seqs t)"
    by (simp add: base_frame_def)
  show ?thesis
  proof (cases r0)
    case (Inl err)
    then have "r = Inl err" "db' = rollback_tx t db"
      using assms(1) None run by (simp_all add: WithTx_def)
    then show ?thesis using bt by (intro none) (simp_all add: rollback_tx_def)
  next
    case (Inr x)
    obtain rc dbc where com: "commit_tx e t db = (rc, dbc)" by (cases "commit_tx e t db")
    have r: "r = (case rc of Inl err \<Rightarrow> Inl (Errorf ''commit: '' err []) | Inr _ \<Rightarrow> Inr x)"
      and db': "db' = dbc"
      using assms(1) None run Inr com by (auto simp: WithTx_def split: sum.splits)
    from com show ?thesis
    proof (cases rule: commit_tx_cases)
      case (rolled_back err)
      then show ?thesis using r db' bt
        by (intro none) (simp_all add: rollback_tx_def interleave_def others_commit)
    next
      case applied
      then show ?thesis using r db' run Inr by (intro all) (auto split: sum.split)
    qed
  qed
qed

section \<open>Properties of the view\<close>

text \<open>What every commit of another session respects is respected along the transaction.\<close>

definition others_keep :: "env \<Rightarrow> (tables \<Rightarrow> tables \<Rightarrow> bool) \<Rightarrow> bool" where
  "others_keep e R \<longleftrightarrow> (\<forall>n S T. R T (others e n S T))"

lemma meanwhile_keeps:
  assumes "meanwhile e (T, S) (T', S')"
    and "others_keep e R" and "\<And>T. R T T" and "\<And>T U V. R T U \<Longrightarrow> R U V \<Longrightarrow> R T V"
  shows "R T T'"
proof -
  have "R (fst x) (fst y)" if "meanwhile e x y" for x y
    using that
  proof (induction rule: meanwhile.induct)
    case (others_commit x T S n)
    then show ?case using assms(2,4) by (auto simp: others_keep_def)
  qed (use assms(3) in auto)
  from this [OF assms(1)] show ?thesis by simp
qed

definition view_frame :: "(tables \<Rightarrow> tables \<Rightarrow> bool) \<Rightarrow> tx \<Rightarrow> tx \<Rightarrow> bool" where
  "view_frame R t t' \<longleftrightarrow> R (view t) (view t')"

lemma keeps_viewD: "keeps (view_frame R) m \<Longrightarrow> m t = (r, t') \<Longrightarrow> R (view t) (view t')"
  by (auto simp: view_frame_def dest: keepsD)

lemma exec_view:
  assumes "exec e st t = (r, t')"
  shows "view t' = others e (stmts t) (seqs t) (view t) \<or>
    (\<exists>x sq. r = Inr x \<and> st (others e (stmts t) (seqs t) (view t)) (others_seq e (stmts t) (seqs t))
        = (Inr (x, view t'), sq))"
  using assms
  by (auto simp: exec_def Let_def interleave_def split: if_splits option.splits prod.splits sum.splits)

lemma exec_ok:
  assumes "exec e st t = (Inr x, t')"
  shows "\<not> aborted t" "\<not> aborted t'" "fault e (stmts t) = None" "stmts t' = Suc (stmts t)"
    "st (others e (stmts t) (seqs t) (view t)) (others_seq e (stmts t) (seqs t))
       = (Inr (x, view t'), seqs t')"
    "pending t' = pending t"
  using assms
  by (auto simp: exec_def Let_def interleave_def split: if_splits option.splits prod.splits sum.splits)

section \<open>A quiet database\<close>

text \<open>No failure and nobody else: the setting of the exact functional statements.\<close>

definition quiet :: "env \<Rightarrow> bool" where
  "quiet e \<longleftrightarrow>
     (\<forall>n. fault e n = None) \<and> (\<forall>n S T. others e n S T = T) \<and> (\<forall>n S. others_seq e n S = S) \<and>
     begin_fault e = None \<and> commit_fault e = None"

lemma quietD:
  assumes "quiet e"
  shows "fault e n = None" "others e n S T = T" "others_seq e n S = S"
    "begin_fault e = None" "commit_fault e = None"
  using assms by (simp_all add: quiet_def)

lemma quiet_exec:
  assumes "quiet e" and "\<not> aborted t"
  shows "exec e st t =
    (case st (view t) (seqs t) of
       (Inl err, sq) \<Rightarrow> (Inl err, t\<lparr>stmts := Suc (stmts t), aborted := True, seqs := sq\<rparr>)
     | (Inr (x, v), sq) \<Rightarrow> (Inr x, t\<lparr>stmts := Suc (stmts t), view := v, seqs := sq\<rparr>))"
  using assms by (simp add: exec_def Let_def interleave_def quietD split: prod.split sum.split)

lemma quiet_exec_update:
  assumes "quiet e" and "\<not> aborted t"
  shows "exec e (update_stmt f) t =
    (Inr (fst (f (view t))), t\<lparr>stmts := Suc (stmts t), view := snd (f (view t))\<rparr>)"
  using assms by (simp add: quiet_exec update_stmt_def split: prod.split)

lemma quiet_exec_select:
  assumes "quiet e" and "\<not> aborted t"
  shows "exec e (select_stmt f) t = (Inr (f (view t)), t\<lparr>stmts := Suc (stmts t)\<rparr>)"
  using assms by (simp add: quiet_exec select_stmt_def)

lemma quiet_pg_notify:
  assumes "quiet e" and "\<not> aborted t"
  shows "pg_notify e ch t =
    (Inr (), t\<lparr>stmts := Suc (stmts t), pending := pending t @ [ch]\<rparr>)"
  using assms by (simp add: pg_notify_def quiet_exec_select)

lemma quiet_meanwhile: "quiet e \<Longrightarrow> meanwhile e (T, S) (T', S') \<Longrightarrow> T' = T"
  by (erule meanwhile_keeps [where R = "\<lambda>T T'. T' = T"]) (auto simp: others_keep_def quietD)

lemma quiet_WithTx_ok:
  assumes "quiet e" and "fn (begin_tx db) = (Inr x, t)" and "\<not> aborted t"
  shows "WithTx e fn db =
    (Inr x, db\<lparr>tbl := view t, sqs := seqs t, notices := notices db @ pending t\<rparr>)"
  using assms
  by (simp add: WithTx_def commit_tx_def applied_tx_def interleave_def quietD Let_def)

lemma quiet_WithTx_err:
  assumes "quiet e" and "fn (begin_tx db) = (Inl err, t)" and "keeps (base_frame e) fn"
  shows "WithTx e fn db = (Inl err, db\<lparr>sqs := seqs t\<rparr>)"
proof -
  have "base_frame e (begin_tx db) t"
    using assms(2,3) by (blast dest: keepsD)
  then have "base t = tbl db"
    using quiet_meanwhile [OF assms(1)] by (auto simp: base_frame_def)
  then show ?thesis
    using assms by (simp add: WithTx_def rollback_tx_def quietD)
qed

text \<open>A statement during which nothing happens.\<close>

definition calm_at :: "env \<Rightarrow> nat \<Rightarrow> bool" where
  "calm_at e n \<longleftrightarrow>
     fault e n = None \<and> (\<forall>S T. others e n S T = T) \<and> (\<forall>S. others_seq e n S = S)"

text \<open>The same server without failures and without other sessions.\<close>

definition quieten :: "env \<Rightarrow> env" where
  "quieten e =
     e\<lparr>fault := (\<lambda>_. None), others := (\<lambda>_ _ T. T), others_seq := (\<lambda>_ S. S),
       begin_fault := None, commit_fault := None\<rparr>"

lemma quiet_quieten [simp]: "quiet (quieten e)"
  by (simp add: quiet_def quieten_def)

lemma quieten_simps [simp]:
  "jsonb_text (quieten e) = jsonb_text e" "now (quieten e) = now e" "tstz (quieten e) = tstz e"
  "text_order (quieten e) = text_order e" "fmt_time (quieten e) = fmt_time e"
  by (simp_all add: quieten_def)

lemma calm_exec: "calm_at e (stmts t) \<Longrightarrow> exec e st t = exec (quieten e) st t"
  by (simp add: exec_def Let_def interleave_def calm_at_def quieten_def)

text \<open>
  A server that may fail at any statement and at the commit, but serves nobody else meanwhile: what
  one session does on it is what it would have done without the failures, or nothing.
\<close>

definition alone :: "env \<Rightarrow> bool" where
  "alone e \<longleftrightarrow> (\<forall>n S T. others e n S T = T) \<and> (\<forall>n S. others_seq e n S = S)"

lemma aloneD: "alone e \<Longrightarrow> others e n S T = T" "alone e \<Longrightarrow> others_seq e n S = S"
  by (simp_all add: alone_def)

lemma alone_meanwhile: "alone e \<Longrightarrow> meanwhile e (T, S) (T', S') \<Longrightarrow> T' = T"
  by (erule meanwhile_keeps [where R = "\<lambda>T T'. T' = T"]) (auto simp: others_keep_def aloneD)

lemma quiet_alone: "quiet e \<Longrightarrow> alone e"
  by (simp add: quiet_def alone_def)

lemma alone_exec [alone_intros]:
  assumes "alone e"
  shows "succeeds_as (exec e st) (exec (quieten e) st)"
  unfolding succeeds_as_def
  using assms
  by (auto simp: exec_def Let_def interleave_def aloneD quieten_def
      split: if_splits option.splits prod.splits sum.splits)

lemma alone_pg_notify [alone_intros]:
  assumes "alone e"
  shows "succeeds_as (pg_notify e ch) (pg_notify (quieten e) ch)"
proof -
  have "exec (quieten e) (select_stmt (\<lambda>_. ())) t = (Inr x, t')"
    if "exec e (select_stmt (\<lambda>_. ())) t = (Inr x, t')" for t x t'
    using alone_exec [OF assms] that by (rule succeeds_asD)
  then show ?thesis
    by (auto simp: succeeds_as_def pg_notify_def split: prod.splits sum.splits)
qed

text \<open>All or nothing, for any closure that runs the same statements on both servers.\<close>

lemma alone_WithTx:
  assumes "alone e" "WithTx e fn db = (r, db')" "keeps (base_frame e) fn" "succeeds_as fn fn'"
  shows "(\<exists>err. r = Inl err \<and> tbl db' = tbl db \<and> notices db' = notices db) \<or>
    (\<exists>x. WithTx (quieten e) fn' db = (Inr x, db') \<and>
      (r = Inr x \<or> (\<exists>err. r = Inl (Errorf ''commit: '' err []))))"
  using assms(2,3)
proof (cases rule: WithTx_cases)
  case (none err)
  then show ?thesis using alone_meanwhile [OF assms(1)] by simp
next
  case (all x t)
  have "fn' (begin_tx db) = (Inr x, t)" using assms(4) all(1) by (rule succeeds_asD)
  then have "WithTx (quieten e) fn' db = (Inr x, db')"
    using all(2,3) assms(1)
    by (simp add: quiet_WithTx_ok applied_tx_def interleave_def aloneD)
  then show ?thesis using all(4) by blast
qed

text \<open>The environment the witnesses run in.\<close>

definition calm_env :: env where
  "calm_env =
     \<lparr>fault = (\<lambda>_. None), others = (\<lambda>_ _ T. T), others_seq = (\<lambda>_ S. S), begin_fault = None,
      commit_fault = None, now = 1000, jsonb_text = Some, tstz = (\<lambda>t. t),
      text_order = (\<lambda>xs. xs), fmt_time = itoa\<rparr>"

lemma quiet_calm_env [simp]: "quiet calm_env"
  by (simp add: quiet_def calm_env_def)

definition empty_tables :: tables where
  "empty_tables =
     \<lparr>events = [], outbox = [], inbox = [], timers = [], seat_availability = []\<rparr>"

definition empty_db :: database where
  "empty_db =
     \<lparr>tbl = empty_tables, sqs = \<lparr>events_seq = 0, outbox_seq = 0, timers_seq = 0\<rparr>, notices = []\<rparr>"

end
