(* ===== verification/Laws.thy ===== *)
theory Laws
  imports Database
begin

text \<open>
  Rely and guarantee over the shared database. A \<^emph>\<open>law\<close> is a relation between states of the tables
  and the sequences that is reflexive and transitive and does not mind a value drawn from a sequence.
  When every commit of the other sessions obeys the law (\<open>rely\<close>), a transaction obeys it as soon as
  the writes of its own that are applied do: whatever is rolled back leaves what the others
  committed, and a commit is a step of its own after theirs. The locale proves this once, for
  statements, transactions and statements on the pool; the invariants of the service interpret it.
\<close>

type_synonym state = "tables \<times> seqs"

definition rely :: "(state \<Rightarrow> state \<Rightarrow> bool) \<Rightarrow> env \<Rightarrow> bool" where
  "rely R e \<longleftrightarrow> (\<forall>n S T. R (T, S) (others e n S T, others_seq e n S))"

abbreviation state_of :: "database \<Rightarrow> state" where
  "state_of db \<equiv> (tbl db, sqs db)"

definition state_frame :: "(state \<Rightarrow> state \<Rightarrow> bool) \<Rightarrow> tx \<Rightarrow> tx \<Rightarrow> bool" where
  "state_frame R t t' \<longleftrightarrow> R (view t, seqs t) (view t', seqs t')"

lemma relyD: "rely R e \<Longrightarrow> R (T, S) (others e n S T, others_seq e n S)"
  by (simp add: rely_def)

lemma rely_mono: "rely R e \<Longrightarrow> (\<And>x y. R x y \<Longrightarrow> Q x y) \<Longrightarrow> rely Q e"
  by (simp add: rely_def)

lemma rely_quiet: "quiet e \<Longrightarrow> (\<And>x. R x x) \<Longrightarrow> rely R e"
  by (simp add: rely_def quietD)

lemma rely_tables: "rely (\<lambda>x y. Q (fst x) (fst y)) e \<longleftrightarrow> others_keep e Q"
  by (simp add: rely_def others_keep_def)

lemma keeps_stateD:
  "keeps (state_frame R) m \<Longrightarrow> m t = (r, t') \<Longrightarrow> R (view t, seqs t) (view t', seqs t')"
  by (auto simp: state_frame_def dest: keepsD)

locale table_law =
  fixes R :: "state \<Rightarrow> state \<Rightarrow> bool"
  assumes law_refl: "R x x"
    and law_trans: "R x y \<Longrightarrow> R y z \<Longrightarrow> R x z"
    and law_drawn: "seqs_le S S' \<Longrightarrow> R (T, S) (T, S')"

sublocale table_law \<subseteq> in_tx: frame "state_frame R"
  by unfold_locales (auto simp: state_frame_def intro: law_refl law_trans)

context table_law
begin

lemma meanwhile_law: "meanwhile e x y \<Longrightarrow> rely R e \<Longrightarrow> R x y"
  by (induction rule: meanwhile.induct) (auto intro: law_refl law_trans law_drawn relyD)

lemma interleave_law: "rely R e \<Longrightarrow> R x (view t, seqs t) \<Longrightarrow> R x (view (interleave e t), seqs (interleave e t))"
  unfolding interleave_def by (auto intro: law_trans relyD)

text \<open>One statement; a failing one may have drawn from the sequences.\<close>

lemma exec_law:
  assumes "rely R e" "draws st" "exec e st t = (r, t')"
    and "\<And>T S x T' S'. st T S = (Inr (x, T'), S') \<Longrightarrow> R (T, S) (T', S')"
  shows "R (view t, seqs t) (view t', seqs t')"
proof -
  let ?t = "interleave e t"
  have "R (view ?t, seqs ?t) (view t', seqs t')"
  proof (cases "aborted ?t \<or> fault e (stmts t) \<noteq> None")
    case True
    then show ?thesis using assms(3)
      by (auto simp: exec_def Let_def law_refl split: if_splits option.splits prod.splits sum.splits)
  next
    case False
    obtain x S' where st: "st (view ?t) (seqs ?t) = (x, S')" by (cases "st (view ?t) (seqs ?t)")
    then have "seqs_le (seqs ?t) S'" using assms(2) unfolding draws_def by (metis snd_conv)
    then show ?thesis using assms(3,4) st False
      by (auto simp: exec_def Let_def split: sum.splits intro: law_drawn)
  qed
  then show ?thesis using interleave_law [OF assms(1) law_refl] by (blast intro: law_trans)
qed

lemma keeps_exec:
  assumes "rely R e" "draws st" "\<And>T S x T' S'. st T S = (Inr (x, T'), S') \<Longrightarrow> R (T, S) (T', S')"
  shows "keeps (state_frame R) (exec e st)"
proof (rule keepsI)
  fix t
  obtain r t' where run: "exec e st t = (r, t')" by (cases "exec e st t")
  from exec_law [OF assms(1,2) run assms(3)] run show "state_frame R t (snd (exec e st t))"
    by (simp add: state_frame_def)
qed

lemma keeps_select: "rely R e \<Longrightarrow> keeps (state_frame R) (exec e (select_stmt f))"
  by (rule keeps_exec) (auto simp: select_stmt_def law_refl intro: draws_select)

lemma keeps_update:
  assumes "rely R e" "\<And>T S. R (T, S) (snd (f T), S)"
  shows "keeps (state_frame R) (exec e (update_stmt f))"
proof (rule keeps_exec [OF assms(1) draws_update])
  fix T S x T' S'
  assume "update_stmt f T S = (Inr (x, T'), S')"
  then show "R (T, S) (T', S')" using assms(2) [of T S] by (simp add: update_stmt_def)
qed

lemma keeps_pg_notify:
  assumes "rely R e"
  shows "keeps (state_frame R) (pg_notify e ch)"
proof (rule keepsI)
  fix t
  have "state_frame R t (snd (exec e (select_stmt (\<lambda>_. ())) t))"
    using keeps_select [OF assms, of "\<lambda>_. ()"] by (simp add: keeps_def)
  then show "state_frame R t (snd (pg_notify e ch t))"
    by (auto simp: pg_notify_def state_frame_def split: prod.splits sum.splits)
qed

lemma rollback_law:
  "rely R e \<Longrightarrow> base_frame e (begin_tx db) t \<Longrightarrow> R (state_of db) (state_of (rollback_tx t db))"
  by (rule meanwhile_law [OF base_frame_rollback])

lemma applied_law:
  "rely R e \<Longrightarrow> R x (view t, seqs t) \<Longrightarrow> R x (state_of (applied_tx (interleave e t) db))"
  by (simp add: applied_tx_def interleave_law)

lemma WithTx_law:
  assumes "rely R e" "WithTx e fn db = (r, db')" "keeps (base_frame e) fn" "R x (state_of db)"
    and "\<And>v t. fn (begin_tx db) = (Inr v, t) \<Longrightarrow> R x (view t, seqs t)"
  shows "R x (state_of db')"
  using assms(2,3)
proof (cases rule: WithTx_cases)
  case (none err)
  then show ?thesis using meanwhile_law [OF _ assms(1)] assms(4) by (blast intro: law_trans)
next
  case (all v t)
  then show ?thesis using applied_law [OF assms(1) assms(5)] by simp
qed

lemma pool_exec_law:
  assumes "rely R e" "pool_exec e st db = (r, db')" "draws st"
    and "\<And>T S x T' S'. st T S = (Inr (x, T'), S') \<Longrightarrow> R (T, S) (T', S')"
  shows "R (state_of db) (state_of db')"
proof -
  obtain r1 t where ex: "exec e st (begin_tx db) = (r1, t)" by (cases "exec e st (begin_tx db)")
  have base: "base_frame e (begin_tx db) t" using keeps_base_exec [OF assms(3)] ex by (rule keepsD)
  have view: "R (state_of db) (view t, seqs t)"
    using exec_law [OF assms(1,3) ex] assms(4) by simp
  have commit: "R (state_of db) (state_of db2)" if "commit_tx e t db = (r2, db2)" for r2 db2
    using that
  proof (cases rule: commit_tx_cases)
    case (rolled_back err)
    then show ?thesis
      using rollback_law [OF assms(1)] base_frame.frame_trans [OF base base_frame_interleave] by simp
  next
    case applied
    then show ?thesis using applied_law [OF assms(1) view] by simp
  qed
  show ?thesis
    using assms(2) ex rollback_law [OF assms(1) base] commit
    by (cases r1) (auto simp: pool_exec_def split: prod.splits sum.splits)
qed

text \<open>What a read on the pool returns was the case at some moment of it.\<close>

lemma pool_select_law:
  assumes "rely R e" "pool_exec e (select_stmt f) db = (Inr v, db')"
  obtains T0 S0 where "v = f T0" "R (state_of db) (T0, S0)" "R (T0, S0) (state_of db')"
proof -
  obtain t where ex: "exec e (select_stmt f) (begin_tx db) = (Inr v, t)" and cm: "commit_tx e t db = (Inr (), db')"
    using assms(2) by (auto simp: pool_exec_def split: prod.splits sum.splits)
  have "R (state_of db) (view t, seqs t)"
    using keeps_stateD [OF keeps_select [OF assms(1)] ex] by simp
  moreover have "v = f (view t)" using exec_ok(5) [OF ex] by (auto simp: select_stmt_def)
  moreover have "R (view t, seqs t) (state_of db')"
    using cm applied_law [OF assms(1) law_refl] by (cases rule: commit_tx_cases) simp_all
  ultimately show ?thesis using that by blast
qed

lemma prune_law:
  assumes "rely R e" "wrapE w (pool_exec e (update_stmt f)) db = (r, db')" "\<And>T S. R (T, S) (snd (f T), S)"
  shows "R (state_of db) (state_of db')"
proof -
  obtain r1 where "pool_exec e (update_stmt f) db = (r1, db')"
    using assms(2) by (auto simp: wrapE_def split: prod.splits sum.splits)
  then show ?thesis
    using assms(3) by (intro pool_exec_law [OF assms(1) _ draws_update]) (auto simp: update_stmt_def, metis snd_conv)
qed

end

end
