(* ===== verification/Contracts.thy ===== *)
theory Contracts
  imports Prelude
begin

text \<open>
  The message contracts of \<^verbatim>\<open>contracts/sagaflow/inventory/v1\<close>: the fields of the six generated
  structs and the one type \<^verbatim>\<open>proto.Message\<close> that the components pass around, with the fully
  qualified name that identifies a message type on the wire, in the events table and in the
  protobuf registry.

  \<open>timestamp\<close> is \<^verbatim>\<open>google.protobuf.Timestamp\<close>; a nil pointer to one is \<open>None\<close>. Its
  conversions to and from \<^verbatim>\<open>time.Time\<close> are third-party code and stay parameters of the
  operations that use them.
\<close>

datatype timestamp = Timestamp (ts_seconds: int) (ts_nanos: int)

record HoldSeat =
  hs_HoldId :: string
  hs_BookingId :: string
  hs_SeatId :: string
  hs_ExpiresAt :: "timestamp option"

record ReleaseSeatHold =
  rs_HoldId :: string
  rs_BookingId :: string
  rs_SeatId :: string
  rs_Reason :: string

record SeatHeld =
  sh_HoldId :: string
  sh_BookingId :: string
  sh_SeatId :: string
  sh_ExpiresAt :: "timestamp option"

record SeatHoldReleased =
  sr_HoldId :: string
  sr_BookingId :: string
  sr_SeatId :: string
  sr_Reason :: string

record SeatHoldExpired =
  se_HoldId :: string
  se_BookingId :: string
  se_SeatId :: string

record SeatUnavailable =
  su_HoldId :: string
  su_BookingId :: string
  su_SeatId :: string
  su_Reason :: string

text \<open>
  A message as the program sees it through the \<^verbatim>\<open>proto.Message\<close> interface: one of the six
  generated types, or any other type linked into the binary, of which only its name is known here.
\<close>

datatype message =
    HoldSeatMsg HoldSeat
  | ReleaseSeatHoldMsg ReleaseSeatHold
  | SeatHeldMsg SeatHeld
  | SeatHoldReleasedMsg SeatHoldReleased
  | SeatHoldExpiredMsg SeatHoldExpired
  | SeatUnavailableMsg SeatUnavailable
  | OtherMsg string

text \<open>\<^verbatim>\<open>m.ProtoReflect().Descriptor().FullName()\<close>: the package line and the message name of each
  generated file's raw descriptor.\<close>

fun FullName :: "message \<Rightarrow> string" where
  "FullName (HoldSeatMsg _) = ''sagaflow.inventory.v1.HoldSeat''"
| "FullName (ReleaseSeatHoldMsg _) = ''sagaflow.inventory.v1.ReleaseSeatHold''"
| "FullName (SeatHeldMsg _) = ''sagaflow.inventory.v1.SeatHeld''"
| "FullName (SeatHoldReleasedMsg _) = ''sagaflow.inventory.v1.SeatHoldReleased''"
| "FullName (SeatHoldExpiredMsg _) = ''sagaflow.inventory.v1.SeatHoldExpired''"
| "FullName (SeatUnavailableMsg _) = ''sagaflow.inventory.v1.SeatUnavailable''"
| "FullName (OtherMsg n) = n"

text \<open>The zero value of each generated type, as in \<^verbatim>\<open>&inventoryv1.HoldSeat{}\<close>.\<close>

definition new_HoldSeat :: message where
  "new_HoldSeat = HoldSeatMsg \<lparr>hs_HoldId = [], hs_BookingId = [], hs_SeatId = [], hs_ExpiresAt = None\<rparr>"

definition new_ReleaseSeatHold :: message where
  "new_ReleaseSeatHold =
     ReleaseSeatHoldMsg \<lparr>rs_HoldId = [], rs_BookingId = [], rs_SeatId = [], rs_Reason = []\<rparr>"

definition new_SeatHeld :: message where
  "new_SeatHeld = SeatHeldMsg \<lparr>sh_HoldId = [], sh_BookingId = [], sh_SeatId = [], sh_ExpiresAt = None\<rparr>"

definition new_SeatHoldReleased :: message where
  "new_SeatHoldReleased =
     SeatHoldReleasedMsg \<lparr>sr_HoldId = [], sr_BookingId = [], sr_SeatId = [], sr_Reason = []\<rparr>"

definition new_SeatHoldExpired :: message where
  "new_SeatHoldExpired = SeatHoldExpiredMsg \<lparr>se_HoldId = [], se_BookingId = [], se_SeatId = []\<rparr>"

definition new_SeatUnavailable :: message where
  "new_SeatUnavailable =
     SeatUnavailableMsg \<lparr>su_HoldId = [], su_BookingId = [], su_SeatId = [], su_Reason = []\<rparr>"

lemmas new_messages = new_HoldSeat_def new_ReleaseSeatHold_def new_SeatHeld_def new_SeatHoldReleased_def
  new_SeatHoldExpired_def new_SeatUnavailable_def

text \<open>The events a seat stream holds.\<close>

fun is_seat_event :: "message \<Rightarrow> bool" where
  "is_seat_event (SeatHeldMsg _) = True"
| "is_seat_event (SeatHoldReleasedMsg _) = True"
| "is_seat_event (SeatHoldExpiredMsg _) = True"
| "is_seat_event _ = False"

lemma FullName_seat_event_nonempty: "is_seat_event m \<Longrightarrow> FullName m \<noteq> []"
  by (cases m) simp_all

end
