(* ===== verification/EventStore.thy ===== *)
theory EventStore
  imports Database "HOL-Library.Multiset"
begin

text \<open>
  \<^verbatim>\<open>internal/platform/eventstore\<close>: \<open>Append\<close>, \<open>Load\<close> and \<open>Streams\<close> over the \<^verbatim>\<open>events\<close> table,
  with \<^verbatim>\<open>UNIQUE (stream_id, version)\<close> as the only thing that arbitrates between writers.

  A \<^verbatim>\<open>JSONB\<close> object of strings is kept as its key/value list, so \<^verbatim>\<open>encoding/json\<close> on \<open>Meta\<close> is
  the list of its non-empty fields. \<^verbatim>\<open>json.Marshal\<close> and \<^verbatim>\<open>json.Unmarshal\<close> on a struct of strings
  return no error on such values, so their error branches have no counterpart. A read that fails
  reports it from the query, from a scan or from \<^verbatim>\<open>rows.Err\<close>; the three wrap it alike and the
  query's text stands for all of them.
\<close>

section \<open>Data\<close>

record Meta =
  meta_TraceID :: string
  meta_CorrelationID :: string
  meta_CausationID :: string

definition empty_Meta :: Meta where
  "empty_Meta = \<lparr>meta_TraceID = [], meta_CorrelationID = [], meta_CausationID = []\<rparr>"

record Event =
  es_Type :: string
  es_Data :: bytes
  es_Meta :: Meta

record Recorded =
  rec_Event :: Event
  rec_StreamID :: string
  rec_Version :: int
  rec_GlobalSeq :: int
  rec_RecordedAt :: time

definition Meta_marshal :: "Meta \<Rightarrow> gomap" where
  "Meta_marshal m =
     filter (\<lambda>kv. snd kv \<noteq> [])
       [(''trace_id'', meta_TraceID m), (''correlation_id'', meta_CorrelationID m),
        (''causation_id'', meta_CausationID m)]"

definition Meta_unmarshal :: "gomap \<Rightarrow> Meta" where
  "Meta_unmarshal j =
     \<lparr>meta_TraceID = map_get j ''trace_id'', meta_CorrelationID = map_get j ''correlation_id'',
      meta_CausationID = map_get j ''causation_id''\<rparr>"

definition validate :: "Event \<Rightarrow> error option" where
  "validate ev =
     (if es_Type ev = [] then Some (ErrorNew ''no type'')
      else if es_Data ev = [] then Some (ErrorNew ''no data'')
      else None)"

definition uniqueViolation :: string where
  "uniqueViolation = ''23505''"

section \<open>Append\<close>

type_synonym columns = "(string \<times> string \<times> gomap) list"

text \<open>The loop that fills the three arrays, stopping at the first event that does not validate.\<close>

fun append_columns :: "nat \<Rightarrow> Event list \<Rightarrow> error + columns" where
  "append_columns i [] = Inr []"
| "append_columns i (ev # evs) =
     (case validate ev of
        Some err \<Rightarrow>
          Inl (Errorf (''eventstore: event '' @ itoa (int i) @ '' ('' @ quote (es_Type ev) @ ''): '')
                 err [])
      | None \<Rightarrow>
          (case append_columns (Suc i) evs of
             Inl err \<Rightarrow> Inl err
           | Inr cs \<Rightarrow> Inr ((es_Type ev, es_Data ev, Meta_marshal (es_Meta ev)) # cs)))"

text \<open>The cast of the data array to \<^verbatim>\<open>jsonb[]\<close>.\<close>

fun jsonb_columns :: "env \<Rightarrow> columns \<Rightarrow> columns option" where
  "jsonb_columns e [] = Some []"
| "jsonb_columns e ((ty, d, m) # cs) =
     (case (jsonb_text e d, jsonb_columns e cs) of
        (Some d', Some cs') \<Rightarrow> Some ((ty, d', m) # cs')
      | _ \<Rightarrow> None)"

text \<open>\<^verbatim>\<open>SELECT $1, $2 + t.ord, ... WITH ORDINALITY\<close>: the rows, numbered from the expected version.\<close>

fun append_rows :: "env \<Rightarrow> string \<Rightarrow> int \<Rightarrow> int \<Rightarrow> columns \<Rightarrow> event_row list" where
  "append_rows e s v g [] = []"
| "append_rows e s v g ((ty, d, m) # cs) =
     \<lparr>ev_global_seq = g + 1, ev_stream_id = s, ev_version = v + 1, ev_type = ty, ev_data = d,
      ev_meta = m, ev_recorded_at = now e\<rparr> # append_rows e s (v + 1) (g + 1) cs"

definition event_key :: "event_row \<Rightarrow> string \<times> int" where
  "event_key r = (ev_stream_id r, ev_version r)"

definition int4_ok :: "int \<Rightarrow> bool" where
  "int4_ok i \<longleftrightarrow> - 2147483648 \<le> i \<and> i \<le> 2147483647"

definition appendSQL :: "env \<Rightarrow> string \<Rightarrow> int \<Rightarrow> columns \<Rightarrow> unit stmt" where
  "appendSQL e s v cs T sq =
     (case jsonb_columns e cs of
        None \<Rightarrow> (Inl (PgError ''22P02'' ''ERROR: invalid input syntax for type json''), sq)
      | Some cs' \<Rightarrow>
          (let rows = append_rows e s v (events_seq sq) cs';
               sq' = sq\<lparr>events_seq := events_seq sq + int (length cs')\<rparr>
           in if \<not> list_all (\<lambda>r. int4_ok (ev_version r)) rows then
                (Inl (PgError ''22003'' ''ERROR: integer out of range''), sq')
              else if list_ex (\<lambda>r. list_ex (\<lambda>r'. event_key r' = event_key r) (events T)) rows then
                (Inl (PgError uniqueViolation
                   ''ERROR: duplicate key value violates unique constraint''), sq')
              else (Inr ((), T\<lparr>events := events T @ rows\<rparr>), sq')))"

definition append_error :: "string \<Rightarrow> int \<Rightarrow> error \<Rightarrow> error" where
  "append_error s v err =
     (if errors_As_PgError err = Some uniqueViolation then ErrVersionConflict
      else Errorf (''eventstore: append to '' @ s @ '' at '' @ itoa v @ '': '') err [])"

definition Append :: "env \<Rightarrow> string \<Rightarrow> int \<Rightarrow> Event list \<Rightarrow> tx \<Rightarrow> (error + unit) \<times> tx" where
  "Append e streamID expectedVersion evts =
     (if evts = [] then retE ()
      else
        (case append_columns 0 evts of
           Inl err \<Rightarrow> failE err
         | Inr cs \<Rightarrow>
             wrapE (append_error streamID expectedVersion)
               (exec e (appendSQL e streamID expectedVersion cs))))"

section \<open>Load and Streams\<close>

definition stream_rows :: "tables \<Rightarrow> string \<Rightarrow> event_row list" where
  "stream_rows T s = filter (\<lambda>r. ev_stream_id r = s) (events T)"

definition loadSQL :: "string \<Rightarrow> tables \<Rightarrow> event_row list" where
  "loadSQL s T = sort_key ev_version (stream_rows T s)"

definition recorded :: "string \<Rightarrow> event_row \<Rightarrow> Recorded" where
  "recorded s r =
     \<lparr>rec_Event = \<lparr>es_Type = ev_type r, es_Data = ev_data r, es_Meta = Meta_unmarshal (ev_meta r)\<rparr>,
      rec_StreamID = s, rec_Version = ev_version r, rec_GlobalSeq = ev_global_seq r,
      rec_RecordedAt = ev_recorded_at r\<rparr>"

definition Load :: "env \<Rightarrow> string \<Rightarrow> tx \<Rightarrow> (error + Recorded list) \<times> tx" where
  "Load e streamID =
     wrapE (\<lambda>err. Errorf (''eventstore: load '' @ streamID @ '': '') err [])
       (exec e (select_stmt (\<lambda>T. map (recorded streamID) (loadSQL streamID T))))"

definition streamsSQL :: "env \<Rightarrow> tables \<Rightarrow> string list" where
  "streamsSQL e T = text_order e (remdups (map ev_stream_id (events T)))"

definition Streams :: "env \<Rightarrow> tx \<Rightarrow> (error + string list) \<times> tx" where
  "Streams e =
     wrapE (\<lambda>err. Errorf ''eventstore: list streams: '' err [])
       (exec e (select_stmt (streamsSQL e)))"

section \<open>The log\<close>

text \<open>
  A log in good order: every stream's rows are numbered 1, 2, 3, \<dots> in the order they were
  inserted. That the versions leave no gap is what lets a writer use the number of events it
  folded as the expected version.
\<close>

definition versions_ok :: "tables \<Rightarrow> string \<Rightarrow> bool" where
  "versions_ok T s \<longleftrightarrow>
     map ev_version (stream_rows T s) = numbered 0 (length (stream_rows T s))"

definition log_ok :: "tables \<Rightarrow> bool" where
  "log_ok T \<longleftrightarrow> list_all (versions_ok T) (map ev_stream_id (events T))"

lemma stream_rows_absent: "s \<notin> ev_stream_id ` set (events T) \<Longrightarrow> stream_rows T s = []"
  by (auto simp: stream_rows_def filter_empty_conv)

lemma log_ok_iff: "log_ok T \<longleftrightarrow> (\<forall>s. versions_ok T s)"
proof
  assume ok: "log_ok T"
  show "\<forall>s. versions_ok T s"
  proof
    fix s
    show "versions_ok T s"
      using ok stream_rows_absent [of s T]
      by (cases "s \<in> ev_stream_id ` set (events T)")
        (auto simp: log_ok_def list_all_iff versions_ok_def)
  qed
qed (simp add: log_ok_def list_all_iff)

lemma log_okD: "log_ok T \<Longrightarrow>
    map ev_version (stream_rows T s) = numbered 0 (length (stream_rows T s))"
  by (simp add: log_ok_iff versions_ok_def)

lemma loadSQL_log_ok:
  assumes "log_ok T"
  shows "loadSQL s T = stream_rows T s"
proof -
  have "sorted (map ev_version (stream_rows T s))"
    by (simp add: log_okD [OF assms] sorted_numbered)
  then show ?thesis by (simp add: loadSQL_def sort_key_sorted)
qed

lemma version_taken_iff:
  assumes "log_ok T"
  shows "(\<exists>r \<in> set (events T). event_key r = (s, v)) \<longleftrightarrow>
    1 \<le> v \<and> v \<le> int (length (stream_rows T s))"
proof -
  have "(\<exists>r \<in> set (events T). event_key r = (s, v)) \<longleftrightarrow>
      v \<in> set (map ev_version (stream_rows T s))"
    by (auto simp: event_key_def stream_rows_def)
  then show ?thesis by (simp only: log_okD [OF assms] set_numbered) auto
qed

section \<open>What a successful append writes\<close>

lemma length_append_rows [simp]: "length (append_rows e s v g cs) = length cs"
  by (induction cs arbitrary: v g) auto

lemma append_rows_versions: "map ev_version (append_rows e s v g cs) = numbered v (length cs)"
  by (induction cs arbitrary: v g) auto

lemma append_rows_stream: "r \<in> set (append_rows e s v g cs) \<Longrightarrow> ev_stream_id r = s"
  by (induction cs arbitrary: v g) auto

lemma append_rows_columns:
  "map (\<lambda>r. (ev_type r, ev_data r, ev_meta r)) (append_rows e s v g cs) = cs"
  by (induction cs arbitrary: v g) auto

lemma filter_append_rows:
  "filter (\<lambda>r. ev_stream_id r = s') (append_rows e s v g cs) =
     (if s' = s then append_rows e s v g cs else [])"
  using append_rows_stream by (auto simp: filter_id_conv filter_empty_conv)

lemma append_rows_seq: "map ev_global_seq (append_rows e s v g cs) = numbered g (length cs)"
  by (induction cs arbitrary: v g) auto

lemma append_rows_keys: "map event_key (append_rows e s v g cs) = map (Pair s) (numbered v (length cs))"
  by (induction cs arbitrary: v g) (auto simp: event_key_def)

lemma jsonb_columns_length: "jsonb_columns e cs = Some cs' \<Longrightarrow> length cs' = length cs"
  by (induction cs arbitrary: cs') (auto split: option.splits)

lemma append_columns_length: "append_columns i evs = Inr cs \<Longrightarrow> length cs = length evs"
  by (induction evs arbitrary: i cs) (auto split: option.splits sum.splits)

lemma append_columns_types:
  "append_columns i evs = Inr cs \<Longrightarrow> jsonb_columns e cs = Some cs' \<Longrightarrow> list_all (\<lambda>c. fst c \<noteq> []) cs'"
  by (induction evs arbitrary: i cs cs') (auto simp: validate_def split: option.splits sum.splits if_splits)

text \<open>The columns a list of events is written as, for events that validate.\<close>

lemma append_columns_ok:
  "\<forall>ev \<in> set evs. es_Type ev \<noteq> [] \<and> es_Data ev \<noteq> [] \<Longrightarrow>
   append_columns i evs =
     Inr (map (\<lambda>ev. (es_Type ev, es_Data ev, Meta_marshal (es_Meta ev))) evs)"
  by (induction evs arbitrary: i) (auto simp: validate_def)

lemma appendSQL_okD:
  assumes "appendSQL e s v cs T sq = (Inr (x, T'), sq')"
  obtains cs' where "jsonb_columns e cs = Some cs'"
    and "T' = T\<lparr>events := events T @ append_rows e s v (events_seq sq) cs'\<rparr>"
    and "\<And>r r'. r \<in> set (events T) \<Longrightarrow> r' \<in> set (append_rows e s v (events_seq sq) cs') \<Longrightarrow>
           event_key r \<noteq> event_key r'"
  using assms
  by (auto simp: appendSQL_def Let_def list_ex_iff split: option.splits if_splits)

lemma stream_rows_append:
  "stream_rows (T\<lparr>events := events T @ append_rows e s v g cs\<rparr>) s' =
     stream_rows T s' @ (if s' = s then append_rows e s v g cs else [])"
  by (simp add: stream_rows_def filter_append_rows)

lemma log_ok_append:
  assumes "log_ok T" and "v = int (length (stream_rows T s))"
  shows "log_ok (T\<lparr>events := events T @ append_rows e s v g cs\<rparr>)"
proof -
  have "versions_ok (T\<lparr>events := events T @ append_rows e s v g cs\<rparr>) s'" for s'
  proof (cases "s' = s")
    case True
    then show ?thesis
      using log_okD [OF assms(1), of s] assms(2)
      by (simp add: versions_ok_def stream_rows_append append_rows_versions numbered_append)
  next
    case False
    then show ?thesis
      using log_okD [OF assms(1), of s'] by (simp add: versions_ok_def stream_rows_append)
  qed
  then show ?thesis by (simp add: log_ok_iff)
qed


section \<open>Append and Load as operations of a quiet database\<close>

lemma draws_appendSQL [frame_intros]: "draws (appendSQL e s v cs)"
  by (auto simp: draws_def appendSQL_def seqs_le_def Let_def split: option.split)

lemma keeps_base_Append [frame_intros]: "keeps (base_frame e) (Append e s v evs)"
  unfolding Append_def by (auto intro!: frame_intros split: sum.split)

lemma keeps_base_Load [frame_intros]: "keeps (base_frame e) (Load e s)"
  unfolding Load_def by (auto intro!: frame_intros)

lemma keeps_base_Streams [frame_intros]: "keeps (base_frame e) (Streams e)"
  unfolding Streams_def by (auto intro!: frame_intros)

lemma Meta_roundtrip [simp]: "Meta_unmarshal (Meta_marshal m) = m"
  by (cases m) (simp add: Meta_unmarshal_def Meta_marshal_def)

lemma append_rows_quieten [simp]: "append_rows (quieten e) s v g cs = append_rows e s v g cs"
  by (induction cs arbitrary: v g) auto

lemma jsonb_columns_quieten [simp]: "jsonb_columns (quieten e) cs = jsonb_columns e cs"
  by (induction cs) auto

lemma appendSQL_quieten [simp]: "appendSQL (quieten e) = appendSQL e"
  by (simp add: appendSQL_def fun_eq_iff split: option.split)

lemma alone_Append [alone_intros]:
  "alone e \<Longrightarrow> succeeds_as (Append e s v evs) (Append (quieten e) s v evs)"
  by (auto simp: Append_def split: sum.split intro!: alone_intros)

lemma alone_Load [alone_intros]: "alone e \<Longrightarrow> succeeds_as (Load e s) (Load (quieten e) s)"
  by (auto simp: Load_def intro!: alone_intros)

text \<open>What the events table can take, and the form it gives back.\<close>

definition storable :: "env \<Rightarrow> nat \<Rightarrow> Event list \<Rightarrow> bool" where
  "storable e n evs \<longleftrightarrow>
     list_all (\<lambda>ev. es_Type ev \<noteq> [] \<and> es_Data ev \<noteq> [] \<and> jsonb_text e (es_Data ev) \<noteq> None) evs \<and>
     int n + int (length evs) \<le> 2147483647"

definition stored_form :: "env \<Rightarrow> Event \<Rightarrow> Event" where
  "stored_form e ev =
     ev\<lparr>es_Data := (case jsonb_text e (es_Data ev) of Some d \<Rightarrow> d | None \<Rightarrow> es_Data ev)\<rparr>"

definition event_columns :: "env \<Rightarrow> Event list \<Rightarrow> columns" where
  "event_columns e evs =
     map (\<lambda>ev. (es_Type ev, es_Data (stored_form e ev), Meta_marshal (es_Meta ev))) evs"

lemma storable_columns:
  assumes "storable e n evs"
  shows "append_columns i evs =
      Inr (map (\<lambda>ev. (es_Type ev, es_Data ev, Meta_marshal (es_Meta ev))) evs)"
    and "jsonb_columns e (map (\<lambda>ev. (es_Type ev, es_Data ev, Meta_marshal (es_Meta ev))) evs) =
      Some (event_columns e evs)"
proof -
  have ok: "\<forall>ev \<in> set evs. es_Type ev \<noteq> [] \<and> es_Data ev \<noteq> [] \<and> jsonb_text e (es_Data ev) \<noteq> None"
    using assms by (simp add: storable_def list_all_iff)
  then show "append_columns i evs =
      Inr (map (\<lambda>ev. (es_Type ev, es_Data ev, Meta_marshal (es_Meta ev))) evs)"
    by (simp add: append_columns_ok)
  show "jsonb_columns e (map (\<lambda>ev. (es_Type ev, es_Data ev, Meta_marshal (es_Meta ev))) evs) =
      Some (event_columns e evs)"
    using ok by (induction evs) (auto simp: event_columns_def stored_form_def)
qed

lemma append_rows_int4:
  assumes "0 \<le> v" and "v + int (length cs) \<le> 2147483647"
  shows "list_all (\<lambda>r. int4_ok (ev_version r)) (append_rows e s v g cs)"
  using assms by (induction cs arbitrary: v g) (auto simp: int4_ok_def)

lemma append_clash_iff:
  assumes "log_ok T" and "0 \<le> v" and "cs \<noteq> []"
  shows "list_ex (\<lambda>r. list_ex (\<lambda>r'. event_key r' = event_key r) (events T))
      (append_rows e s v g cs) \<longleftrightarrow> v < int (length (stream_rows T s))"
    (is "?clash \<longleftrightarrow> ?stale")
proof -
  have keys: "event_key ` set (append_rows e s v g cs) = Pair s ` {v + 1..v + int (length cs)}"
  proof -
    have "event_key ` set (append_rows e s v g cs) = Pair s ` ev_version ` set (append_rows e s v g cs)"
      using append_rows_stream by (fastforce simp: event_key_def image_iff)
    also have "ev_version ` set (append_rows e s v g cs) = {v + 1..v + int (length cs)}"
      using append_rows_versions [of e s v g cs] set_numbered by (metis list.set_map)
    finally show ?thesis .
  qed
  have "?clash \<longleftrightarrow> (\<exists>k \<in> event_key ` set (append_rows e s v g cs). \<exists>r' \<in> set (events T). event_key r' = k)"
    by (auto simp: list_ex_iff)
  also have "\<dots> \<longleftrightarrow> (\<exists>i \<in> {v + 1..v + int (length cs)}. 1 \<le> i \<and> i \<le> int (length (stream_rows T s)))"
    by (simp add: keys version_taken_iff [OF assms(1)])
  also have "\<dots> \<longleftrightarrow> ?stale"
    using assms(2,3) by (auto intro!: bexI [of _ "v + 1"] simp: Suc_le_eq)
  finally show ?thesis .
qed

lemma quiet_Append_ok:
  assumes "quiet e" "\<not> aborted t" "log_ok (view t)" "storable e n evs"
    and "n = length (stream_rows (view t) s)"
  shows "Append e s (int n) evs t =
    (if evs = [] then (Inr (), t)
     else (Inr (), t\<lparr>stmts := Suc (stmts t),
       view := (view t)\<lparr>events := events (view t) @
         append_rows e s (int n) (events_seq (seqs t)) (event_columns e evs)\<rparr>,
       seqs := (seqs t)\<lparr>events_seq := events_seq (seqs t) + int (length evs)\<rparr>\<rparr>))"
proof (cases "evs = []")
  case True
  then show ?thesis by (simp add: Append_def retE_def)
next
  case False
  have len: "length (event_columns e evs) = length evs" by (simp add: event_columns_def)
  then have ne: "event_columns e evs \<noteq> []" using False by (metis length_0_conv)
  have "int n + int (length evs) \<le> 2147483647" using assms(4) by (simp add: storable_def)
  then have "list_all (\<lambda>r. int4_ok (ev_version r))
      (append_rows e s (int n) (events_seq (seqs t)) (event_columns e evs))"
    using len by (intro append_rows_int4) simp_all
  moreover have "\<not> list_ex (\<lambda>r. list_ex (\<lambda>r'. event_key r' = event_key r) (events (view t)))
      (append_rows e s (int n) (events_seq (seqs t)) (event_columns e evs))"
    using append_clash_iff [OF assms(3) _ ne] assms(5) by simp
  ultimately show ?thesis
    using False assms(1,2) len storable_columns [OF assms(4)]
    by (simp add: Append_def wrapE_def quiet_exec appendSQL_def Let_def)
qed

lemma quiet_Append_stale:
  assumes "quiet e" "\<not> aborted t" "log_ok (view t)" "storable e n evs" "evs \<noteq> []"
    and "n < length (stream_rows (view t) s)"
  shows "Append e s (int n) evs t =
    (Inl ErrVersionConflict, t\<lparr>stmts := Suc (stmts t), aborted := True,
       seqs := (seqs t)\<lparr>events_seq := events_seq (seqs t) + int (length evs)\<rparr>\<rparr>)"
proof -
  have len: "length (event_columns e evs) = length evs" by (simp add: event_columns_def)
  then have ne: "event_columns e evs \<noteq> []" using assms(5) by (metis length_0_conv)
  have "int n + int (length evs) \<le> 2147483647" using assms(4) by (simp add: storable_def)
  then have "list_all (\<lambda>r. int4_ok (ev_version r))
      (append_rows e s (int n) (events_seq (seqs t)) (event_columns e evs))"
    using len by (intro append_rows_int4) simp_all
  moreover have "list_ex (\<lambda>r. list_ex (\<lambda>r'. event_key r' = event_key r) (events (view t)))
      (append_rows e s (int n) (events_seq (seqs t)) (event_columns e evs))"
    using append_clash_iff [OF assms(3) _ ne] assms(6) by simp
  ultimately show ?thesis
    using assms(1,2,5) len storable_columns [OF assms(4)]
    by (simp add: Append_def wrapE_def quiet_exec appendSQL_def Let_def append_error_def)
qed

lemma quiet_Load:
  assumes "quiet e" "\<not> aborted t"
  shows "Load e s t =
    (Inr (map (recorded s) (loadSQL s (view t))), t\<lparr>stmts := Suc (stmts t)\<rparr>)"
  using assms by (simp add: Load_def wrapE_def quiet_exec_select)


section \<open>The interface its clients rely on\<close>

text \<open>
  An optimistically locked log: appending at the length one has read succeeds and is read back,
  appending at an older length is a version conflict, and streams do not disturb each other.
\<close>

locale event_log =
  fixes stored :: "'db \<Rightarrow> 'id \<Rightarrow> 'ev list"
    and append :: "'id \<Rightarrow> nat \<Rightarrow> 'ev list \<Rightarrow> 'db \<Rightarrow> error + 'db"
    and good :: "'db \<Rightarrow> bool"
    and fits :: "nat \<Rightarrow> 'ev list \<Rightarrow> bool"
    and norm :: "'ev \<Rightarrow> 'ev"
  assumes append_current: "good d \<Longrightarrow> fits n evs \<Longrightarrow> n = length (stored d s) \<Longrightarrow>
      \<exists>d'. append s n evs d = Inr d' \<and> good d' \<and>
        (\<forall>s'. stored d' s' = (if s' = s then stored d s @ map norm evs else stored d s'))"
    and append_stale: "good d \<Longrightarrow> fits n evs \<Longrightarrow> evs \<noteq> [] \<Longrightarrow> n < length (stored d s) \<Longrightarrow>
      append s n evs d = Inl ErrVersionConflict"
begin

lemma one_winner:
  assumes "good d" "fits n evs" "fits n evs'" "evs \<noteq> []" "evs' \<noteq> []" "n = length (stored d s)"
  shows "\<exists>d'. append s n evs d = Inr d' \<and> stored d' s = stored d s @ map norm evs \<and>
    append s n evs' d' = Inl ErrVersionConflict"
proof -
  obtain d' where d': "append s n evs d = Inr d'" "good d'"
      "stored d' s = stored d s @ map norm evs"
    using append_current [OF assms(1,2,6)] by auto
  moreover have "n < length (stored d' s)" using d'(3) assms(4,6) by simp
  ultimately show ?thesis using append_stale [OF d'(2) assms(3,5)] by blast
qed

lemma streams_independent:
  assumes "good d" "fits n evs" "fits n' evs'" "s \<noteq> s'"
    and "n = length (stored d s)" "n' = length (stored d s')"
  shows "\<exists>d1 d2. append s n evs d = Inr d1 \<and> append s' n' evs' d1 = Inr d2 \<and>
    stored d2 s = stored d s @ map norm evs \<and> stored d2 s' = stored d s' @ map norm evs'"
proof -
  obtain d1 where d1: "append s n evs d = Inr d1" "good d1"
      "stored d1 s = stored d s @ map norm evs" "stored d1 s' = stored d s'"
    using append_current [OF assms(1,2,5)] assms(4) by auto
  moreover obtain d2 where "append s' n' evs' d1 = Inr d2"
      "stored d2 s' = stored d1 s' @ map norm evs'" "stored d2 s = stored d1 s"
    using append_current [OF d1(2) assms(3), of s'] assms(4,6) d1(4) by auto
  ultimately show ?thesis by auto
qed

end

definition append_db :: "env \<Rightarrow> string \<Rightarrow> nat \<Rightarrow> Event list \<Rightarrow> database \<Rightarrow> error + database" where
  "append_db e s n evs db =
     (case Append (quieten e) s (int n) evs (begin_tx db) of
        (Inl err, _) \<Rightarrow> Inl err
      | (Inr _, t) \<Rightarrow> Inr (db\<lparr>tbl := view t, sqs := seqs t\<rparr>))"

definition stored_events :: "env \<Rightarrow> database \<Rightarrow> string \<Rightarrow> Event list" where
  "stored_events e db s =
     (case fst (Load (quieten e) s (begin_tx db)) of Inl _ \<Rightarrow> [] | Inr rs \<Rightarrow> map rec_Event rs)"

lemma stored_events_log_ok:
  "log_ok (tbl db) \<Longrightarrow>
   stored_events e db s = map (rec_Event \<circ> recorded s) (stream_rows (tbl db) s)"
  by (simp add: stored_events_def quiet_Load loadSQL_log_ok)

lemma recorded_columns:
  "map (rec_Event \<circ> recorded s) rows =
   map (\<lambda>(ty, d, m). \<lparr>es_Type = ty, es_Data = d, es_Meta = Meta_unmarshal m\<rparr>)
     (map (\<lambda>r. (ev_type r, ev_data r, ev_meta r)) rows)"
  by (induction rows) (auto simp: recorded_def)

lemma recorded_appended:
  "map (rec_Event \<circ> recorded s) (append_rows e s v g (event_columns e evs)) =
   map (stored_form e) evs"
proof -
  have "map (rec_Event \<circ> recorded s) (append_rows e s v g (event_columns e evs)) =
    map (\<lambda>(ty, d, m). \<lparr>es_Type = ty, es_Data = d, es_Meta = Meta_unmarshal m\<rparr>) (event_columns e evs)"
    by (subst recorded_columns) (simp only: append_rows_columns)
  also have "\<dots> = map (stored_form e) evs"
    by (induction evs) (auto simp: event_columns_def stored_form_def)
  finally show ?thesis .
qed

lemma storable_quieten [simp]: "storable (quieten e) = storable e"
  by (simp add: storable_def fun_eq_iff)

lemma stored_form_quieten [simp]: "stored_form (quieten e) = stored_form e"
  by (simp add: stored_form_def fun_eq_iff)

interpretation log: event_log "stored_events e" "append_db e" "\<lambda>db. log_ok (tbl db)"
  "storable e" "stored_form e" for e
proof
  fix db n evs s
  assume ok: "log_ok (tbl db)" and st: "storable e n evs" and n: "n = length (stored_events e db s)"
  have n': "n = length (stream_rows (tbl db) s)" using n ok by (simp add: stored_events_log_ok)
  then obtain t where run: "Append (quieten e) s (int n) evs (begin_tx db) = (Inr (), t)"
    and view: "view t = (tbl db)\<lparr>events := events (tbl db) @
        append_rows (quieten e) s (int n) (events_seq (sqs db)) (event_columns (quieten e) evs)\<rparr>"
    using quiet_Append_ok [of "quieten e" "begin_tx db" n evs s] ok st
    by (cases "evs = []") (simp_all add: event_columns_def)
  let ?db = "db\<lparr>tbl := view t, sqs := seqs t\<rparr>"
  have ok': "log_ok (view t)"
    unfolding view using ok n' by (intro log_ok_append) simp_all
  then have "log_ok (tbl ?db)" by simp
  moreover have "stored_events e ?db s' =
      (if s' = s then stored_events e db s @ map (stored_form e) evs else stored_events e db s')" for s'
    using ok ok' recorded_appended [of s "quieten e"]
    by (simp add: stored_events_log_ok view stream_rows_append)
  ultimately show "\<exists>d'. append_db e s n evs db = Inr d' \<and> log_ok (tbl d') \<and>
      (\<forall>s'. stored_events e d' s' =
         (if s' = s then stored_events e db s @ map (stored_form e) evs else stored_events e db s'))"
    using run by (auto simp: append_db_def)
next
  fix db n evs s
  assume "log_ok (tbl db)" "storable e n evs" "evs \<noteq> []" "n < length (stored_events e db s)"
  then show "append_db e s n evs db = Inl ErrVersionConflict"
    using quiet_Append_stale [of "quieten e" "begin_tx db" n evs s]
    by (simp add: append_db_def stored_events_log_ok)
qed

section \<open>Properties\<close>

text \<open>
  C21. Two writers that folded the same stream at the same version: exactly one append succeeds
  and is read back after what was there before, and the other gets \<^verbatim>\<open>ErrVersionConflict\<close>.
\<close>

theorem Append_one_winner:
  assumes "log_ok (tbl db)" and "storable e n evs" and "storable e n evs'"
    and "evs \<noteq> []" and "evs' \<noteq> []" and "n = length (stored_events e db s)"
  shows "\<exists>db'. append_db e s n evs db = Inr db' \<and>
    stored_events e db' s = stored_events e db s @ map (stored_form e) evs \<and>
    append_db e s n evs' db' = Inl ErrVersionConflict"
  using assms by (rule log.one_winner)

definition sample_event :: "string \<Rightarrow> Event" where
  "sample_event d = \<lparr>es_Type = ''T'', es_Data = d, es_Meta = empty_Meta\<rparr>"

lemma log_ok_empty_db [simp]: "log_ok (tbl empty_db)"
  by (simp add: log_ok_def empty_db_def empty_tables_def)

lemma stored_events_empty_db [simp]: "stored_events e empty_db s = []"
  by (simp add: stored_events_log_ok stream_rows_def empty_db_def empty_tables_def log_ok_def)

theorem Append_one_winner_witness:
  "\<exists>db'. append_db calm_env ''14A'' 0 [sample_event ''a''] empty_db = Inr db' \<and>
    stored_events calm_env db' ''14A'' =
      stored_events calm_env empty_db ''14A'' @ map (stored_form calm_env) [sample_event ''a''] \<and>
    append_db calm_env ''14A'' 0 [sample_event ''b''] db' = Inl ErrVersionConflict"
  by (rule Append_one_winner)
    (simp_all add: storable_def sample_event_def calm_env_def)

text \<open>
  Round trip through the log: what \<open>Append\<close> writes at the current version, \<open>Load\<close> reads back
  after the earlier events, in order, with the versions that follow, and with the type, data and
  metadata that were appended (the data in the form \<^verbatim>\<open>JSONB\<close> gives it).
\<close>

theorem Append_Load_roundtrip:
  assumes "quiet e" "\<not> aborted t" "log_ok (view t)" "storable e n evs" "evs \<noteq> []"
    and "n = length (stream_rows (view t) s)"
  shows "\<exists>t' old new. Append e s (int n) evs t = (Inr (), t') \<and>
    fst (Load e s t) = Inr old \<and> fst (Load e s t') = Inr (old @ new) \<and>
    map rec_Event new = map (stored_form e) evs \<and>
    map rec_Version new = numbered (int n) (length evs)"
proof -
  let ?rows = "append_rows e s (int n) (events_seq (seqs t)) (event_columns e evs)"
  have len: "length (event_columns e evs) = length evs" by (simp add: event_columns_def)
  have "map rec_Version (map (recorded s) ?rows) = numbered (int n) (length evs)"
    using append_rows_versions [of e s "int n" "events_seq (seqs t)" "event_columns e evs"] len
    by (simp add: recorded_def comp_def)
  moreover have "map rec_Event (map (recorded s) ?rows) = map (stored_form e) evs"
    using recorded_appended by simp
  ultimately show ?thesis
    using assms quiet_Append_ok [OF assms(1-4,6)]
    by (simp add: quiet_Load loadSQL_log_ok log_ok_append stream_rows_append)
qed

theorem Append_Load_roundtrip_witness:
  "\<exists>t' old new. Append calm_env ''14A'' (int 0) [sample_event ''a''] (begin_tx empty_db) = (Inr (), t') \<and>
    fst (Load calm_env ''14A'' (begin_tx empty_db)) = Inr old \<and>
    fst (Load calm_env ''14A'' t') = Inr (old @ new) \<and>
    map rec_Event new = map (stored_form calm_env) [sample_event ''a''] \<and>
    map rec_Version new = numbered (int 0) (length [sample_event ''a''])"
  by (rule Append_Load_roundtrip)
    (simp_all add: storable_def sample_event_def calm_env_def stream_rows_def empty_db_def
      empty_tables_def quiet_def log_ok_def)

text \<open>
  C22. The version check is exact: on a log in good order, appending at an expected version fails
  with \<^verbatim>\<open>ErrVersionConflict\<close> precisely when the stream has moved past it, and then writes nothing.
\<close>

theorem Append_conflict_iff:
  assumes "quiet e" "\<not> aborted t" "log_ok (view t)" "storable e n evs" "evs \<noteq> []"
    and "n \<le> length (stream_rows (view t) s)"
  shows "(fst (Append e s (int n) evs t) = Inl ErrVersionConflict) =
      (n < length (stream_rows (view t) s)) \<and>
    (fst (Append e s (int n) evs t) = Inl ErrVersionConflict \<longrightarrow>
       view (snd (Append e s (int n) evs t)) = view t)"
proof (cases "n < length (stream_rows (view t) s)")
  case True
  then show ?thesis using quiet_Append_stale [OF assms(1-5)] by simp
next
  case False
  then show ?thesis using quiet_Append_ok [OF assms(1-4)] assms(5,6) by simp
qed

definition sample_tables :: tables where
  "sample_tables = empty_tables\<lparr>events := append_rows calm_env ''14A'' 0 0 [(''T'', ''a'', [])]\<rparr>"

theorem Append_conflict_iff_witness:
  "fst (Append calm_env ''14A'' (int 0) [sample_event ''b''] (begin_tx (empty_db\<lparr>tbl := sample_tables\<rparr>)))
     = Inl ErrVersionConflict \<and>
   view (snd (Append calm_env ''14A'' (int 0) [sample_event ''b''] (begin_tx (empty_db\<lparr>tbl := sample_tables\<rparr>))))
     = sample_tables"
proof -
  have rows: "stream_rows sample_tables ''14A'' = append_rows calm_env ''14A'' 0 0 [(''T'', ''a'', [])]"
    by (simp add: sample_tables_def stream_rows_def)
  then have "log_ok sample_tables"
    by (simp add: log_ok_def versions_ok_def) (simp add: sample_tables_def versions_ok_def)
  then show ?thesis
    using Append_conflict_iff [of calm_env "begin_tx (empty_db\<lparr>tbl := sample_tables\<rparr>)" 0 "[sample_event ''b'']" "''14A''"] rows
    by (simp add: storable_def sample_event_def calm_env_def quiet_def)
qed

text \<open>
  \<open>Streams\<close> names every stream of the log exactly once, and nothing else, whatever the
  collation; a rebuild that folds each of them misses none.
\<close>

theorem Streams_complete:
  assumes "quiet e" "\<not> aborted t" and "\<forall>xs. mset (text_order e xs) = mset xs"
  shows "\<exists>ids. fst (Streams e t) = Inr ids \<and> distinct ids \<and>
    set ids = {s. stream_rows (view t) s \<noteq> []}"
proof -
  let ?ids = "streamsSQL e (view t)"
  have m: "mset ?ids = mset (remdups (map ev_stream_id (events (view t))))"
    using assms(3) by (simp add: streamsSQL_def)
  then have "distinct ?ids"
    by (metis distinct_remdups mset_eq_imp_distinct_iff)
  moreover have "set ?ids = {s. stream_rows (view t) s \<noteq> []}"
    using mset_eq_setD [OF m] by (auto simp: stream_rows_def filter_empty_conv)
  ultimately show ?thesis
    using assms(1,2) by (simp add: Streams_def wrapE_def quiet_exec_select)
qed

theorem Streams_complete_witness:
  "\<exists>ids. fst (Streams calm_env (begin_tx empty_db)) = Inr ids \<and> distinct ids \<and>
    set ids = {s. stream_rows (view (begin_tx empty_db)) s \<noteq> []}"
  by (rule Streams_complete) (simp_all add: calm_env_def quiet_def)

end
