(* ===== verification/Codec.thy ===== *)
theory Codec
  imports Contracts EventStore
begin

text \<open>
  \<^verbatim>\<open>internal/platform/codec\<close>: a message to and from the row the event store keeps.

  What the program takes from google.golang.org/protobuf is the parameter \<open>protolib\<close>: the
  conversions of \<^verbatim>\<open>timestamppb\<close>, the lookup in the global type registry, and \<^verbatim>\<open>protojson\<close> under
  the options the package sets (proto field names out, unknown fields refused in).
  \<open>codec_ok\<close> is the documented law the program relies on: a seat event's JSON is not empty, its
  type is linked into the binary, and the JSON (as \<^verbatim>\<open>JSONB\<close> gives it back) decodes to the message
  it was made from.
\<close>

record protolib =
  AsTime :: "timestamp option \<Rightarrow> time"
  TimestampNew :: "time \<Rightarrow> timestamp"
  FindMessageByName :: "string \<Rightarrow> bool"
  MarshalJSON :: "message \<Rightarrow> error + bytes"
  UnmarshalJSON :: "string \<Rightarrow> bytes \<Rightarrow> error + message"

definition TypeName :: "message \<Rightarrow> string" where
  "TypeName m = FullName m"

definition Encode :: "protolib \<Rightarrow> message option \<Rightarrow> Meta \<Rightarrow> error + Event" where
  "Encode L m meta =
     (case m of
        None \<Rightarrow> Inl (ErrorNew ''codec: nil message'')
      | Some msg \<Rightarrow>
          (case MarshalJSON L msg of
             Inl err \<Rightarrow> Inl (Errorf (''codec: marshal '' @ TypeName msg @ '': '') err [])
           | Inr b \<Rightarrow> Inr \<lparr>es_Type = TypeName msg, es_Data = b, es_Meta = meta\<rparr>))"

definition Decode :: "protolib \<Rightarrow> Event \<Rightarrow> error + message" where
  "Decode L ev =
     (if \<not> FindMessageByName L (es_Type ev) then
        Inl (Errorf [] ErrUnknownType ('': '' @ es_Type ev))
      else
        (case UnmarshalJSON L (es_Type ev) (es_Data ev) of
           Inl err \<Rightarrow> Inl (Errorf (''codec: unmarshal '' @ es_Type ev @ '': '') err [])
         | Inr msg \<Rightarrow> Inr msg))"

definition codec_ok :: "protolib \<Rightarrow> env \<Rightarrow> bool" where
  "codec_ok L e \<longleftrightarrow>
     (\<forall>m b. is_seat_event m \<longrightarrow> MarshalJSON L m = Inr b \<longrightarrow>
        b \<noteq> [] \<and> FindMessageByName L (FullName m) \<and>
        (\<forall>b'. jsonb_text e b = Some b' \<longrightarrow> UnmarshalJSON L (FullName m) b' = Inr m))"

lemma Encode_storable:
  assumes "codec_ok L e" "is_seat_event m" "Encode L (Some m) meta = Inr ev"
  shows "es_Type ev = FullName m" "es_Type ev \<noteq> []" "es_Data ev \<noteq> []" "es_Meta ev = meta"
  using assms FullName_seat_event_nonempty
  by (auto simp: Encode_def codec_ok_def TypeName_def split: sum.splits)

lemma Decode_stored:
  assumes "codec_ok L e" "is_seat_event m" "Encode L (Some m) meta = Inr ev"
    and "jsonb_text e (es_Data ev) = Some d"
  shows "Decode L (ev\<lparr>es_Data := d\<rparr>) = Inr m"
  using assms by (auto simp: Encode_def Decode_def codec_ok_def TypeName_def split: sum.splits)

text \<open>
  One schema, two directions: a seat event encoded for the log and read back in the form the
  JSONB column gives it decodes to the same message, with the metadata it was stored under; an
  event whose type the binary does not link fails with \<^verbatim>\<open>ErrUnknownType\<close>.
\<close>

theorem codec_roundtrip:
  assumes "codec_ok L e" and "is_seat_event m" and "Encode L (Some m) meta = Inr ev"
    and "jsonb_text e (es_Data ev) = Some d"
  shows "Decode L (stored_form e ev) = Inr m \<and> es_Meta (stored_form e ev) = meta \<and>
    es_Type (stored_form e ev) = FullName m \<and>
    (\<forall>ev'. \<not> FindMessageByName L (es_Type ev') \<longrightarrow>
       (\<exists>err. Decode L ev' = Inl err \<and> errors_Is err ErrUnknownType))"
  using assms(4) Decode_stored [OF assms] Encode_storable [OF assms(1-3)]
  by (simp add: stored_form_def Decode_def)

section \<open>A library for the witnesses\<close>

text \<open>
  A protobuf library that can only marshal the messages of a given table, each to its own text.
\<close>

definition table_lib :: "(message \<times> bytes) list \<Rightarrow> protolib" where
  "table_lib tab =
     \<lparr>AsTime = (\<lambda>ts. case ts of None \<Rightarrow> 0 | Some t \<Rightarrow> ts_seconds t),
      TimestampNew = (\<lambda>t. Timestamp t 0),
      FindMessageByName = (\<lambda>n. n \<in> set (map (FullName \<circ> fst) tab)),
      MarshalJSON = (\<lambda>m. case map_of tab m of
          None \<Rightarrow> Inl (ErrorNew ''not in the table'') | Some b \<Rightarrow> Inr b),
      UnmarshalJSON = (\<lambda>n b. case map_of (map (\<lambda>(m, b). ((FullName m, b), m)) tab) (n, b) of
          None \<Rightarrow> Inl (ErrorNew ''not in the table'') | Some m \<Rightarrow> Inr m)\<rparr>"

definition demo_held :: "string \<Rightarrow> message" where
  "demo_held h =
     SeatHeldMsg \<lparr>sh_HoldId = h, sh_BookingId = ''b'', sh_SeatId = ''14A'',
       sh_ExpiresAt = Some (Timestamp 900 0)\<rparr>"

definition demo_released :: "string \<Rightarrow> message" where
  "demo_released h =
     SeatHoldReleasedMsg \<lparr>sr_HoldId = h, sr_BookingId = ''b'', sr_SeatId = ''14A'',
       sr_Reason = ''r''\<rparr>"

definition demo_expired :: "string \<Rightarrow> message" where
  "demo_expired h =
     SeatHoldExpiredMsg \<lparr>se_HoldId = h, se_BookingId = ''b'', se_SeatId = ''14A''\<rparr>"

lemmas demo_messages = demo_held_def demo_released_def demo_expired_def

definition demo_lib :: protolib where
  "demo_lib = table_lib
     [(demo_held ''h1'', ''1''), (demo_held ''h2'', ''2''), (demo_released ''h1'', ''3''),
      (demo_expired ''h1'', ''4'')]"

lemma codec_ok_demo: "codec_ok demo_lib calm_env"
  by (auto simp: codec_ok_def demo_lib_def table_lib_def calm_env_def demo_messages split: if_splits)

theorem codec_roundtrip_witness:
  "Decode demo_lib (stored_form calm_env \<lparr>es_Type = FullName (demo_held ''h1''), es_Data = ''1'',
     es_Meta = empty_Meta\<rparr>) = Inr (demo_held ''h1'')"
proof -
  let ?ev = "\<lparr>es_Type = FullName (demo_held ''h1''), es_Data = ''1'', es_Meta = empty_Meta\<rparr>"
  have "Encode demo_lib (Some (demo_held ''h1'')) empty_Meta = Inr ?ev"
    by (simp add: Encode_def demo_lib_def table_lib_def TypeName_def)
  moreover have "is_seat_event (demo_held ''h1'')" by (simp add: demo_held_def)
  moreover have "jsonb_text calm_env (es_Data ?ev) = Some ''1''" by (simp add: calm_env_def)
  ultimately show ?thesis using codec_roundtrip [OF codec_ok_demo] by blast
qed

end
