(* ===== verification/Seat.thy ===== *)
theory Seat
  imports Codec
begin

text \<open>
  \<^verbatim>\<open>internal/inventory/seat.go\<close>: the folded state of one seat stream and the pure decisions taken
  from it. There is no database here and no clock; the timestamp conversions are the only
  parameter (\<open>protolib\<close>).

  The abstract specification is \<open>live_after\<close>: a seat's history read as a machine with at most one
  live hold. \<open>valid_history\<close> are the histories that machine accepts. The fold refines it, and every
  decision keeps it.
\<close>

section \<open>Status and state\<close>

type_synonym Status = int

definition StatusFree :: Status where
  "StatusFree = 0"

definition StatusHeld :: Status where
  "StatusHeld = 1"

definition Status_String :: "Status \<Rightarrow> string" where
  "Status_String s =
     (if s = StatusFree then ''free'' else if s = StatusHeld then ''held'' else ''unknown'')"

record SeatState =
  ss_Version :: int
  ss_Status :: Status
  ss_HoldID :: string
  ss_BookingID :: string
  ss_ExpiresAt :: time

definition zero_SeatState :: SeatState where
  "zero_SeatState =
     \<lparr>ss_Version = 0, ss_Status = StatusFree, ss_HoldID = [], ss_BookingID = [], ss_ExpiresAt = 0\<rparr>"

section \<open>Folding\<close>

definition freed :: "SeatState \<Rightarrow> SeatState" where
  "freed s =
     s\<lparr>ss_Status := StatusFree, ss_HoldID := [], ss_BookingID := [], ss_ExpiresAt := 0,
       ss_Version := ss_Version s + 1\<rparr>"

fun Apply :: "protolib \<Rightarrow> SeatState \<Rightarrow> message \<Rightarrow> error + SeatState" where
  "Apply L s (SeatHeldMsg ev) =
     Inr (s\<lparr>ss_Status := StatusHeld, ss_HoldID := sh_HoldId ev, ss_BookingID := sh_BookingId ev,
            ss_ExpiresAt := AsTime L (sh_ExpiresAt ev), ss_Version := ss_Version s + 1\<rparr>)"
| "Apply L s (SeatHoldReleasedMsg ev) = Inr (freed s)"
| "Apply L s (SeatHoldExpiredMsg ev) = Inr (freed s)"
| "Apply L s m = Inl (Errorf [] ErrUnknownEvent ('': '' @ FullName m))"

fun fold_from :: "protolib \<Rightarrow> nat \<Rightarrow> SeatState \<Rightarrow> message list \<Rightarrow> error + SeatState" where
  "fold_from L i s [] = Inr s"
| "fold_from L i s (m # ms) =
     (case Apply L s m of
        Inl err \<Rightarrow> Inl (Errorf (''inventory: fold event '' @ itoa (int i) @ '': '') err [])
      | Inr s' \<Rightarrow> fold_from L (Suc i) s' ms)"

definition Fold :: "protolib \<Rightarrow> message list \<Rightarrow> error + SeatState" where
  "Fold L evts = fold_from L 0 zero_SeatState evts"

section \<open>Decisions\<close>

record SeatTimer =
  st_FireAt :: time
  st_Token :: string

record Outcome =
  out_Events :: "message list"
  out_Replies :: "message list"
  out_Timers :: "SeatTimer list"

definition empty_Outcome :: Outcome where
  "empty_Outcome = \<lparr>out_Events = [], out_Replies = [], out_Timers = []\<rparr>"

definition Messages :: "Outcome \<Rightarrow> message list" where
  "Messages out = out_Events out @ out_Replies out"

definition held :: "protolib \<Rightarrow> SeatState \<Rightarrow> string \<Rightarrow> SeatHeld" where
  "held L s seatID =
     \<lparr>sh_HoldId = ss_HoldID s, sh_BookingId = ss_BookingID s, sh_SeatId = seatID,
      sh_ExpiresAt = Some (TimestampNew L (ss_ExpiresAt s))\<rparr>"

definition Hold :: "protolib \<Rightarrow> SeatState \<Rightarrow> HoldSeat \<Rightarrow> Outcome" where
  "Hold L s cmd =
     (if ss_Status s = StatusHeld \<and> ss_HoldID s = hs_HoldId cmd then
        empty_Outcome\<lparr>out_Replies := [SeatHeldMsg (held L s (hs_SeatId cmd))]\<rparr>
      else if ss_Status s \<noteq> StatusFree then
        empty_Outcome\<lparr>out_Replies :=
          [SeatUnavailableMsg
             \<lparr>su_HoldId = hs_HoldId cmd, su_BookingId = hs_BookingId cmd, su_SeatId = hs_SeatId cmd,
              su_Reason = ''seat is '' @ Status_String (ss_Status s)\<rparr>]\<rparr>
      else
        \<lparr>out_Events =
           [SeatHeldMsg
              \<lparr>sh_HoldId = hs_HoldId cmd, sh_BookingId = hs_BookingId cmd, sh_SeatId = hs_SeatId cmd,
               sh_ExpiresAt = hs_ExpiresAt cmd\<rparr>],
         out_Replies = [],
         out_Timers = [\<lparr>st_FireAt = AsTime L (hs_ExpiresAt cmd), st_Token = hs_HoldId cmd\<rparr>]\<rparr>)"

definition Release :: "SeatState \<Rightarrow> ReleaseSeatHold \<Rightarrow> Outcome" where
  "Release s cmd =
     (let released = SeatHoldReleasedMsg
            \<lparr>sr_HoldId = rs_HoldId cmd, sr_BookingId = rs_BookingId cmd, sr_SeatId = rs_SeatId cmd,
             sr_Reason = rs_Reason cmd\<rparr>
      in if ss_Status s \<noteq> StatusHeld \<or> ss_HoldID s \<noteq> rs_HoldId cmd then
           empty_Outcome\<lparr>out_Replies := [released]\<rparr>
         else empty_Outcome\<lparr>out_Events := [released]\<rparr>)"

definition Expire :: "SeatState \<Rightarrow> string \<Rightarrow> string \<Rightarrow> Outcome" where
  "Expire s seatID holdID =
     (if ss_Status s \<noteq> StatusHeld \<or> ss_HoldID s \<noteq> holdID then empty_Outcome
      else empty_Outcome\<lparr>out_Events :=
        [SeatHoldExpiredMsg
           \<lparr>se_HoldId = ss_HoldID s, se_BookingId = ss_BookingID s, se_SeatId = seatID\<rparr>]\<rparr>)"

definition unknown_command :: "message \<Rightarrow> error" where
  "unknown_command cmd = Errorf [] ErrUnknownCommand ('': '' @ FullName cmd)"

fun Decide :: "protolib \<Rightarrow> SeatState \<Rightarrow> message \<Rightarrow> error + Outcome" where
  "Decide L s (HoldSeatMsg c) = Inr (Hold L s c)"
| "Decide L s (ReleaseSeatHoldMsg c) = Inr (Release s c)"
| "Decide L s cmd = Inl (unknown_command cmd)"

fun SeatID :: "message \<Rightarrow> error + string" where
  "SeatID (HoldSeatMsg c) = Inr (hs_SeatId c)"
| "SeatID (ReleaseSeatHoldMsg c) = Inr (rs_SeatId c)"
| "SeatID cmd = Inl (unknown_command cmd)"

lemmas status_defs = StatusFree_def StatusHeld_def
lemmas outcome_defs = Hold_def Release_def Expire_def empty_Outcome_def Messages_def Let_def

section \<open>The specification: a history with at most one live hold\<close>

text \<open>
  \<open>live_after h es\<close> is the live hold after \<open>es\<close> when \<open>h\<close> was live before, and \<open>None\<close> when \<open>es\<close> is not
  a history at all: a seat that is held is not held again, and only the live hold is ended.
\<close>

fun live_after :: "string option \<Rightarrow> message list \<Rightarrow> string option option" where
  "live_after h [] = Some h"
| "live_after None (SeatHeldMsg ev # es) = live_after (Some (sh_HoldId ev)) es"
| "live_after (Some h) (SeatHoldReleasedMsg ev # es) =
     (if sr_HoldId ev = h then live_after None es else None)"
| "live_after (Some h) (SeatHoldExpiredMsg ev # es) =
     (if se_HoldId ev = h then live_after None es else None)"
| "live_after h (m # es) = None"

definition valid_history :: "message list \<Rightarrow> bool" where
  "valid_history es \<longleftrightarrow> live_after None es \<noteq> None"

text \<open>The hold a folded state says is live.\<close>

definition live_hold :: "SeatState \<Rightarrow> string option" where
  "live_hold s = (if ss_Status s = StatusHeld then Some (ss_HoldID s) else None)"

definition seat_wf :: "SeatState \<Rightarrow> bool" where
  "seat_wf s \<longleftrightarrow> 0 \<le> ss_Version s \<and>
     (ss_Status s = StatusHeld \<or>
      ss_Status s = StatusFree \<and> ss_HoldID s = [] \<and> ss_BookingID s = [] \<and> ss_ExpiresAt s = 0)"

lemma live_after_append:
  "live_after h (xs @ ys) = (case live_after h xs of None \<Rightarrow> None | Some h' \<Rightarrow> live_after h' ys)"
  by (induction h xs rule: live_after.induct) simp_all

lemma Apply_ok_iff: "(\<exists>s'. Apply L s m = Inr s') \<longleftrightarrow> is_seat_event m"
  by (cases m) simp_all

lemma Apply_version: "Apply L s m = Inr s' \<Longrightarrow> ss_Version s' = ss_Version s + 1"
  by (cases m) (auto simp: freed_def)

lemma Apply_wf: "seat_wf s \<Longrightarrow> Apply L s m = Inr s' \<Longrightarrow> seat_wf s'"
  by (cases m) (auto simp: freed_def seat_wf_def)

lemma zero_wf: "seat_wf zero_SeatState"
  by (simp add: seat_wf_def zero_SeatState_def)

lemma fold_from_append:
  "fold_from L i s (xs @ ys) =
     (case fold_from L i s xs of Inl err \<Rightarrow> Inl err | Inr s' \<Rightarrow> fold_from L (i + length xs) s' ys)"
  by (induction xs arbitrary: i s) (auto split: sum.split)

lemma fold_from_version:
  "fold_from L i s es = Inr s' \<Longrightarrow> ss_Version s' = ss_Version s + int (length es)"
  by (induction es arbitrary: i s) (auto split: sum.splits dest: Apply_version)

lemma fold_from_wf: "seat_wf s \<Longrightarrow> fold_from L i s es = Inr s' \<Longrightarrow> seat_wf s'"
  by (induction es arbitrary: i s) (auto split: sum.splits dest: Apply_wf)

lemma Fold_version: "Fold L es = Inr s \<Longrightarrow> ss_Version s = int (length es)"
  using fold_from_version [of L 0 zero_SeatState es s] by (simp add: Fold_def zero_SeatState_def)

lemma Fold_wf: "Fold L es = Inr s \<Longrightarrow> seat_wf s"
  by (auto simp: Fold_def intro: fold_from_wf zero_wf)

lemma Fold_snoc:
  "Fold L es = Inr s \<Longrightarrow> Apply L s m = Inr s' \<Longrightarrow> Fold L (es @ [m]) = Inr s'"
  by (simp add: Fold_def fold_from_append)

text \<open>The fold refines the specification: it accepts every valid history and agrees on the live hold.\<close>

lemma fold_from_refines:
  assumes "live_after (live_hold s) es = Some h" and "seat_wf s"
  shows "\<exists>s'. fold_from L i s es = Inr s' \<and> live_hold s' = h"
  using assms
proof (induction es arbitrary: s i)
  case Nil
  then show ?case by simp
next
  case (Cons m es)
  obtain s1 where s1: "Apply L s m = Inr s1" "live_after (live_hold s1) es = Some h"
    using Cons.prems
    by (cases m; cases "live_hold s")
      (auto simp: freed_def live_hold_def status_defs split: if_splits)
  moreover from s1 Cons.prems have "seat_wf s1" by (blast intro: Apply_wf)
  ultimately show ?case using Cons.IH by simp
qed

lemma Fold_refines: "live_after None es = Some h \<Longrightarrow> \<exists>s. Fold L es = Inr s \<and> live_hold s = h"
  using fold_from_refines [of zero_SeatState es h L 0] zero_wf
  by (simp add: Fold_def live_hold_def zero_SeatState_def status_defs)


section \<open>Decisions keep the history valid\<close>

datatype seat_input = Command message | Deadline string string

fun input_events :: "protolib \<Rightarrow> SeatState \<Rightarrow> seat_input \<Rightarrow> message list" where
  "input_events L s (Command m) =
     (case Decide L s m of Inl _ \<Rightarrow> [] | Inr out \<Rightarrow> out_Events out)"
| "input_events L s (Deadline seatID token) = out_Events (Expire s seatID token)"

lemma Hold_events_valid:
  "seat_wf s \<Longrightarrow> live_after (live_hold s) (out_Events (Hold L s c)) \<noteq> None"
  by (auto simp: outcome_defs live_hold_def status_defs)

lemma Release_events_valid: "live_after (live_hold s) (out_Events (Release s c)) \<noteq> None"
  by (auto simp: outcome_defs live_hold_def status_defs)

lemma Expire_events_valid: "live_after (live_hold s) (out_Events (Expire s sid h)) \<noteq> None"
  by (auto simp: outcome_defs live_hold_def status_defs)

lemma input_events_valid:
  "seat_wf s \<Longrightarrow> live_after (live_hold s) (input_events L s i) \<noteq> None"
proof (cases i)
  case (Command m)
  then show "seat_wf s \<Longrightarrow> ?thesis"
    using Hold_events_valid Release_events_valid by (cases m) auto
next
  case (Deadline sid h)
  then show ?thesis using Expire_events_valid by simp
qed

lemma valid_history_extend:
  assumes "valid_history es" "Fold L es = Inr s" "live_after (live_hold s) evs \<noteq> None"
  shows "valid_history (es @ evs)"
proof -
  obtain h where "live_after None es = Some h" using assms(1) by (auto simp: valid_history_def)
  moreover from Fold_refines [OF this, of L] assms(2) have "live_hold s = h" by simp
  ultimately show ?thesis using assms(3) by (simp add: valid_history_def live_after_append)
qed

lemma valid_history_folds: "valid_history es \<Longrightarrow> \<exists>s. Fold L es = Inr s"
  using Fold_refines by (fastforce simp: valid_history_def)

interpretation seat: aggregate "Fold L" "input_events L" valid_history for L
proof
  show "valid_history []" by (simp add: valid_history_def)
  show "\<exists>s. Fold L es = Inr s" if "valid_history es" for es
    using that by (rule valid_history_folds)
  show "valid_history (es @ input_events L s c)" if "valid_history es" "Fold L es = Inr s" for es s c
    using that(1,2) input_events_valid [OF Fold_wf [OF that(2)]] by (rule valid_history_extend)
qed

lemma valid_history_prefix: "valid_history (xs @ ys) \<Longrightarrow> valid_history xs"
  by (auto simp: valid_history_def live_after_append split: option.splits)

text \<open>The events that end a given hold.\<close>

fun ends_hold :: "string \<Rightarrow> message \<Rightarrow> bool" where
  "ends_hold h (SeatHoldReleasedMsg ev) = (sr_HoldId ev = h)"
| "ends_hold h (SeatHoldExpiredMsg ev) = (se_HoldId ev = h)"
| "ends_hold h _ = False"

lemma held_again_ended:
  "live_after (Some h) (b @ SeatHeldMsg y # c) \<noteq> None \<Longrightarrow> \<exists>m \<in> set b. ends_hold h m"
proof (cases b)
  case (Cons m b')
  assume "live_after (Some h) (b @ SeatHeldMsg y # c) \<noteq> None"
  then have "ends_hold h m" using Cons by (cases m) (auto split: if_splits)
  with Cons show ?thesis by simp
qed simp

lemma valid_history_held_again:
  assumes "valid_history (a @ SeatHeldMsg x # b @ SeatHeldMsg y # c)"
  shows "\<exists>m \<in> set b. ends_hold (sh_HoldId x) m"
proof -
  obtain h where "live_after h (SeatHeldMsg x # b @ SeatHeldMsg y # c) \<noteq> None"
    using assms by (auto simp: valid_history_def live_after_append split: option.splits)
  then show ?thesis by (cases h) (auto intro: held_again_ended)
qed

lemma Decide_reply: "Decide L s cmd = Inr out \<Longrightarrow> \<exists>reply. Messages out = [reply] \<and> FullName reply \<noteq> []"
  by (cases cmd) (auto simp: outcome_defs)

text \<open>An event that leaves a hold live comes with the timer for it.\<close>

lemma decided_live:
  assumes "Decide L st cmd = Inr out" "Fold L ms = Inr st" "out_Events out \<noteq> []"
  shows "\<exists>st'. Fold L (ms @ out_Events out) = Inr st' \<and> (ss_Status st' = StatusHeld \<longrightarrow>
    (\<exists>tm \<in> set (out_Timers out). st_Token tm = ss_HoldID st' \<and> st_FireAt tm = ss_ExpiresAt st'))"
proof (cases cmd)
  case (HoldSeatMsg c)
  then show ?thesis using assms by (auto simp: outcome_defs Fold_snoc split: if_splits)
next
  case (ReleaseSeatHoldMsg c)
  then show ?thesis using assms by (auto simp: outcome_defs Fold_snoc freed_def status_defs split: if_splits)
qed (use assms in auto)

section \<open>Properties\<close>

text \<open>
  A seat is never held twice: whatever commands and deadlines arrive, in whatever order,
  handling them one after the other from the empty stream always succeeds, and in the resulting
  stream every hold that follows another is preceded by an event that ends the earlier one.
\<close>

theorem seat_never_held_twice:
  "\<exists>es. run_inputs (Fold L) (input_events L) [] ins = Inr es \<and> valid_history es \<and>
     (\<forall>a x b y c. es = a @ SeatHeldMsg x # b @ SeatHeldMsg y # c \<longrightarrow>
        (\<exists>m \<in> set b. ends_hold (sh_HoldId x) m))"
  using seat.run_from_empty [of L ins] by (auto intro: valid_history_held_again)

definition demo_hold :: "string \<Rightarrow> message" where
  "demo_hold h =
     HoldSeatMsg \<lparr>hs_HoldId = h, hs_BookingId = ''b'', hs_SeatId = ''14A'',
       hs_ExpiresAt = Some (Timestamp 900 0)\<rparr>"

definition demo_release :: "string \<Rightarrow> message" where
  "demo_release h =
     ReleaseSeatHoldMsg \<lparr>rs_HoldId = h, rs_BookingId = ''b'', rs_SeatId = ''14A'', rs_Reason = ''r''\<rparr>"

lemmas demo_commands = demo_hold_def demo_release_def

text \<open>Two racing holds, a release, a stale deadline and the second hold taken again.\<close>

definition demo_inputs :: "seat_input list" where
  "demo_inputs =
     [Command (demo_hold ''h1''), Command (demo_hold ''h2''), Command (demo_release ''h1''),
      Deadline ''14A'' ''h1'', Command (demo_hold ''h2'')]"

lemma demo_run:
  "run_inputs (Fold demo_lib) (input_events demo_lib) [] demo_inputs =
     Inr [demo_held ''h1'', demo_released ''h1'', demo_held ''h2'']"
  by (simp add: demo_inputs_def demo_commands demo_messages outcome_defs Fold_def zero_SeatState_def
      freed_def status_defs)

theorem seat_never_held_twice_witness:
  "\<exists>es. run_inputs (Fold demo_lib) (input_events demo_lib) [] demo_inputs = Inr es \<and>
     es = [] @ demo_held ''h1'' # [demo_released ''h1''] @ demo_held ''h2'' # [] \<and>
     (\<exists>m \<in> set [demo_released ''h1'']. ends_hold ''h1'' m)"
proof -
  obtain es where es: "run_inputs (Fold demo_lib) (input_events demo_lib) [] demo_inputs = Inr es"
    and sep: "\<And>a x b y c. es = a @ SeatHeldMsg x # b @ SeatHeldMsg y # c \<Longrightarrow>
        \<exists>m \<in> set b. ends_hold (sh_HoldId x) m"
    using seat_never_held_twice [of demo_lib demo_inputs] by blast
  have shape: "es = [] @ demo_held ''h1'' # [demo_released ''h1''] @ demo_held ''h2'' # []"
    using es demo_run by simp
  moreover have "\<exists>m \<in> set [demo_released ''h1'']. ends_hold ''h1'' m"
    using sep [OF shape [unfolded demo_held_def]] by simp
  ultimately show ?thesis using es by blast
qed

fun answers :: "message \<Rightarrow> string \<times> string" where
  "answers (SeatHeldMsg ev) = (sh_HoldId ev, sh_SeatId ev)"
| "answers (SeatHoldReleasedMsg ev) = (sr_HoldId ev, sr_SeatId ev)"
| "answers (SeatHoldExpiredMsg ev) = (se_HoldId ev, se_SeatId ev)"
| "answers (SeatUnavailableMsg ev) = (su_HoldId ev, su_SeatId ev)"
| "answers (HoldSeatMsg c) = (hs_HoldId c, hs_SeatId c)"
| "answers (ReleaseSeatHoldMsg c) = (rs_HoldId c, rs_SeatId c)"
| "answers (OtherMsg n) = ([], [])"

text \<open>
  Every command gets exactly one answer, and it is an answer to that command: the one message a
  decision publishes names the hold and the seat the command named, and a deadline is asked for
  only together with an event.
\<close>

theorem Decide_answers_once:
  assumes "Decide L s cmd = Inr out"
  shows "\<exists>m. Messages out = [m] \<and> answers m = answers cmd \<and> SeatID cmd = Inr (snd (answers m)) \<and>
    (out_Timers out \<noteq> [] \<longrightarrow> out_Events out = [m])"
  using assms by (cases cmd) (auto simp: outcome_defs held_def)

theorem Decide_answers_once_witness:
  "\<exists>m. Messages (Release zero_SeatState \<lparr>rs_HoldId = ''h1'', rs_BookingId = ''b'',
      rs_SeatId = ''14A'', rs_Reason = ''r''\<rparr>) = [m] \<and> answers m = answers (demo_release ''h1'')"
  using Decide_answers_once [of demo_lib zero_SeatState "demo_release ''h1''"]
  by (auto simp: demo_release_def)

text \<open>
  What \<open>Hold\<close> decides, on every branch: a free seat is held with a deadline timer carrying the
  hold's id and folds to that hold being live; the live hold asked for again is re-announced
  without an event or a timer; any other hold is refused with the reason, again without either.
\<close>

theorem Hold_decision:
  assumes "seat_wf s"
  shows "case live_hold s of
     None \<Rightarrow>
       (\<exists>ev s'. out_Events (Hold L s c) = [SeatHeldMsg ev] \<and> out_Replies (Hold L s c) = [] \<and>
          out_Timers (Hold L s c) = [\<lparr>st_FireAt = AsTime L (hs_ExpiresAt c), st_Token = hs_HoldId c\<rparr>] \<and>
          Apply L s (SeatHeldMsg ev) = Inr s' \<and> live_hold s' = Some (hs_HoldId c) \<and>
          ss_BookingID s' = hs_BookingId c \<and> ss_ExpiresAt s' = AsTime L (hs_ExpiresAt c))
   | Some h \<Rightarrow>
       out_Events (Hold L s c) = [] \<and> out_Timers (Hold L s c) = [] \<and>
       out_Replies (Hold L s c) =
         [if h = hs_HoldId c then SeatHeldMsg (held L s (hs_SeatId c))
          else SeatUnavailableMsg \<lparr>su_HoldId = hs_HoldId c, su_BookingId = hs_BookingId c,
                 su_SeatId = hs_SeatId c, su_Reason = ''seat is held''\<rparr>]"
  using assms by (auto simp: outcome_defs live_hold_def seat_wf_def Status_String_def status_defs)

theorem Hold_decision_witness:
  "\<exists>ev s'. out_Events (Hold demo_lib zero_SeatState \<lparr>hs_HoldId = ''h1'', hs_BookingId = ''b'',
      hs_SeatId = ''14A'', hs_ExpiresAt = None\<rparr>) = [SeatHeldMsg ev] \<and>
    Apply demo_lib zero_SeatState (SeatHeldMsg ev) = Inr s' \<and> live_hold s' = Some ''h1''"
  using Hold_decision [OF zero_wf, of demo_lib "\<lparr>hs_HoldId = ''h1'', hs_BookingId = ''b'',
      hs_SeatId = ''14A'', hs_ExpiresAt = None\<rparr>"]
  by (auto simp: live_hold_def zero_SeatState_def status_defs)

text \<open>
  The token fence: a deadline changes the seat exactly when its token is the live hold; then it
  produces the one expiry event for that hold and booking, which folds to a free seat, and in every
  other case it produces nothing at all.
\<close>

theorem Expire_fence:
  "if live_hold s = Some h
   then (\<exists>s'. Expire s seatID h = empty_Outcome\<lparr>out_Events := [SeatHoldExpiredMsg
           \<lparr>se_HoldId = h, se_BookingId = ss_BookingID s, se_SeatId = seatID\<rparr>]\<rparr> \<and>
         fold_from L i s (out_Events (Expire s seatID h)) = Inr s' \<and>
         live_hold s' = None \<and> ss_HoldID s' = [] \<and> ss_Version s' = ss_Version s + 1)
   else Expire s seatID h = empty_Outcome"
  by (auto simp: Expire_def live_hold_def freed_def empty_Outcome_def status_defs)

text \<open>
  C23. A release and the deadline of the same live hold may arrive in either order: the seat ends in
  the same state, with exactly one event appended, and the release is answered both times.
\<close>

theorem release_deadline_commute:
  assumes "live_hold s = Some (rs_HoldId c)"
  shows "\<exists>s' ev1 ev2.
     out_Events (Release s c) = [ev1] \<and> Apply L s ev1 = Inr s' \<and>
       Expire s' seatID (rs_HoldId c) = empty_Outcome \<and>
     out_Events (Expire s seatID (rs_HoldId c)) = [ev2] \<and> Apply L s ev2 = Inr s' \<and>
       out_Events (Release s' c) = [] \<and> Messages (Release s' c) = Messages (Release s c)"
  using assms
  by (auto simp: outcome_defs live_hold_def freed_def status_defs split: if_splits)

definition demo_state :: SeatState where
  "demo_state =
     \<lparr>ss_Version = 1, ss_Status = StatusHeld, ss_HoldID = ''h1'', ss_BookingID = ''b'', ss_ExpiresAt = 900\<rparr>"

theorem release_deadline_commute_witness:
  "\<exists>s' ev1 ev2.
     out_Events (Release demo_state \<lparr>rs_HoldId = ''h1'', rs_BookingId = ''b'', rs_SeatId = ''14A'',
       rs_Reason = ''r''\<rparr>) = [ev1] \<and> Apply demo_lib demo_state ev1 = Inr s' \<and>
     out_Events (Expire demo_state ''14A'' ''h1'') = [ev2] \<and> Apply demo_lib demo_state ev2 = Inr s'"
  using release_deadline_commute [of demo_state
      "\<lparr>rs_HoldId = ''h1'', rs_BookingId = ''b'', rs_SeatId = ''14A'', rs_Reason = ''r''\<rparr>" demo_lib "''14A''"]
  by (auto simp: live_hold_def demo_state_def)

text \<open>
  A saga that re-dispatches a hold under a new message id is told what it was told before: after
  the first \<open>HoldSeat\<close> was decided on a free seat and folded, the same command is answered with a
  \<open>SeatHeld\<close> equal to the one announced then, when converting the deadline to a time and back gives
  the same timestamp.
\<close>

theorem Hold_redispatch_reannounces:
  assumes "seat_wf s" and "live_hold s = None" and "hs_ExpiresAt c = Some ts"
    and "TimestampNew L (AsTime L (Some ts)) = ts"
    and "fold_from L 0 s (out_Events (Hold L s c)) = Inr s'"
  shows "Messages (Hold L s' c) = Messages (Hold L s c) \<and> out_Events (Hold L s' c) = [] \<and>
    out_Timers (Hold L s' c) = []"
  using assms by (auto simp: outcome_defs live_hold_def held_def status_defs seat_wf_def split: if_splits)

theorem Hold_redispatch_reannounces_witness:
  "Messages (Hold demo_lib demo_state \<lparr>hs_HoldId = ''h1'', hs_BookingId = ''b'', hs_SeatId = ''14A'',
      hs_ExpiresAt = Some (Timestamp 900 0)\<rparr>) = [demo_held ''h1'']"
proof -
  let ?c = "\<lparr>hs_HoldId = ''h1'', hs_BookingId = ''b'', hs_SeatId = ''14A'',
      hs_ExpiresAt = Some (Timestamp 900 0)\<rparr>"
  have "fold_from demo_lib 0 zero_SeatState (out_Events (Hold demo_lib zero_SeatState ?c)) = Inr demo_state"
    by (simp add: outcome_defs zero_SeatState_def status_defs demo_state_def demo_lib_def table_lib_def)
  then have "Messages (Hold demo_lib demo_state ?c) = Messages (Hold demo_lib zero_SeatState ?c)"
    using Hold_redispatch_reannounces [of zero_SeatState ?c "Timestamp 900 0" demo_lib demo_state] zero_wf
    by (simp add: live_hold_def zero_SeatState_def status_defs demo_lib_def table_lib_def)
  then show ?thesis by (simp add: outcome_defs zero_SeatState_def status_defs demo_held_def)
qed

text \<open>
  Replaying: the fold of a stream of seat events succeeds, counts one version per event and
  leaves a well-formed state; on a stream that holds anything else it stops at the first such event
  with \<^verbatim>\<open>ErrUnknownEvent\<close>.
\<close>

theorem Fold_spec:
  "if list_all is_seat_event es
   then (\<exists>s. Fold L es = Inr s \<and> ss_Version s = int (length es) \<and> seat_wf s)
   else (\<exists>xs m ys err. es = xs @ m # ys \<and> list_all is_seat_event xs \<and> \<not> is_seat_event m \<and>
      Fold L es = Inl err \<and> errors_Is err ErrUnknownEvent \<and>
      err = Errorf (''inventory: fold event '' @ itoa (int (length xs)) @ '': '')
        (Errorf [] ErrUnknownEvent ('': '' @ FullName m)) [])"
proof -
  have ok: "list_all is_seat_event xs \<Longrightarrow> \<exists>s'. fold_from L i s xs = Inr s'" for xs i s
  proof (induction xs arbitrary: i s)
    case (Cons m xs)
    then obtain s1 where "Apply L s m = Inr s1" using Apply_ok_iff [of L s m] by auto
    with Cons show ?case by simp
  qed simp
  show ?thesis
  proof (cases "list_all is_seat_event es")
    case True
    then show ?thesis using ok [of es 0 zero_SeatState] Fold_version Fold_wf by (auto simp: Fold_def)
  next
    case False
    then obtain xs m ys where es: "es = xs @ m # ys" "list_all is_seat_event xs" "\<not> is_seat_event m"
      using split_list_first_prop [of es "\<lambda>m. \<not> is_seat_event m"] by (auto simp: list_all_iff)
    moreover obtain s where "fold_from L 0 zero_SeatState xs = Inr s" using ok es(2) by blast
    moreover have "Apply L s m = Inl (Errorf [] ErrUnknownEvent ('': '' @ FullName m))"
      using es(3) by (cases m) simp_all
    ultimately show ?thesis using False by (auto simp: Fold_def fold_from_append)
  qed
qed

end
