(* ===== verification/SeatStore.thy ===== *)
theory SeatStore
  imports Seat
begin

text \<open>
  \<^verbatim>\<open>internal/inventory/store.go\<close>: a seat stream as the fold sees it (\<open>LoadSeat\<close>) and as it grows
  (\<open>AppendSeat\<close>).

  The invariant of the whole service is stated here: \<open>seats_ok\<close>, every stream is numbered without a
  gap and decodes to a valid seat history. The second half of the theory shows the step that makes
  it an invariant under concurrency: appending a decision at the version it was taken from keeps
  it, whatever other sessions commit between the load and the append, as long as each of them only
  extends streams and keeps the invariant itself (\<open>seats_step\<close>).
\<close>

section \<open>Operations\<close>

fun decode_all :: "protolib \<Rightarrow> string \<Rightarrow> Recorded list \<Rightarrow> error + message list" where
  "decode_all L seatID [] = Inr []"
| "decode_all L seatID (r # rs) =
     (case Decode L (rec_Event r) of
        Inl err \<Rightarrow>
          Inl (Errorf (''inventory: decode '' @ seatID @ '' v'' @ itoa (rec_Version r) @ '': '') err [])
      | Inr m \<Rightarrow>
          (case decode_all L seatID rs of Inl err \<Rightarrow> Inl err | Inr ms \<Rightarrow> Inr (m # ms)))"

definition last_meta :: "Recorded list \<Rightarrow> Meta" where
  "last_meta rs = (if rs = [] then empty_Meta else es_Meta (rec_Event (last rs)))"

definition LoadSeat :: "protolib \<Rightarrow> env \<Rightarrow> string \<Rightarrow> tx \<Rightarrow> (error + SeatState \<times> Meta) \<times> tx" where
  "LoadSeat L e seatID =
     bindE (Load e seatID) (\<lambda>recs.
     bindE (liftE (decode_all L seatID recs)) (\<lambda>msgs.
     bindE (liftE (Fold L msgs)) (\<lambda>state. retE (state, last_meta recs))))"

fun encode_all :: "protolib \<Rightarrow> string \<Rightarrow> Meta \<Rightarrow> message list \<Rightarrow> error + Event list" where
  "encode_all L seatID meta [] = Inr []"
| "encode_all L seatID meta (m # ms) =
     (case Encode L (Some m) meta of
        Inl err \<Rightarrow> Inl (Errorf (''inventory: encode for '' @ seatID @ '': '') err [])
      | Inr ev \<Rightarrow>
          (case encode_all L seatID meta ms of Inl err \<Rightarrow> Inl err | Inr evs \<Rightarrow> Inr (ev # evs)))"

definition AppendSeat ::
  "protolib \<Rightarrow> env \<Rightarrow> string \<Rightarrow> int \<Rightarrow> message list \<Rightarrow> Meta \<Rightarrow> tx \<Rightarrow> (error + unit) \<times> tx" where
  "AppendSeat L e seatID expectedVersion evts meta =
     (if evts = [] then retE ()
      else
        bindE (liftE (encode_all L seatID meta evts)) (\<lambda>stored.
          Append e seatID expectedVersion stored))"

section \<open>The invariant\<close>

definition seat_messages :: "protolib \<Rightarrow> tables \<Rightarrow> string \<Rightarrow> error + message list" where
  "seat_messages L T s = decode_all L s (map (recorded s) (stream_rows T s))"

definition seat_ok :: "protolib \<Rightarrow> tables \<Rightarrow> string \<Rightarrow> bool" where
  "seat_ok L T s = (case seat_messages L T s of Inl _ \<Rightarrow> False | Inr ms \<Rightarrow> valid_history ms)"

definition seats_ok :: "protolib \<Rightarrow> tables \<Rightarrow> bool" where
  "seats_ok L T \<longleftrightarrow> log_ok T \<and> list_all (seat_ok L T) (map ev_stream_id (events T))"

definition extends :: "tables \<Rightarrow> tables \<Rightarrow> bool" where
  "extends T T' \<longleftrightarrow> (\<forall>s. prefix (stream_rows T s) (stream_rows T' s))"

text \<open>What a step of anybody's does to the streams.\<close>

definition seats_step :: "protolib \<Rightarrow> tables \<Rightarrow> tables \<Rightarrow> bool" where
  "seats_step L T T' \<longleftrightarrow> (seats_ok L T \<longrightarrow> seats_ok L T' \<and> extends T T')"

lemma seats_ok_iff: "seats_ok L T \<longleftrightarrow> log_ok T \<and> (\<forall>s. seat_ok L T s)"
proof -
  have "seat_ok L T s" if "s \<notin> ev_stream_id ` set (events T)" for s
    using stream_rows_absent [OF that]
    by (simp add: seat_ok_def seat_messages_def valid_history_def)
  then have "list_all (seat_ok L T) (map ev_stream_id (events T)) \<longleftrightarrow> (\<forall>s. seat_ok L T s)"
    unfolding list_all_iff set_map by blast
  then show ?thesis by (simp add: seats_ok_def)
qed

lemma seats_ok_log: "seats_ok L T \<Longrightarrow> log_ok T"
  by (simp add: seats_ok_def)

lemma seats_okD: "seats_ok L T \<Longrightarrow> \<exists>ms. seat_messages L T s = Inr ms \<and> valid_history ms"
  by (cases "seat_messages L T s") (auto simp: seats_ok_iff seat_ok_def dest!: spec [of _ s])

lemma extends_refl: "extends T T"
  by (simp add: extends_def)

lemma seats_step_refl [simp]: "seats_step L T T"
  by (simp add: seats_step_def extends_refl)

lemma seats_step_trans: "seats_step L T U \<Longrightarrow> seats_step L U V \<Longrightarrow> seats_step L T V"
  unfolding seats_step_def extends_def by (meson prefix_order.trans)

lemma stream_rows_same_events: "events T' = events T \<Longrightarrow> stream_rows T' = stream_rows T"
  by (simp add: stream_rows_def fun_eq_iff)

lemma seats_step_same_events:
  assumes "events T' = events T"
  shows "seats_step L T T'"
  using stream_rows_same_events [OF assms]
  by (simp add: seats_step_def seats_ok_iff log_ok_iff versions_ok_def seat_ok_def seat_messages_def
      extends_def)

interpretation seats_frame: frame "view_frame (seats_step L)" for L
  by unfold_locales (auto simp: view_frame_def intro: seats_step_trans)

definition seats_rely :: "protolib \<Rightarrow> env \<Rightarrow> bool" where
  "seats_rely L e \<longleftrightarrow> others_keep e (seats_step L)"

lemma seats_relyD: "seats_rely L e \<Longrightarrow> seats_step L T (others e n S T)"
  by (simp add: seats_rely_def others_keep_def)

lemma seats_rely_quiet: "quiet e \<Longrightarrow> seats_rely L e"
  by (simp add: seats_rely_def others_keep_def quietD)

lemma seats_step_meanwhile: "seats_rely L e \<Longrightarrow> meanwhile e (T, S) (T', S') \<Longrightarrow> seats_step L T T'"
  unfolding seats_rely_def by (rule meanwhile_keeps) (auto intro: seats_step_trans)

text \<open>A statement that leaves the events table alone.\<close>

lemma keeps_seats_exec:
  assumes "seats_rely L e"
    and "\<And>T sq x T' sq'. st T sq = (Inr (x, T'), sq') \<Longrightarrow> events T' = events T"
  shows "keeps (view_frame (seats_step L)) (exec e st)"
proof (rule keepsI)
  fix t
  obtain r t' where run: "exec e st t = (r, t')" by (cases "exec e st t")
  let ?T = "others e (stmts t) (seqs t) (view t)"
  have "seats_step L ?T (view t')"
    using exec_view [OF run] assms(2) by (metis seats_step_same_events)
  then have "seats_step L (view t) (view t')"
    using seats_relyD [OF assms(1)] by (blast intro: seats_step_trans)
  with run show "view_frame (seats_step L) t (snd (exec e st t))" by (simp add: view_frame_def)
qed

lemma keeps_seats_pg_notify:
  assumes "seats_rely L e"
  shows "keeps (view_frame (seats_step L)) (pg_notify e ch)"
proof (rule keepsI)
  fix t
  have "view_frame (seats_step L) t (snd (exec e (select_stmt (\<lambda>_. ())) t))"
    using keeps_seats_exec [OF assms, of "select_stmt (\<lambda>_. ())"]
    by (auto simp: keeps_def select_stmt_def)
  then show "view_frame (seats_step L) t (snd (pg_notify e ch t))"
    by (auto simp: pg_notify_def view_frame_def split: prod.splits sum.splits)
qed

lemma keeps_base_LoadSeat [frame_intros]: "keeps (base_frame e) (LoadSeat L e s)"
  unfolding LoadSeat_def by (auto intro!: frame_intros)

lemma keeps_base_AppendSeat [frame_intros]: "keeps (base_frame e) (AppendSeat L e s v evts meta)"
  unfolding AppendSeat_def by (auto intro!: frame_intros)

lemma alone_LoadSeat [alone_intros]: "alone e \<Longrightarrow> succeeds_as (LoadSeat L e s) (LoadSeat L (quieten e) s)"
  unfolding LoadSeat_def by (auto intro!: alone_intros)

lemma alone_AppendSeat [alone_intros]:
  "alone e \<Longrightarrow> succeeds_as (AppendSeat L e s v evts meta) (AppendSeat L (quieten e) s v evts meta)"
  unfolding AppendSeat_def by (auto intro!: alone_intros)

section \<open>Load, then append at the version loaded\<close>

lemma decode_all_append:
  "decode_all L s (xs @ ys) =
     (case decode_all L s xs of
        Inl err \<Rightarrow> Inl err
      | Inr ms \<Rightarrow> (case decode_all L s ys of Inl err \<Rightarrow> Inl err | Inr ms' \<Rightarrow> Inr (ms @ ms')))"
  by (induction xs) (auto split: sum.split)

lemma decode_all_length: "decode_all L s rs = Inr ms \<Longrightarrow> length ms = length rs"
  by (induction rs arbitrary: ms) (auto split: sum.splits)

lemma rec_Event_recorded:
  "rec_Event (recorded s r) =
     \<lparr>es_Type = ev_type r, es_Data = ev_data r, es_Meta = Meta_unmarshal (ev_meta r)\<rparr>"
  by (simp add: recorded_def)

lemma decode_appended:
  assumes "codec_ok L e" "list_all is_seat_event evts" "encode_all L s meta evts = Inr stored"
    and "append_columns i stored = Inr cs" "jsonb_columns e cs = Some cs'"
  shows "decode_all L s (map (recorded s) (append_rows e' s v g cs')) = Inr evts"
  using assms(2-)
proof (induction evts arbitrary: stored i cs cs' v g)
  case Nil
  then show ?case by auto
next
  case (Cons m ms)
  from Cons.prems(2) obtain ev evs where enc: "Encode L (Some m) meta = Inr ev"
      "encode_all L s meta ms = Inr evs" "stored = ev # evs"
    by (auto split: sum.splits)
  from Cons.prems(3) enc obtain ccs where cols: "append_columns (Suc i) evs = Inr ccs"
      "cs = (es_Type ev, es_Data ev, Meta_marshal (es_Meta ev)) # ccs"
    by (auto split: option.splits sum.splits)
  from Cons.prems(4) cols obtain d dcs where js: "jsonb_text e (es_Data ev) = Some d"
      "jsonb_columns e ccs = Some dcs"
      "cs' = (es_Type ev, d, Meta_marshal (es_Meta ev)) # dcs"
    by (auto split: option.splits)
  have "is_seat_event m" using Cons.prems(1) by simp
  then have "Decode L (ev\<lparr>es_Data := d\<rparr>) = Inr m"
    using Decode_stored [OF assms(1) _ enc(1) js(1)] by simp
  moreover have "ev\<lparr>es_Data := d\<rparr> = \<lparr>es_Type = es_Type ev, es_Data = d, es_Meta = es_Meta ev\<rparr>"
    by simp
  moreover have "decode_all L s (map (recorded s) (append_rows e' s (v + 1) (g + 1) dcs)) = Inr ms"
    using Cons.IH [OF _ enc(2) cols(1) js(2)] Cons.prems(1) by simp
  ultimately show ?case unfolding js(3) by (simp add: rec_Event_recorded)
qed

lemma LoadSeat_spec:
  assumes "seats_ok L (view t)" "seats_rely L e" "LoadSeat L e s t = (Inr (st, m), t')"
  shows "seats_ok L (view t')" "\<not> aborted t'" "view t' = others e (stmts t) (seqs t) (view t)"
    "\<exists>ms. seat_messages L (view t') s = Inr ms \<and> Fold L ms = Inr st"
    "m = last_meta (map (recorded s) (stream_rows (view t') s))"
proof -
  obtain rs where rs: "Load e s t = (Inr rs, t')" "m = last_meta rs"
      "\<exists>ms. decode_all L s rs = Inr ms \<and> Fold L ms = Inr st"
    using assms(3) unfolding LoadSeat_def bindE_eq_Inr_iff liftE_eq_iff retE_eq_iff by force
  then have run: "exec e (select_stmt (\<lambda>T. map (recorded s) (loadSQL s T))) t = (Inr rs, t')"
    by (simp add: Load_def)
  from exec_ok [OF run] show na: "\<not> aborted t'" and view: "view t' = others e (stmts t) (seqs t) (view t)"
    by (simp_all add: select_stmt_def)
  show ok: "seats_ok L (view t')"
    using seats_relyD [OF assms(2)] assms(1) unfolding view by (simp add: seats_step_def)
  have "rs = map (recorded s) (stream_rows (view t') s)"
    using exec_ok(5) [OF run] loadSQL_log_ok [OF seats_ok_log [OF ok]] view
    by (simp add: select_stmt_def)
  then show "\<exists>ms. seat_messages L (view t') s = Inr ms \<and> Fold L ms = Inr st"
    "m = last_meta (map (recorded s) (stream_rows (view t') s))"
    using rs(2,3) by (simp_all add: seat_messages_def)
qed

text \<open>
  The optimistic lock at work: if the append got through, nobody extended the stream since it was
  loaded, so the decision was taken from the state it is applied to.
\<close>

lemma seats_step_append:
  assumes "seats_ok L T" "codec_ok L e" "list_all is_seat_event evts" "evts \<noteq> []"
    and "seat_messages L T s = Inr ms" "Fold L ms = Inr st" "live_after (live_hold st) evts \<noteq> None"
    and "encode_all L s meta evts = Inr stored" "append_columns 0 stored = Inr cs"
    and "seats_step L T U" "appendSQL e s (ss_Version st) cs U sq = (Inr (x, U'), sq')"
  shows "seats_step L U U' \<and> stream_rows U s = stream_rows T s \<and>
    (\<exists>g. stream_rows U' s = stream_rows U s @ append_rows e s (ss_Version st) g (the (jsonb_columns e cs)))"
proof -
  have U: "seats_ok L U" "extends T U" using assms(1,10) by (simp_all add: seats_step_def)
  have ver: "ss_Version st = int (length (stream_rows T s))"
    using Fold_version [OF assms(6)] decode_all_length assms(5) by (fastforce simp: seat_messages_def)
  obtain cs' where cs': "jsonb_columns e cs = Some cs'"
    and U': "U' = U\<lparr>events := events U @ append_rows e s (ss_Version st) (events_seq sq) cs'\<rparr>"
    and fresh: "\<And>r r'. r \<in> set (events U) \<Longrightarrow>
        r' \<in> set (append_rows e s (ss_Version st) (events_seq sq) cs') \<Longrightarrow> event_key r \<noteq> event_key r'"
    using appendSQL_okD [OF assms(11)] by metis
  have dec: "decode_all L s (map (recorded s) (append_rows e s (ss_Version st) (events_seq sq) cs')) = Inr evts"
    by (rule decode_appended [OF assms(2,3,8,9) cs'])
  then have ne: "cs' \<noteq> []" using assms(4) by (cases cs') auto
  have "\<not> ss_Version st < int (length (stream_rows U s))"
    using append_clash_iff [OF seats_ok_log [OF U(1)] _ ne, of "ss_Version st" e s "events_seq sq"] fresh ver
    by (auto simp: list_ex_iff)
  moreover have pre: "prefix (stream_rows T s) (stream_rows U s)" using U(2) by (simp add: extends_def)
  ultimately have same: "stream_rows U s = stream_rows T s"
    using ver by (metis linorder_not_less nat_int_comparison(2) not_equal_is_parallel order_antisym parallelE prefix_length_le)
  have streams: "stream_rows U' s' = stream_rows U s' @
      (if s' = s then append_rows e s (ss_Version st) (events_seq sq) cs' else [])" for s'
    by (simp add: U' stream_rows_append)
  have "valid_history ms" using assms(5) seats_okD [OF assms(1), of s] by simp
  then have "valid_history (ms @ evts)" using assms(6,7) by (rule valid_history_extend)
  moreover have "seat_messages L U' s = Inr (ms @ evts)"
    using dec assms(5) same by (simp add: seat_messages_def streams decode_all_append)
  moreover have "seat_messages L U' s' = seat_messages L U s'" if "s' \<noteq> s" for s'
    using that by (simp add: seat_messages_def streams)
  ultimately have "seat_ok L U' s'" for s'
    using U(1) by (cases "s' = s") (auto simp: seat_ok_def seats_ok_iff)
  moreover have "log_ok U'"
    unfolding U' using U(1) ver same by (intro log_ok_append) (simp_all add: seats_ok_log)
  ultimately have "seats_ok L U'" by (simp add: seats_ok_iff)
  moreover have "extends U U'" by (auto simp: extends_def streams)
  ultimately show ?thesis using same cs' streams [of s] by (auto simp: seats_step_def)
qed

lemma AppendSeat_step:
  assumes "seats_ok L (view t)" "seats_rely L e" "codec_ok L e" "list_all is_seat_event evts"
    and "seat_messages L (view t) s = Inr ms" "Fold L ms = Inr st"
    and "live_after (live_hold st) evts \<noteq> None"
    and "AppendSeat L e s (ss_Version st) evts meta t = (r, t')"
  shows "seats_step L (view t) (view t')"
proof (cases "evts = [] \<or> t' = t")
  case True
  then show ?thesis using assms(8) by (auto simp: AppendSeat_def)
next
  case False
  then obtain stored where stored: "encode_all L s meta evts = Inr stored"
      "Append e s (ss_Version st) stored t = (r, t')"
    using assms(8) by (auto simp: AppendSeat_def bindE_def liftE_def split: sum.splits)
  then obtain cs r0 where cs: "append_columns 0 stored = Inr cs"
      "exec e (appendSQL e s (ss_Version st) cs) t = (r0, t')"
    using False by (auto simp: Append_def wrapE_def split: if_splits sum.splits prod.splits)
  let ?U = "others e (stmts t) (seqs t) (view t)"
  have U: "seats_step L (view t) ?U" using seats_relyD [OF assms(2)] .
  show ?thesis
  proof (rule disjE [OF exec_view [OF cs(2)]])
    assume "view t' = ?U"
    then show ?thesis using U by simp
  next
    assume "\<exists>x sq. r0 = Inr x \<and> appendSQL e s (ss_Version st) cs ?U
        (others_seq e (stmts t) (seqs t)) = (Inr (x, view t'), sq)"
    then obtain x sq where app: "appendSQL e s (ss_Version st) cs ?U
        (others_seq e (stmts t) (seqs t)) = (Inr (x, view t'), sq)" by blast
    have "evts \<noteq> []" using False by simp
    from seats_step_append [OF assms(1,3,4) this assms(5-7) stored(1) cs(1) U app]
    show ?thesis using U by (blast intro: seats_step_trans)
  qed
qed

section \<open>In a quiet database\<close>

lemma quiet_LoadSeat:
  assumes "quiet e" "\<not> aborted t" "log_ok (view t)" "seat_messages L (view t) s = Inr ms"
    and "Fold L ms = Inr st"
  shows "LoadSeat L e s t =
    (Inr (st, last_meta (map (recorded s) (stream_rows (view t) s))), t\<lparr>stmts := Suc (stmts t)\<rparr>)"
  using assms
  by (simp add: LoadSeat_def bindE_def quiet_Load loadSQL_log_ok seat_messages_def liftE_def retE_def)

lemma calm_LoadSeat: "calm_at e (stmts t) \<Longrightarrow> LoadSeat L e s t = LoadSeat L (quieten e) s t"
  by (simp add: LoadSeat_def Load_def bindE_def wrapE_def calm_exec)

lemma encode_all_length: "encode_all L s meta evts = Inr stored \<Longrightarrow> length stored = length evts"
  by (induction evts arbitrary: stored) (auto split: sum.splits)

lemma encode_all_Nil_iff: "encode_all L s meta evts = Inr stored \<Longrightarrow> stored = [] \<longleftrightarrow> evts = []"
  by (cases evts) (auto split: sum.splits)

lemma quiet_AppendSeat:
  assumes "quiet e" "\<not> aborted t" "log_ok (view t)"
    and "encode_all L s meta evts = Inr stored" "storable e n stored"
    and "n = length (stream_rows (view t) s)"
  shows "\<exists>t'. AppendSeat L e s (int n) evts meta t = (Inr (), t') \<and> \<not> aborted t' \<and>
    pending t' = pending t \<and>
    view t' = (view t)\<lparr>events := events (view t) @
      append_rows e s (int n) (events_seq (seqs t)) (event_columns e stored)\<rparr>"
proof (cases "evts = []")
  case True
  then show ?thesis using assms encode_all_Nil_iff [OF assms(4)]
    by (simp add: AppendSeat_def retE_def event_columns_def)
next
  case False
  then show ?thesis using assms quiet_Append_ok [OF assms(1-3,5,6)] encode_all_Nil_iff [OF assms(4)]
    by (simp add: AppendSeat_def bindE_def liftE_def)
qed

lemma decode_stored_columns:
  assumes "codec_ok L e" "list_all is_seat_event evts" "encode_all L s meta evts = Inr stored"
    and "storable e n stored"
  shows "decode_all L s (map (recorded s) (append_rows e' s v g (event_columns e stored))) = Inr evts"
  using decode_appended [OF assms(1-3) storable_columns [OF assms(4)]] .

section \<open>Calls that succeeded\<close>

lemma AppendSeat_ok_cases:
  assumes "AppendSeat L e s v evts meta t = (Inr x, t')"
  obtains (none) "evts = []" "t' = t"
    | (appended) stored cs cs' where "evts \<noteq> []" "encode_all L s meta evts = Inr stored"
      "append_columns 0 stored = Inr cs" "jsonb_columns e cs = Some cs'"
      "appendSQL e s v cs (others e (stmts t) (seqs t) (view t)) (others_seq e (stmts t) (seqs t)) =
         (Inr ((), view t'), seqs t')"
      "view t' = (others e (stmts t) (seqs t) (view t))\<lparr>events :=
         events (others e (stmts t) (seqs t) (view t)) @
         append_rows e s v (events_seq (others_seq e (stmts t) (seqs t))) cs'\<rparr>"
proof (cases "evts = []")
  case True
  then show ?thesis using assms none by (simp add: AppendSeat_def)
next
  case False
  obtain stored where enc: "Inr stored = encode_all L s meta evts" and app: "Append e s v stored t = (Inr x, t')"
    using assms False by (auto simp: AppendSeat_def bindE_eq_Inr_iff)
  note stored = enc [symmetric] app
  have "stored \<noteq> []" using encode_all_Nil_iff [OF stored(1)] False by simp
  then obtain cs where cs: "append_columns 0 stored = Inr cs" "exec e (appendSQL e s v cs) t = (Inr x, t')"
    using stored(2) by (auto simp: Append_def split: sum.splits)
  note sql = exec_ok(5) [OF cs(2)]
  then obtain cs' where "jsonb_columns e cs = Some cs'"
      "view t' = (others e (stmts t) (seqs t) (view t))\<lparr>events :=
         events (others e (stmts t) (seqs t) (view t)) @
         append_rows e s v (events_seq (others_seq e (stmts t) (seqs t))) cs'\<rparr>"
    by (rule appendSQL_okD) blast
  then show ?thesis using appended [OF False stored(1) cs(1)] sql by simp
qed

lemma decode_all_mem:
  "decode_all L s (map (recorded s) rows) = Inr ms \<Longrightarrow> r \<in> set rows \<Longrightarrow>
     \<exists>m \<in> set ms. Decode L (rec_Event (recorded s r)) = Inr m"
  by (induction rows arbitrary: ms) (auto split: sum.splits)

lemma LoadSeat_loaded:
  assumes "LoadSeat L e s t = (Inr (st, m), t')" "log_ok (view t')"
  shows "\<exists>ms. seat_messages L (view t') s = Inr ms \<and> Fold L ms = Inr st"
proof -
  obtain rs where rs: "Load e s t = (Inr rs, t')" "\<exists>ms. decode_all L s rs = Inr ms \<and> Fold L ms = Inr st"
    using assms(1) unfolding LoadSeat_def bindE_eq_Inr_iff liftE_eq_iff retE_eq_iff by force
  then have "exec e (select_stmt (\<lambda>T. map (recorded s) (loadSQL s T))) t = (Inr rs, t')" by (simp add: Load_def)
  from exec_ok(5) [OF this] have "rs = map (recorded s) (stream_rows (view t') s)"
    using loadSQL_log_ok [OF assms(2)] by (auto simp: select_stmt_def)
  then show ?thesis using rs(2) by (simp add: seat_messages_def)
qed

section \<open>Tables for the witnesses\<close>

text \<open>One seat, held under \<open>h1\<close>.\<close>

definition held_columns :: columns where
  "held_columns = [(FullName (demo_held ''h1''), ''1'', [])]"

definition held_tables :: tables where
  "held_tables = empty_tables\<lparr>events := append_rows calm_env ''14A'' 0 0 held_columns\<rparr>"

lemma held_tables_rows: "stream_rows held_tables ''14A'' = append_rows calm_env ''14A'' 0 0 held_columns"
  by (simp add: held_tables_def stream_rows_def held_columns_def)

lemma held_tables_messages: "seat_messages demo_lib held_tables ''14A'' = Inr [demo_held ''h1'']"
  by (simp add: seat_messages_def held_tables_rows held_columns_def recorded_def Decode_def demo_lib_def
      table_lib_def)

lemma held_tables_fold: "Fold demo_lib [demo_held ''h1''] = Inr demo_state"
  by (simp add: Fold_def demo_held_def demo_state_def zero_SeatState_def demo_lib_def table_lib_def)

lemma held_tables_ok: "seats_ok demo_lib held_tables"
proof -
  have "seat_ok demo_lib held_tables ''14A''"
    by (simp add: seat_ok_def held_tables_messages valid_history_def demo_held_def)
  moreover have "versions_ok held_tables ''14A''"
    by (simp add: versions_ok_def held_tables_rows held_columns_def)
  moreover have "map ev_stream_id (events held_tables) = [''14A'']"
    by (simp add: held_tables_def held_columns_def)
  ultimately show ?thesis by (simp add: seats_ok_def log_ok_def)
qed

end
