(* ===== verification/Inbox.thy ===== *)
theory Inbox
  imports Database
begin

text \<open>
  \<^verbatim>\<open>internal/platform/inbox\<close>: the consumed-message record that turns a redelivery into a no-op, and
  its pruning. \<open>MarkConsumed\<close> and the timers' \<open>MarkFired\<close> share one contract, the locale
  \<open>claim_once\<close>, which is interpreted here on the real operation.
\<close>

definition inbox_key :: "inbox_row \<Rightarrow> string \<times> string \<times> string" where
  "inbox_key r = (ib_consumer r, ib_source r, ib_event_id r)"

text \<open>\<^verbatim>\<open>INSERT ... ON CONFLICT DO NOTHING\<close>, with the number of rows affected.\<close>

definition inbox_markSQL :: "env \<Rightarrow> string \<Rightarrow> string \<Rightarrow> string \<Rightarrow> tables \<Rightarrow> nat \<times> tables" where
  "inbox_markSQL e consumer source eventID T =
     (if list_ex (\<lambda>r. inbox_key r = (consumer, source, eventID)) (inbox T) then (0, T)
      else (1, T\<lparr>inbox := inbox T @
        [\<lparr>ib_consumer = consumer, ib_source = source, ib_event_id = eventID,
          ib_handled_at = now e\<rparr>]\<rparr>))"

definition MarkConsumed ::
  "env \<Rightarrow> string \<Rightarrow> string \<Rightarrow> string \<Rightarrow> tx \<Rightarrow> (error + bool) \<times> tx" where
  "MarkConsumed e consumer source eventID =
     (if consumer = [] \<or> source = [] \<or> eventID = [] then
        failE (ErrorNew (''inbox: consumer, source and event_id are all required (got ''
          @ quote consumer @ '', '' @ quote source @ '', '' @ quote eventID @ '')''))
      else
        bindE
          (wrapE (\<lambda>err. Errorf (''inbox: mark '' @ source @ ''/'' @ eventID @ '' for ''
              @ consumer @ '': '') err [])
            (exec e (update_stmt (inbox_markSQL e consumer source eventID))))
          (\<lambda>rowsAffected. retE (rowsAffected = 1)))"

definition inbox_pruneSQL :: "env \<Rightarrow> duration \<Rightarrow> tables \<Rightarrow> nat \<times> tables" where
  "inbox_pruneSQL e olderThan T =
     (length (filter (\<lambda>r. ib_handled_at r < now e - olderThan) (inbox T)),
      T\<lparr>inbox := filter (\<lambda>r. \<not> ib_handled_at r < now e - olderThan) (inbox T)\<rparr>)"

definition inbox_Prune :: "env \<Rightarrow> duration \<Rightarrow> database \<Rightarrow> (error + nat) \<times> database" where
  "inbox_Prune e olderThan =
     wrapE (\<lambda>err. Errorf ''inbox: prune: '' err [])
       (pool_exec e (update_stmt (inbox_pruneSQL e olderThan)))"

section \<open>Facts\<close>

definition consumed :: "tables \<Rightarrow> (string \<times> string \<times> string) set" where
  "consumed T = inbox_key ` set (inbox T)"

lemma inbox_markSQL_frame:
  "T' = snd (inbox_markSQL e c s i T) \<Longrightarrow>
     events T' = events T \<and> outbox T' = outbox T \<and> timers T' = timers T \<and>
     seat_availability T' = seat_availability T"
  by (simp add: inbox_markSQL_def)

lemma inbox_markSQL_rows:
  "fst (inbox_markSQL e c s i T) = (if (c, s, i) \<in> consumed T then 0 else 1)"
  by (force simp: inbox_markSQL_def consumed_def list_ex_iff)

lemma inbox_markSQL_consumed:
  "consumed (snd (inbox_markSQL e c s i T)) = insert (c, s, i) (consumed T)"
  by (auto simp: inbox_markSQL_def consumed_def list_ex_iff inbox_key_def)

lemma keeps_base_MarkConsumed [frame_intros]: "keeps (base_frame e) (MarkConsumed e c s i)"
  unfolding MarkConsumed_def by (auto intro!: frame_intros)

lemma inbox_markSQL_quieten [simp]: "inbox_markSQL (quieten e) = inbox_markSQL e"
  by (simp add: inbox_markSQL_def fun_eq_iff)

lemma alone_MarkConsumed [alone_intros]:
  "alone e \<Longrightarrow> succeeds_as (MarkConsumed e c s i) (MarkConsumed (quieten e) c s i)"
  by (auto simp: MarkConsumed_def intro!: alone_intros)

lemma quiet_MarkConsumed:
  assumes "quiet e" "\<not> aborted t" "c \<noteq> []" "s \<noteq> []" "i \<noteq> []"
  shows "MarkConsumed e c s i t =
    (Inr ((c, s, i) \<notin> consumed (view t)),
     t\<lparr>stmts := Suc (stmts t), view := snd (inbox_markSQL e c s i (view t))\<rparr>)"
  using assms
  by (simp add: MarkConsumed_def bindE_def wrapE_def quiet_exec_update inbox_markSQL_rows retE_def)

text \<open>A claim on the inbox: the mark, at a transaction that can still run statements.\<close>

definition inbox_claim :: "env \<Rightarrow> string \<times> string \<times> string \<Rightarrow> tx \<Rightarrow> bool \<times> tx" where
  "inbox_claim e k t =
     (case MarkConsumed (quieten e) (fst k) (fst (snd k)) (snd (snd k)) t of
        (Inl _, t') \<Rightarrow> (False, t')
      | (Inr b, t') \<Rightarrow> (b, t'))"

definition inbox_claimable :: "tx \<Rightarrow> string \<times> string \<times> string \<Rightarrow> bool" where
  "inbox_claimable t k \<longleftrightarrow>
     \<not> aborted t \<and> fst k \<noteq> [] \<and> fst (snd k) \<noteq> [] \<and> snd (snd k) \<noteq> []"

interpretation inbox_once: claim_once "inbox_claim e" "\<lambda>t. consumed (view t)" inbox_claimable for e
  by unfold_locales
    (auto simp: inbox_claim_def inbox_claimable_def quiet_MarkConsumed inbox_markSQL_consumed)

section \<open>Properties\<close>

text \<open>
  Consume once: the first delivery of a message to a consumer is reported as first, every
  later one is not, another consumer's first delivery of the same message still is, and none of
  the duplicates aborts the transaction or touches any other table.
\<close>

theorem MarkConsumed_once:
  assumes "quiet e" "\<not> aborted t" "c \<noteq> []" "c' \<noteq> []" "s \<noteq> []" "i \<noteq> []"
    and "(c, s, i) \<notin> consumed (view t)" "(c', s, i) \<notin> consumed (view t)" "c \<noteq> c'"
  shows "\<exists>t1 t2 t3. MarkConsumed e c s i t = (Inr True, t1) \<and>
    MarkConsumed e c s i t1 = (Inr False, t2) \<and> MarkConsumed e c' s i t2 = (Inr True, t3) \<and>
    \<not> aborted t3 \<and> consumed (view t3) = consumed (view t) \<union> {(c, s, i), (c', s, i)} \<and>
    events (view t3) = events (view t) \<and> outbox (view t3) = outbox (view t) \<and>
    timers (view t3) = timers (view t)"
  using assms
  by (auto simp: quiet_MarkConsumed inbox_markSQL_consumed inbox_markSQL_frame [OF refl])

theorem MarkConsumed_once_witness:
  "\<exists>t1 t2 t3. MarkConsumed calm_env ''p'' ''/s'' ''1'' (begin_tx empty_db) = (Inr True, t1) \<and>
    MarkConsumed calm_env ''p'' ''/s'' ''1'' t1 = (Inr False, t2) \<and>
    MarkConsumed calm_env ''q'' ''/s'' ''1'' t2 = (Inr True, t3)"
  using MarkConsumed_once [of calm_env "begin_tx empty_db" "''p''" "''q''" "''/s''" "''1''"]
  by (fastforce simp: consumed_def empty_db_def empty_tables_def)

text \<open>
  Pruning the inbox forgets exactly the rows older than the window: a message handled before
  it is deliverable again, one handled inside it is still refused.
\<close>

theorem inbox_Prune_window:
  assumes "quiet e" and "c \<noteq> []" "s \<noteq> []" "i \<noteq> []"
  shows "\<exists>n db' t. inbox_Prune e d db = (Inr n, db') \<and>
    MarkConsumed e c s i (begin_tx db') =
      (Inr (\<not> (\<exists>r \<in> set (inbox (tbl db)). inbox_key r = (c, s, i) \<and> now e - d \<le> ib_handled_at r)), t) \<and>
    n + length (inbox (tbl db')) = length (inbox (tbl db))"
proof -
  let ?db = "db\<lparr>tbl := snd (inbox_pruneSQL e d (tbl db))\<rparr>"
  have "inbox_Prune e d db = (Inr (fst (inbox_pruneSQL e d (tbl db))), ?db)"
    using assms(1)
    by (simp add: inbox_Prune_def wrapE_def pool_exec_def quiet_exec_update commit_tx_def Let_def
        interleave_def applied_tx_def quietD)
  moreover have "(c, s, i) \<notin> consumed (view (begin_tx ?db)) \<longleftrightarrow>
      \<not> (\<exists>r \<in> set (inbox (tbl db)). inbox_key r = (c, s, i) \<and> now e - d \<le> ib_handled_at r)"
    by (force simp: consumed_def inbox_pruneSQL_def)
  moreover have "fst (inbox_pruneSQL e d (tbl db)) + length (inbox (tbl ?db)) = length (inbox (tbl db))"
    using sum_length_filter_compl [of "\<lambda>r. ib_handled_at r < now e - d" "inbox (tbl db)"]
    by (simp add: inbox_pruneSQL_def)
  ultimately show ?thesis
    using assms quiet_MarkConsumed [of e "begin_tx ?db" c s i] by auto
qed

theorem inbox_Prune_window_witness:
  "\<exists>n db' t. inbox_Prune calm_env 10 empty_db = (Inr n, db') \<and>
    MarkConsumed calm_env ''p'' ''/s'' ''1'' (begin_tx db') = (Inr True, t)"
  using inbox_Prune_window [of calm_env "''p''" "''/s''" "''1''" 10 empty_db]
  by (auto simp: empty_db_def empty_tables_def)

end
