(* ===== verification/Envelope.thy ===== *)
theory Envelope
  imports Prelude
begin

text \<open>
  \<^verbatim>\<open>internal/platform/envelope\<close>: the identity of a message as CloudEvents headers, its rendering
  (\<open>Headers\<close>), its parsing (\<open>Parse\<close>), and the \<open>Message\<close> the outbox and the dead-letter path
  share. The identifiers themselves (\<^verbatim>\<open>uuid.NewV7\<close>) are third-party and are passed in by the
  operations that need one.
\<close>

section \<open>Data\<close>

record Envelope =
  env_ID :: string
  env_Source :: string
  env_Type :: string
  env_Subject :: string
  env_CorrelationID :: string
  env_CausationID :: string
  env_TraceParent :: string

record Message =
  msg_Topic :: string
  msg_Key :: string
  msg_Payload :: bytes
  msg_Headers :: gomap

definition SpecVersion :: string where
  "SpecVersion = ''1.0''"

definition ContentType :: string where
  "ContentType = ''application/protobuf''"

section \<open>Rendering and parsing\<close>

text \<open>The optional attributes are ranged over as a map; each is added only when it is not empty.\<close>

definition optional_headers :: "Envelope \<Rightarrow> gomap" where
  "optional_headers e =
     [(''ce_subject'', env_Subject e),
      (''ce_correlationid'', env_CorrelationID e),
      (''ce_causationid'', env_CausationID e),
      (''traceparent'', env_TraceParent e)]"

definition add_optional :: "string \<times> string \<Rightarrow> gomap \<Rightarrow> gomap" where
  "add_optional kv h = (if snd kv \<noteq> [] then AList.update (fst kv) (snd kv) h else h)"

definition Headers :: "Envelope \<Rightarrow> gomap" where
  "Headers e =
     fold add_optional (optional_headers e)
       [(''ce_specversion'', SpecVersion),
        (''ce_id'', env_ID e),
        (''ce_source'', env_Source e),
        (''ce_type'', env_Type e),
        (''content-type'', ContentType)]"

text \<open>The envelope the headers spell out, whatever is missing from them.\<close>

definition envelope_of :: "gomap \<Rightarrow> Envelope" where
  "envelope_of h =
     \<lparr>env_ID = map_get h ''ce_id'', env_Source = map_get h ''ce_source'',
      env_Type = map_get h ''ce_type'', env_Subject = map_get h ''ce_subject'',
      env_CorrelationID = map_get h ''ce_correlationid'',
      env_CausationID = map_get h ''ce_causationid'',
      env_TraceParent = map_get h ''traceparent''\<rparr>"

fun check_required :: "(string \<times> string) list \<Rightarrow> error option" where
  "check_required [] = None"
| "check_required ((key, value) # rest) =
     (if value = [] then Some (Errorf [] ErrMissingAttribute ('': '' @ key))
      else check_required rest)"

definition Parse :: "gomap \<Rightarrow> error + Envelope" where
  "Parse h =
     (let sv = map_get h ''ce_specversion'' in
      if sv = SpecVersion then
        (let e = envelope_of h in
         case check_required
             [(''ce_id'', env_ID e), (''ce_source'', env_Source e), (''ce_type'', env_Type e)] of
           Some err \<Rightarrow> Inl err
         | None \<Rightarrow> Inr e)
      else if sv = [] then Inl (Errorf [] ErrMissingAttribute '': ce_specversion'')
      else Inl (ErrorNew (''envelope: unsupported ce_specversion '' @ quote sv
                          @ '', want '' @ quote SpecVersion)))"

definition Validate :: "Message \<Rightarrow> error option" where
  "Validate m =
     (if msg_Topic m = [] then Some (ErrorNew ''no topic'')
      else if msg_Key m = [] then Some (ErrorNew ''no key'')
      else if msg_Payload m = [] then Some (ErrorNew ''no payload'')
      else None)"

section \<open>Facts\<close>

lemma SpecVersion_nonempty [simp]: "SpecVersion \<noteq> []"
  by (simp add: SpecVersion_def)

lemma map_of_add_optional [simp]:
  "map_of (add_optional (k, v) h) k' =
     (if k = k' then (if v = [] then map_of h k' else Some v) else map_of h k')"
  by (simp add: add_optional_def update_conv')

lemma map_of_Headers:
  "map_of (Headers e) ''ce_subject'' = (if env_Subject e = [] then None else Some (env_Subject e))"
  "map_of (Headers e) ''ce_correlationid'' =
     (if env_CorrelationID e = [] then None else Some (env_CorrelationID e))"
  "map_of (Headers e) ''ce_causationid'' =
     (if env_CausationID e = [] then None else Some (env_CausationID e))"
  "map_of (Headers e) ''traceparent'' =
     (if env_TraceParent e = [] then None else Some (env_TraceParent e))"
  "map_of (Headers e) ''ce_specversion'' = Some SpecVersion"
  "map_of (Headers e) ''ce_id'' = Some (env_ID e)"
  "map_of (Headers e) ''ce_source'' = Some (env_Source e)"
  "map_of (Headers e) ''ce_type'' = Some (env_Type e)"
  by (simp_all add: Headers_def optional_headers_def)

lemma map_get_Headers:
  "map_get (Headers e) ''ce_specversion'' = SpecVersion"
  "map_get (Headers e) ''ce_id'' = env_ID e"
  "map_get (Headers e) ''ce_source'' = env_Source e"
  "map_get (Headers e) ''ce_type'' = env_Type e"
  "map_get (Headers e) ''ce_subject'' = env_Subject e"
  "map_get (Headers e) ''ce_correlationid'' = env_CorrelationID e"
  "map_get (Headers e) ''ce_causationid'' = env_CausationID e"
  "map_get (Headers e) ''traceparent'' = env_TraceParent e"
  by (simp_all add: map_get_def map_of_Headers)

lemma envelope_of_Headers: "envelope_of (Headers e) = e"
  by (simp add: envelope_of_def map_get_Headers)

lemma map_get_eq_SpecVersionD: "map_get h k = SpecVersion \<Longrightarrow> map_get h k \<noteq> []"
  by simp

lemma Parse_ok_iff:
  "Parse h = Inr e \<longleftrightarrow>
     map_get h ''ce_specversion'' = SpecVersion \<and> map_get h ''ce_id'' \<noteq> [] \<and>
     map_get h ''ce_source'' \<noteq> [] \<and> map_get h ''ce_type'' \<noteq> [] \<and> e = envelope_of h"
  by (auto simp: Parse_def Let_def envelope_of_def)

lemma Parse_nonempty:
  "Parse h = Inr e \<Longrightarrow> env_ID e \<noteq> [] \<and> env_Source e \<noteq> [] \<and> env_Type e \<noteq> []"
  by (auto simp: Parse_ok_iff envelope_of_def)

lemma distinct_Headers: "distinct (map fst (Headers e))"
  by (simp add: Headers_def optional_headers_def add_optional_def distinct_update)

lemma Parse_cong: "map_of h = map_of h' \<Longrightarrow> Parse h = Parse h'"
proof -
  assume "map_of h = map_of h'"
  then have "map_get h = map_get h'" by (simp add: map_get_def fun_eq_iff)
  then show ?thesis by (simp add: Parse_def envelope_of_def Let_def)
qed

text \<open>
  Round trip of the envelope: the headers an envelope renders parse back to exactly that
  envelope, optional attributes included, whenever its id, source and type are set.
\<close>

theorem Parse_Headers:
  assumes "env_ID e \<noteq> []" and "env_Source e \<noteq> []" and "env_Type e \<noteq> []"
  shows "Parse (Headers e) = Inr e"
  using assms by (simp add: Parse_ok_iff map_get_Headers envelope_of_Headers)

theorem Parse_Headers_witness:
  "Parse (Headers \<lparr>env_ID = ''1'', env_Source = ''/s'', env_Type = ''T'', env_Subject = ''14A'',
      env_CorrelationID = [], env_CausationID = ''0'', env_TraceParent = []\<rparr>)
   = Inr \<lparr>env_ID = ''1'', env_Source = ''/s'', env_Type = ''T'', env_Subject = ''14A'',
      env_CorrelationID = [], env_CausationID = ''0'', env_TraceParent = []\<rparr>"
  by (rule Parse_Headers) simp_all

text \<open>
  What parsing accepts and refuses: an envelope comes back exactly when the specversion is
  the supported one and id, source and type are present and not empty; a missing or empty
  required attribute is reported as \<^verbatim>\<open>ErrMissingAttribute\<close>, and another specversion is refused
  without it.
\<close>

theorem Parse_spec:
  "case Parse h of
     Inr e \<Rightarrow> map_get h ''ce_specversion'' = SpecVersion \<and> e = envelope_of h \<and>
       env_ID e \<noteq> [] \<and> env_Source e \<noteq> [] \<and> env_Type e \<noteq> []
   | Inl err \<Rightarrow>
       errors_Is err ErrMissingAttribute =
         (map_get h ''ce_specversion'' = [] \<or>
          map_get h ''ce_specversion'' = SpecVersion \<and>
            [] \<in> {map_get h ''ce_id'', map_get h ''ce_source'', map_get h ''ce_type''})"
  by (auto simp: Parse_def Let_def envelope_of_def split: option.split)

text \<open>
  An optional attribute that is not set is absent from the headers, rather than present and
  empty.
\<close>

theorem Headers_optional_absent:
  "map_of (Headers e) ''ce_subject'' = (if env_Subject e = [] then None else Some (env_Subject e)) \<and>
   map_of (Headers e) ''ce_correlationid'' =
     (if env_CorrelationID e = [] then None else Some (env_CorrelationID e)) \<and>
   map_of (Headers e) ''ce_causationid'' =
     (if env_CausationID e = [] then None else Some (env_CausationID e)) \<and>
   map_of (Headers e) ''traceparent'' =
     (if env_TraceParent e = [] then None else Some (env_TraceParent e))"
  by (simp add: map_of_Headers)

lemma Validate_ok_iff:
  "Validate m = None \<longleftrightarrow> msg_Topic m \<noteq> [] \<and> msg_Key m \<noteq> [] \<and> msg_Payload m \<noteq> []"
  by (simp add: Validate_def)

end
