(* ===== verification/Outbox.thy ===== *)
theory Outbox
  imports Database Envelope
begin

text \<open>
  \<^verbatim>\<open>internal/platform/outbox/outbox.go\<close>: \<open>Enqueue\<close> writes outgoing messages into the caller's
  transaction and asks for a notification that is delivered only if it commits. A map of headers
  is stored as a JSONB object; \<^verbatim>\<open>json.Marshal\<close> of a map of strings returns no error.
\<close>

definition NotifyChannel :: string where
  "NotifyChannel = ''outbox''"

fun validate_messages :: "nat \<Rightarrow> Message list \<Rightarrow> error option" where
  "validate_messages i [] = None"
| "validate_messages i (m # ms) =
     (case Validate m of
        Some err \<Rightarrow>
          Some (Errorf (''outbox: message '' @ itoa (int i) @ '' for '' @ quote (msg_Topic m) @ '': '')
                  err [])
      | None \<Rightarrow> validate_messages (Suc i) ms)"

text \<open>The rows in the caller's order, with the ids the sequence hands out.\<close>

fun outbox_rows :: "int \<Rightarrow> Message list \<Rightarrow> outbox_row list" where
  "outbox_rows n [] = []"
| "outbox_rows n (m # ms) =
     \<lparr>ob_id = n + 1, ob_topic = msg_Topic m, ob_key = msg_Key m, ob_payload = msg_Payload m,
      ob_headers = msg_Headers m, ob_published_at = None\<rparr> # outbox_rows (n + 1) ms"

definition enqueueSQL :: "Message list \<Rightarrow> unit stmt" where
  "enqueueSQL ms T sq =
     (Inr ((), T\<lparr>outbox := outbox T @ outbox_rows (outbox_seq sq) ms\<rparr>),
      sq\<lparr>outbox_seq := outbox_seq sq + int (length ms)\<rparr>)"

definition Enqueue :: "env \<Rightarrow> Message list \<Rightarrow> tx \<Rightarrow> (error + unit) \<times> tx" where
  "Enqueue e msgs =
     (if msgs = [] then retE ()
      else
        (case validate_messages 0 msgs of
           Some err \<Rightarrow> failE err
         | None \<Rightarrow>
             bindE
               (wrapE (\<lambda>err. Errorf (''outbox: enqueue '' @ itoa (int (length msgs)) @ '' messages: '')
                   err [])
                 (exec e (enqueueSQL msgs)))
               (\<lambda>_. wrapE (\<lambda>err. Errorf ''outbox: notify: '' err []) (pg_notify e NotifyChannel))))"

section \<open>Facts\<close>

definition row_message :: "outbox_row \<Rightarrow> Message" where
  "row_message r =
     \<lparr>msg_Topic = ob_topic r, msg_Key = ob_key r, msg_Payload = ob_payload r,
      msg_Headers = ob_headers r\<rparr>"

lemma outbox_rows_messages [simp]: "map row_message (outbox_rows n ms) = ms"
  by (induction ms arbitrary: n) (auto simp: row_message_def)

lemma outbox_rows_ids: "map ob_id (outbox_rows n ms) = numbered n (length ms)"
  by (induction ms arbitrary: n) auto

lemma outbox_rows_unpublished: "r \<in> set (outbox_rows n ms) \<Longrightarrow> ob_published_at r = None"
  by (induction ms arbitrary: n) auto

lemma length_outbox_rows [simp]: "length (outbox_rows n ms) = length ms"
  by (induction ms arbitrary: n) auto

lemma validate_messages_None_iff:
  "validate_messages i ms = None \<longleftrightarrow> (\<forall>m \<in> set ms. Validate m = None)"
  by (induction ms arbitrary: i) (auto split: option.splits)

lemma draws_enqueueSQL [frame_intros]: "draws (enqueueSQL ms)"
  by (auto simp: draws_def enqueueSQL_def seqs_le_def)

lemma keeps_base_Enqueue [frame_intros]: "keeps (base_frame e) (Enqueue e msgs)"
  unfolding Enqueue_def by (auto intro!: frame_intros split: option.split)

lemma alone_Enqueue [alone_intros]: "alone e \<Longrightarrow> succeeds_as (Enqueue e ms) (Enqueue (quieten e) ms)"
  by (auto simp: Enqueue_def split: option.split intro!: alone_intros)

lemma quiet_Enqueue:
  assumes "quiet e" "\<not> aborted t" "\<forall>m \<in> set msgs. Validate m = None"
  shows "Enqueue e msgs t =
    (if msgs = [] then (Inr (), t)
     else (Inr (), t\<lparr>stmts := Suc (Suc (stmts t)),
       view := (view t)\<lparr>outbox := outbox (view t) @ outbox_rows (outbox_seq (seqs t)) msgs\<rparr>,
       seqs := (seqs t)\<lparr>outbox_seq := outbox_seq (seqs t) + int (length msgs)\<rparr>,
       pending := pending t @ [NotifyChannel]\<rparr>))"
  using assms
  by (auto simp: Enqueue_def retE_def validate_messages_None_iff [THEN iffD2] bindE_def wrapE_def
      quiet_exec enqueueSQL_def quiet_pg_notify)

text \<open>Whatever the server does, only the outbox and its sequence change.\<close>

lemma enqueueSQL_frame:
  "enqueueSQL ms T sq = (Inr (x, T'), sq') \<Longrightarrow>
     events T' = events T \<and> inbox T' = inbox T \<and> timers T' = timers T \<and>
     seat_availability T' = seat_availability T"
  by (auto simp: enqueueSQL_def)

text \<open>A call that succeeded: every message is in the outbox when the notification is asked for.\<close>

lemma Enqueue_ok_cases:
  assumes "Enqueue e msgs t = (Inr (), t')"
  obtains (none) "msgs = []" "t' = t"
    | (enqueued) t1 where "exec e (enqueueSQL msgs) t = (Inr (), t1)" "pg_notify e NotifyChannel t1 = (Inr (), t')"
      "validate_messages 0 msgs = None" "set msgs \<subseteq> row_message ` set (outbox (view t1))"
proof (cases "msgs = []")
  case True
  then show ?thesis using assms none by (simp add: Enqueue_def)
next
  case False
  then obtain t1 where run: "exec e (enqueueSQL msgs) t = (Inr (), t1)" "pg_notify e NotifyChannel t1 = (Inr (), t')"
      "validate_messages 0 msgs = None"
    using assms by (auto simp: Enqueue_def bindE_eq_Inr_iff split: option.splits)
  have "row_message ` set (outbox_rows n msgs) = set msgs" for n
    using outbox_rows_messages [of n msgs] by (metis image_set)
  moreover obtain U n where "view t1 = U\<lparr>outbox := outbox U @ outbox_rows n msgs\<rparr>"
    using exec_ok(5) [OF run(1)] by (auto simp: enqueueSQL_def dest: sym)
  ultimately have "set msgs \<subseteq> row_message ` set (outbox (view t1))" by (simp add: image_Un)
  then show ?thesis using enqueued run by blast
qed

end
