(* ===== verification/Timers.thy ===== *)
theory Timers
  imports Database
begin

text \<open>
  \<^verbatim>\<open>internal/platform/timers/timers.go\<close>: the \<^verbatim>\<open>timers\<close> table and the five statements on it.
  Scheduling and claiming happen inside the caller's transaction; reading what is due, the next
  deadline and pruning are single statements on the pool. A read that fails reports it from the
  query, from a scan or from \<^verbatim>\<open>rows.Err\<close>; the text of the query's error stands for all three.

  The claim is interpreted as an instance of \<open>claim_once\<close>, like the inbox's mark.
\<close>

record Timer =
  tr_ID :: int
  tr_FireAt :: time
  tr_Subject :: string
  tr_Token :: string

section \<open>Operations\<close>

definition scheduleSQL :: "env \<Rightarrow> time \<Rightarrow> string \<Rightarrow> string \<Rightarrow> unit stmt" where
  "scheduleSQL e fireAt subject token T sq =
     (Inr ((), T\<lparr>timers := timers T @
        [\<lparr>tm_id = timers_seq sq + 1, tm_fire_at = tstz e fireAt, tm_subject = subject,
          tm_token = token, tm_fired_at = None\<rparr>]\<rparr>),
      sq\<lparr>timers_seq := timers_seq sq + 1\<rparr>)"

definition Schedule :: "env \<Rightarrow> time \<Rightarrow> string \<Rightarrow> string \<Rightarrow> tx \<Rightarrow> (error + unit) \<times> tx" where
  "Schedule e fireAt subject token =
     wrapE (\<lambda>err. Errorf (''timers: schedule '' @ subject @ '' at '' @ fmt_time e fireAt @ '': '') err [])
       (exec e (scheduleSQL e fireAt subject token))"

definition timer_of :: "timer_row \<Rightarrow> Timer" where
  "timer_of r =
     \<lparr>tr_ID = tm_id r, tr_FireAt = tm_fire_at r, tr_Subject = tm_subject r, tr_Token = tm_token r\<rparr>"

definition is_due :: "env \<Rightarrow> timer_row \<Rightarrow> bool" where
  "is_due e r \<longleftrightarrow> tm_fired_at r = None \<and> tm_fire_at r \<le> now e"

definition dueSQL :: "env \<Rightarrow> nat \<Rightarrow> tables \<Rightarrow> timer_row list" where
  "dueSQL e limit T = take limit (sort_key tm_fire_at (filter (is_due e) (timers T)))"

definition Due :: "env \<Rightarrow> nat \<Rightarrow> database \<Rightarrow> (error + Timer list) \<times> database" where
  "Due e limit =
     wrapE (\<lambda>err. Errorf ''timers: read due: '' err [])
       (pool_exec e (select_stmt (\<lambda>T. map timer_of (dueSQL e limit T))))"

definition markFiredSQL :: "env \<Rightarrow> int \<Rightarrow> tables \<Rightarrow> nat \<times> tables" where
  "markFiredSQL e i T =
     (length (filter (\<lambda>r. tm_id r = i \<and> tm_fired_at r = None) (timers T)),
      T\<lparr>timers := map (\<lambda>r. if tm_id r = i \<and> tm_fired_at r = None
                          then r\<lparr>tm_fired_at := Some (now e)\<rparr> else r) (timers T)\<rparr>)"

definition MarkFired :: "env \<Rightarrow> int \<Rightarrow> tx \<Rightarrow> (error + bool) \<times> tx" where
  "MarkFired e i =
     bindE
       (wrapE (\<lambda>err. Errorf (''timers: claim '' @ itoa i @ '': '') err [])
         (exec e (update_stmt (markFiredSQL e i))))
       (\<lambda>rowsAffected. retE (rowsAffected = 1))"

text \<open>\<^verbatim>\<open>SELECT min(fire_at)\<close>: NULL when no row is pending.\<close>

definition nextDueSQL :: "tables \<Rightarrow> time option" where
  "nextDueSQL T =
     (case map tm_fire_at (filter (\<lambda>r. tm_fired_at r = None) (timers T)) of
        [] \<Rightarrow> None
      | t # ts \<Rightarrow> Some (foldl min t ts))"

definition NextDue :: "env \<Rightarrow> database \<Rightarrow> (error + time \<times> bool) \<times> database" where
  "NextDue e =
     bindE
       (wrapE (\<lambda>err. Errorf ''timers: next due: '' err []) (pool_exec e (select_stmt nextDueSQL)))
       (\<lambda>at. retE (case at of None \<Rightarrow> (0, False) | Some t \<Rightarrow> (t, True)))"

definition prunable :: "env \<Rightarrow> duration \<Rightarrow> timer_row \<Rightarrow> bool" where
  "prunable e olderThan r \<longleftrightarrow>
     (case tm_fired_at r of None \<Rightarrow> False | Some t \<Rightarrow> t \<le> now e - olderThan)"

definition timers_pruneSQL :: "env \<Rightarrow> duration \<Rightarrow> tables \<Rightarrow> nat \<times> tables" where
  "timers_pruneSQL e olderThan T =
     (length (filter (prunable e olderThan) (timers T)),
      T\<lparr>timers := filter (\<lambda>r. \<not> prunable e olderThan r) (timers T)\<rparr>)"

definition timers_Prune :: "env \<Rightarrow> duration \<Rightarrow> database \<Rightarrow> (error + nat) \<times> database" where
  "timers_Prune e olderThan =
     wrapE (\<lambda>err. Errorf ''timers: prune: '' err [])
       (pool_exec e (update_stmt (timers_pruneSQL e olderThan)))"

section \<open>Facts\<close>

definition timers_ok :: "tables \<Rightarrow> bool" where
  "timers_ok T \<longleftrightarrow> distinct (map tm_id (timers T))"

definition fired_ids :: "tables \<Rightarrow> int set" where
  "fired_ids T = tm_id ` {r \<in> set (timers T). tm_fired_at r \<noteq> None}"

lemma markFiredSQL_frame [simp]:
  "events (snd (markFiredSQL e i T)) = events T" "outbox (snd (markFiredSQL e i T)) = outbox T"
  "inbox (snd (markFiredSQL e i T)) = inbox T"
  "seat_availability (snd (markFiredSQL e i T)) = seat_availability T"
  by (simp_all add: markFiredSQL_def)

lemma markFiredSQL_ids [simp]:
  "map tm_id (timers (snd (markFiredSQL e i T))) = map tm_id (timers T)"
  by (simp add: markFiredSQL_def comp_def if_distrib cong: if_cong)

lemma distinct_filter_id:
  "distinct (map f xs) \<Longrightarrow> length (filter (\<lambda>x. f x = k \<and> P x) xs) =
     (if \<exists>x \<in> set xs. f x = k \<and> P x then 1 else 0)"
proof (induction xs)
  case (Cons x xs)
  then show ?case by (auto simp: filter_empty_conv image_iff)
qed simp

lemma fired_ids_iff:
  "i \<in> fired_ids T \<longleftrightarrow> (\<exists>r \<in> set (timers T). tm_id r = i \<and> tm_fired_at r \<noteq> None)"
  by (auto simp: fired_ids_def)

lemma pending_iff:
  assumes "timers_ok T" and "i \<in> tm_id ` set (timers T)"
  shows "(\<exists>r \<in> set (timers T). tm_id r = i \<and> tm_fired_at r = None) \<longleftrightarrow> i \<notin> fired_ids T"
proof -
  obtain r where r: "r \<in> set (timers T)" "tm_id r = i" using assms(2) by auto
  have inj: "inj_on tm_id (set (timers T))" using assms(1) by (simp add: timers_ok_def distinct_map)
  have uniq: "r' = r" if "r' \<in> set (timers T)" "tm_id r' = i" for r'
    by (rule inj_onD [OF inj _ that(1) r(1)]) (simp only: that r)
  have "(\<exists>x \<in> set (timers T). tm_id x = i \<and> P x) \<longleftrightarrow> P r" for P
    using r uniq by metis
  then show ?thesis unfolding fired_ids_iff by simp
qed

lemma markFiredSQL_rows:
  "timers_ok T \<Longrightarrow> i \<in> tm_id ` set (timers T) \<Longrightarrow>
     (fst (markFiredSQL e i T) = Suc 0) = (i \<notin> fired_ids T)"
  using pending_iff [of T i] distinct_filter_id [of tm_id "timers T" i "\<lambda>r. tm_fired_at r = None"]
  by (simp add: markFiredSQL_def timers_ok_def)

lemma markFiredSQL_fired:
  assumes "i \<in> tm_id ` set (timers T)"
  shows "fired_ids (snd (markFiredSQL e i T)) = insert i (fired_ids T)"
proof (rule set_eqI)
  fix k
  let ?upd = "\<lambda>r. if tm_id r = i \<and> tm_fired_at r = None then r\<lparr>tm_fired_at := Some (now e)\<rparr> else r"
  have upd: "timers (snd (markFiredSQL e i T)) = map ?upd (timers T)"
    by (simp add: markFiredSQL_def)
  have "k \<in> fired_ids (snd (markFiredSQL e i T)) \<longleftrightarrow>
      (\<exists>r \<in> set (timers T). tm_id (?upd r) = k \<and> tm_fired_at (?upd r) \<noteq> None)"
    unfolding fired_ids_iff upd set_map by blast
  also have "\<dots> \<longleftrightarrow> (\<exists>r \<in> set (timers T). tm_id r = k \<and> (k = i \<or> tm_fired_at r \<noteq> None))"
    by (intro bex_cong refl) auto
  also have "\<dots> \<longleftrightarrow> k \<in> insert i (fired_ids T)"
    using assms by (auto simp: fired_ids_iff)
  finally show "k \<in> fired_ids (snd (markFiredSQL e i T)) \<longleftrightarrow> k \<in> insert i (fired_ids T)" .
qed

lemma draws_scheduleSQL [frame_intros]: "draws (scheduleSQL e t s k)"
  by (auto simp: draws_def scheduleSQL_def seqs_le_def)

lemma markFired_none:
  assumes "timers_ok T" "fst (markFiredSQL e i T) \<noteq> 1"
  shows "snd (markFiredSQL e i T) = T"
proof -
  have "filter (\<lambda>r. tm_id r = i \<and> tm_fired_at r = None) (timers T) = []"
    using distinct_filter_id [of tm_id "timers T" i "\<lambda>r. tm_fired_at r = None"] assms
    by (auto simp: markFiredSQL_def timers_ok_def filter_empty_conv split: if_splits)
  then have "timers (snd (markFiredSQL e i T)) = timers T"
    by (auto simp: markFiredSQL_def filter_empty_conv intro!: map_idI)
  then show ?thesis by (simp add: markFiredSQL_def)
qed

lemma keeps_base_Schedule [frame_intros]: "keeps (base_frame e) (Schedule e t s k)"
  unfolding Schedule_def by (auto intro!: frame_intros)

lemma keeps_base_MarkFired [frame_intros]: "keeps (base_frame e) (MarkFired e i)"
  unfolding MarkFired_def by (auto intro!: frame_intros)

lemma alone_Schedule [alone_intros]:
  "alone e \<Longrightarrow> succeeds_as (Schedule e fa s k) (Schedule (quieten e) fa s k)"
proof -
  have "scheduleSQL (quieten e) fa s k = scheduleSQL e fa s k"
    by (simp add: scheduleSQL_def fun_eq_iff)
  then show "alone e \<Longrightarrow> ?thesis" by (auto simp: Schedule_def intro!: alone_intros)
qed

lemma alone_MarkFired [alone_intros]:
  "alone e \<Longrightarrow> succeeds_as (MarkFired e i) (MarkFired (quieten e) i)"
proof -
  have "markFiredSQL (quieten e) i = markFiredSQL e i"
    by (simp add: markFiredSQL_def fun_eq_iff)
  then show "alone e \<Longrightarrow> ?thesis" by (auto simp: MarkFired_def intro!: alone_intros)
qed

lemma quiet_Schedule:
  assumes "quiet e" "\<not> aborted t"
  shows "Schedule e fa s k t =
    (Inr (), t\<lparr>stmts := Suc (stmts t),
       view := (view t)\<lparr>timers := timers (view t) @
         [\<lparr>tm_id = timers_seq (seqs t) + 1, tm_fire_at = tstz e fa, tm_subject = s, tm_token = k,
           tm_fired_at = None\<rparr>]\<rparr>,
       seqs := (seqs t)\<lparr>timers_seq := timers_seq (seqs t) + 1\<rparr>\<rparr>)"
  using assms by (simp add: Schedule_def wrapE_def quiet_exec scheduleSQL_def)

lemma quiet_MarkFired:
  assumes "quiet e" "\<not> aborted t"
  shows "MarkFired e i t =
    (Inr (fst (markFiredSQL e i (view t)) = 1),
     t\<lparr>stmts := Suc (stmts t), view := snd (markFiredSQL e i (view t))\<rparr>)"
  using assms by (simp add: MarkFired_def bindE_def wrapE_def quiet_exec_update retE_def)

lemma MarkFired_ok:
  assumes "MarkFired e i t = (Inr got, t')"
  defines "U \<equiv> others e (stmts t) (seqs t) (view t)" and "V \<equiv> others_seq e (stmts t) (seqs t)"
  shows "view t' = snd (markFiredSQL e i U)" "seqs t' = V" "got = (fst (markFiredSQL e i U) = 1)"
proof -
  obtain n where n: "exec e (update_stmt (markFiredSQL e i)) t = (Inr n, t')" "got = (n = 1)"
    using assms(1) by (auto simp: MarkFired_def bindE_eq_Inr_iff)
  then show "view t' = snd (markFiredSQL e i U)" "seqs t' = V" "got = (fst (markFiredSQL e i U) = 1)"
    using exec_ok(5) [OF n(1)] by (auto simp: update_stmt_def U_def V_def)
qed

lemma quiet_pool_select:
  assumes "quiet e"
  shows "pool_exec e (select_stmt f) db = (Inr (f (tbl db)), db)"
  using assms
  by (simp add: pool_exec_def quiet_exec_select commit_tx_def Let_def interleave_def
      applied_tx_def quietD)

lemma quiet_pool_update:
  assumes "quiet e"
  shows "pool_exec e (update_stmt f) db = (Inr (fst (f (tbl db))), db\<lparr>tbl := snd (f (tbl db))\<rparr>)"
  using assms
  by (simp add: pool_exec_def quiet_exec_update commit_tx_def Let_def interleave_def
      applied_tx_def quietD)

text \<open>A claim on a timer, at a transaction that can still run statements.\<close>

definition timer_claim :: "env \<Rightarrow> int \<Rightarrow> tx \<Rightarrow> bool \<times> tx" where
  "timer_claim e i t =
     (case MarkFired (quieten e) i t of (Inl _, t') \<Rightarrow> (False, t') | (Inr b, t') \<Rightarrow> (b, t'))"

definition timer_claimable :: "tx \<Rightarrow> int \<Rightarrow> bool" where
  "timer_claimable t i \<longleftrightarrow>
     \<not> aborted t \<and> timers_ok (view t) \<and> i \<in> set (map tm_id (timers (view t)))"

interpretation timer_once: claim_once "timer_claim e" "\<lambda>t. fired_ids (view t)" timer_claimable for e
proof
  fix t k k'
  assume c: "timer_claimable t k"
  show "fst (timer_claim e k t) = (k \<notin> fired_ids (view t))"
    using c by (simp add: timer_claim_def timer_claimable_def quiet_MarkFired markFiredSQL_rows)
  show "fired_ids (view (snd (timer_claim e k t))) = insert k (fired_ids (view t))"
    using c by (simp add: timer_claim_def timer_claimable_def quiet_MarkFired markFiredSQL_fired)
  have "map tm_id (timers (view (snd (timer_claim e k t)))) = map tm_id (timers (view t))"
    "aborted (snd (timer_claim e k t)) = aborted t"
    using c by (simp_all add: timer_claim_def timer_claimable_def quiet_MarkFired)
  then show "timer_claimable (snd (timer_claim e k t)) k' = timer_claimable t k'"
    by (simp only: timer_claimable_def timers_ok_def)
qed

lemma foldl_min_le: "foldl min t ts \<le> t \<and> (\<forall>x \<in> set ts. foldl min t ts \<le> x)"
  for t :: int
proof (induction ts arbitrary: t)
  case (Cons a ts)
  have "foldl min (min t a) ts \<le> min t a" using Cons by blast
  moreover have "\<forall>x \<in> set ts. foldl min (min t a) ts \<le> x" using Cons by blast
  ultimately show ?case by auto
qed simp

lemma foldl_min_in: "foldl min t ts = t \<or> foldl min t ts \<in> set ts"
  for t :: int
proof (induction ts arbitrary: t)
  case (Cons a ts)
  have "foldl min (min t a) ts = min t a \<or> foldl min (min t a) ts \<in> set ts" using Cons by blast
  moreover have "min t a = t \<or> min t a = a" by linarith
  ultimately show ?case by auto
qed simp

lemma nextDueSQL_spec:
  "case nextDueSQL T of
     None \<Rightarrow> \<forall>r \<in> set (timers T). tm_fired_at r \<noteq> None
   | Some m \<Rightarrow> (\<exists>r \<in> set (timers T). tm_fired_at r = None \<and> tm_fire_at r = m) \<and>
       (\<forall>r \<in> set (timers T). tm_fired_at r = None \<longrightarrow> m \<le> tm_fire_at r)"
proof (cases "map tm_fire_at (filter (\<lambda>r. tm_fired_at r = None) (timers T))")
  case Nil
  then show ?thesis by (auto simp: nextDueSQL_def filter_empty_conv)
next
  case (Cons t ts)
  have set_eq: "set (t # ts) = tm_fire_at ` {r \<in> set (timers T). tm_fired_at r = None}"
    by (simp flip: Cons)
  have "foldl min t ts \<in> set (t # ts)" using foldl_min_in [of t ts] by auto
  moreover have "\<forall>x \<in> set (t # ts). foldl min t ts \<le> x" using foldl_min_le [of t ts] by simp
  ultimately show ?thesis using Cons unfolding set_eq by (auto simp: nextDueSQL_def)
qed

section \<open>Properties\<close>

text \<open>
  What \<open>Due\<close> returns: only pending timers whose deadline the database clock has reached,
  earliest deadline first, at most the limit, and none is left out in favour of a later one; it
  claims nothing.
\<close>

theorem Due_spec:
  assumes "quiet e"
  shows "\<exists>rs. Due e limit db = (Inr (map timer_of rs), db) \<and> length rs \<le> limit \<and>
    set rs \<subseteq> {r \<in> set (timers (tbl db)). tm_fired_at r = None \<and> tm_fire_at r \<le> now e} \<and>
    sorted (map tm_fire_at rs) \<and>
    (\<forall>r \<in> set (timers (tbl db)). tm_fired_at r = None \<and> tm_fire_at r \<le> now e \<and> r \<notin> set rs \<longrightarrow>
       length rs = limit \<and> (\<forall>r' \<in> set rs. tm_fire_at r' \<le> tm_fire_at r))"
proof -
  let ?all = "sort_key tm_fire_at (filter (is_due e) (timers (tbl db)))"
  let ?rs = "take limit ?all"
  have sorted: "sorted (map tm_fire_at (take limit ?all @ drop limit ?all))" by simp
  have late: "length ?rs = limit \<and> (\<forall>r' \<in> set ?rs. tm_fire_at r' \<le> tm_fire_at r)"
    if "r \<in> set ?all" "r \<notin> set ?rs" for r
  proof -
    have "r \<in> set (drop limit ?all)"
      using that by (metis Un_iff append_take_drop_id set_append)
    then show ?thesis using sorted unfolding map_append sorted_append by (auto simp: min_def)
  qed
  have "Due e limit db = (Inr (map timer_of ?rs), db)"
    using assms by (simp add: Due_def wrapE_def quiet_pool_select dueSQL_def)
  moreover have "set ?rs \<subseteq> set ?all" by (rule set_take_subset)
  moreover have "sorted (map tm_fire_at ?rs)" by (simp add: take_map [symmetric] sorted_wrt_take)
  ultimately show ?thesis using late
    by (intro exI [of _ ?rs]) (auto simp: is_due_def)
qed

theorem Due_spec_witness:
  "\<exists>rs. Due calm_env 100 empty_db = (Inr (map timer_of rs), empty_db) \<and> length rs \<le> 100"
  using Due_spec [OF quiet_calm_env, of 100 empty_db] by blast

text \<open>
  A timer is claimed once: of any number of attempts on a row that is there, exactly the first
  one that finds it pending wins, and claiming one timer decides nothing about another.
\<close>

theorem MarkFired_once:
  assumes "quiet e" "\<not> aborted t" "timers_ok (view t)" "{i, j} \<subseteq> tm_id ` set (timers (view t))"
    and "i \<notin> fired_ids (view t)" "i \<noteq> j"
  shows "\<exists>t1 t2. MarkFired e i t = (Inr True, t1) \<and> MarkFired e i t1 = (Inr False, t2) \<and>
    fst (MarkFired e j t1) = fst (MarkFired e j t) \<and>
    fired_ids (view t2) = insert i (fired_ids (view t)) \<and> events (view t2) = events (view t)"
proof -
  let ?claim = "\<lambda>t. t\<lparr>stmts := Suc (stmts t), view := snd (markFiredSQL e i (view t))\<rparr>"
  have run: "MarkFired e k u = (Inr (k \<notin> fired_ids (view u)),
      u\<lparr>stmts := Suc (stmts u), view := snd (markFiredSQL e k (view u))\<rparr>)"
    if "\<not> aborted u" "timers_ok (view u)" "k \<in> tm_id ` set (timers (view u))" for u k
    using that assms(1) by (simp add: quiet_MarkFired markFiredSQL_rows)
  have ids: "map tm_id (timers (view (?claim t))) = map tm_id (timers (view t))" by simp
  have ok: "timers_ok (view (?claim t))" using assms(3) ids by (simp only: timers_ok_def)
  have mem: "k \<in> tm_id ` set (timers (view (?claim t)))" if "k \<in> {i, j}" for k
    using that assms(4) ids by (metis image_set subsetD)
  have fired: "fired_ids (view (?claim t)) = insert i (fired_ids (view t))"
    "fired_ids (view (?claim (?claim t))) = insert i (fired_ids (view t))"
    using assms(4) mem [of i] by (simp_all add: markFiredSQL_fired)
  have first: "MarkFired e i t = (Inr True, ?claim t)" using run [of t i] assms by simp
  have "MarkFired e i (?claim t) = (Inr (i \<notin> fired_ids (view (?claim t))), ?claim (?claim t))"
    using assms(2) ok mem [of i] by (intro run) simp_all
  then have second: "MarkFired e i (?claim t) = (Inr False, ?claim (?claim t))"
    by (simp only: fired) simp
  have "fst (MarkFired e j (?claim t)) = Inr (j \<notin> fired_ids (view (?claim t)))"
    using run [of "?claim t" j] assms(2) ok mem [of j] by simp
  then have "fst (MarkFired e j (?claim t)) = fst (MarkFired e j t)"
    using run [of t j] assms by (simp only: fired) simp
  with first second fired show ?thesis by (intro exI [of _ "?claim t"] exI [of _ "?claim (?claim t)"]) simp
qed

definition demo_timer :: "int \<Rightarrow> time \<Rightarrow> timer_row" where
  "demo_timer i at =
     \<lparr>tm_id = i, tm_fire_at = at, tm_subject = ''14A'', tm_token = ''h1'', tm_fired_at = None\<rparr>"

definition timers_db :: database where
  "timers_db = empty_db\<lparr>tbl := empty_tables\<lparr>timers := [demo_timer 1 900, demo_timer 2 950]\<rparr>\<rparr>"

theorem MarkFired_once_witness:
  "\<exists>t1 t2. MarkFired calm_env 1 (begin_tx timers_db) = (Inr True, t1) \<and>
    MarkFired calm_env 1 t1 = (Inr False, t2)"
  using MarkFired_once [of calm_env "begin_tx timers_db" 1 2]
  by (fastforce simp: timers_db_def timers_ok_def fired_ids_def demo_timer_def)

text \<open>
  Pruning never touches a pending timer: \<open>Prune\<close> deletes exactly the timers fired at least the
  given time ago, counts them, and leaves every other row as it was, so \<open>NextDue\<close> is unchanged.
\<close>

theorem timers_Prune_keeps_pending:
  assumes "quiet e"
  shows "\<exists>n db'. timers_Prune e d db = (Inr n, db') \<and>
    set (timers (tbl db')) =
      {r \<in> set (timers (tbl db)). \<forall>t. tm_fired_at r = Some t \<longrightarrow> now e - d < t} \<and>
    n + length (timers (tbl db')) = length (timers (tbl db)) \<and>
    fst (NextDue e db') = fst (NextDue e db)"
proof -
  let ?T = "tbl db" and ?T' = "snd (timers_pruneSQL e d (tbl db))"
  have "filter (\<lambda>r. tm_fired_at r = None) (timers ?T') = filter (\<lambda>r. tm_fired_at r = None) (timers ?T)"
    by (auto simp: timers_pruneSQL_def prunable_def intro!: filter_cong)
  then have "nextDueSQL ?T' = nextDueSQL ?T" by (simp add: nextDueSQL_def)
  moreover have "length (filter (prunable e d) (timers ?T)) + length (timers ?T') = length (timers ?T)"
    using sum_length_filter_compl [of "prunable e d" "timers ?T"] by (simp add: timers_pruneSQL_def)
  moreover have "set (timers ?T') =
      {r \<in> set (timers ?T). \<forall>t. tm_fired_at r = Some t \<longrightarrow> now e - d < t}"
    by (auto simp: timers_pruneSQL_def prunable_def split: option.splits)
  ultimately show ?thesis
    using assms
    by (simp add: timers_Prune_def NextDue_def wrapE_def bindE_def retE_def quiet_pool_update
        quiet_pool_select) (simp add: timers_pruneSQL_def)
qed

theorem timers_Prune_keeps_pending_witness:
  "\<exists>n db'. timers_Prune calm_env 10 timers_db = (Inr n, db') \<and>
    fst (NextDue calm_env db') = fst (NextDue calm_env timers_db)"
  using timers_Prune_keeps_pending [OF quiet_calm_env, of 10 timers_db] by blast

end
