(* ===== verification/Commands.thy ===== *)
theory Commands
  imports SeatStore Inbox Outbox Timers
begin

text \<open>
  \<^verbatim>\<open>internal/inventory/commands.go\<close>: one command, one seat, one transaction. The Encoder that frames
  an event for the wire is the parameter \<open>enc\<close>; the ids \<^verbatim>\<open>envelope.NewID\<close> draws are the sequence
  \<open>ids\<close>, one per message of a call. \<open>Handle\<close> runs each attempt in its own environment.
\<close>

definition CommandsTopic :: string where
  "CommandsTopic = ''inventory.commands''"

definition EventsTopic :: string where
  "EventsTopic = ''inventory.events''"

definition Source :: string where
  "Source = ''/sagaflow/inventory''"

definition Consumer :: string where
  "Consumer = ''inventory.commands''"

definition ConflictRetries :: nat where
  "ConflictRetries = 3"

type_synonym encoder = "message \<Rightarrow> error + bytes"
type_synonym id_supply = "nat \<Rightarrow> string"

section \<open>Operations\<close>

fun scheduleTimers :: "env \<Rightarrow> string \<Rightarrow> SeatTimer list \<Rightarrow> tx \<Rightarrow> (error + unit) \<times> tx" where
  "scheduleTimers e seatID [] = retE ()"
| "scheduleTimers e seatID (t # ts) =
     bindE (Schedule e (st_FireAt t) seatID (st_Token t)) (\<lambda>_. scheduleTimers e seatID ts)"

definition outgoing_message :: "string \<Rightarrow> Envelope \<Rightarrow> message \<Rightarrow> bytes \<Rightarrow> Message" where
  "outgoing_message newID tmpl m payload =
     (let e = tmpl\<lparr>env_ID := newID, env_Type := TypeName m\<rparr>
      in \<lparr>msg_Topic = EventsTopic, msg_Key = env_Subject e, msg_Payload = payload,
          msg_Headers = Headers e\<rparr>)"

fun outgoing_from ::
  "encoder \<Rightarrow> id_supply \<Rightarrow> nat \<Rightarrow> Envelope \<Rightarrow> message list \<Rightarrow> error + Message list" where
  "outgoing_from enc ids i tmpl [] = Inr []"
| "outgoing_from enc ids i tmpl (m # ms) =
     (case enc m of
        Inl err \<Rightarrow> Inl (Errorf (''inventory: frame '' @ TypeName m @ '': '') err [])
      | Inr payload \<Rightarrow>
          (case outgoing_from enc ids (Suc i) tmpl ms of
             Inl err \<Rightarrow> Inl err
           | Inr out \<Rightarrow> Inr (outgoing_message (ids i) tmpl m payload # out)))"

definition outgoing ::
  "encoder \<Rightarrow> id_supply \<Rightarrow> message list \<Rightarrow> Envelope \<Rightarrow> error + Message list" where
  "outgoing enc ids msgs tmpl = outgoing_from enc ids 0 tmpl msgs"

definition command_meta :: "Envelope \<Rightarrow> Meta" where
  "command_meta incoming =
     \<lparr>meta_TraceID = [], meta_CorrelationID = env_CorrelationID incoming,
      meta_CausationID = env_ID incoming\<rparr>"

definition reply_envelope :: "Envelope \<Rightarrow> string \<Rightarrow> Envelope" where
  "reply_envelope incoming seatID =
     \<lparr>env_ID = [], env_Source = Source, env_Type = [], env_Subject = seatID,
      env_CorrelationID = env_CorrelationID incoming, env_CausationID = env_ID incoming,
      env_TraceParent = env_TraceParent incoming\<rparr>"

text \<open>The closure \<open>applyInOneTransaction\<close> passes to \<open>WithTx\<close>.\<close>

definition applyCommand ::
  "protolib \<Rightarrow> encoder \<Rightarrow> env \<Rightarrow> id_supply \<Rightarrow> Envelope \<Rightarrow> message \<Rightarrow> string \<Rightarrow> tx \<Rightarrow> (error + unit) \<times> tx" where
  "applyCommand L enc e ids incoming cmd seatID =
     bindE (MarkConsumed e Consumer (env_Source incoming) (env_ID incoming)) (\<lambda>firstDelivery.
     if \<not> firstDelivery then retE ()
     else
       bindE (LoadSeat L e seatID) (\<lambda>loaded.
       bindE (liftE (Decide L (fst loaded) cmd)) (\<lambda>decision.
       bindE (AppendSeat L e seatID (ss_Version (fst loaded)) (out_Events decision)
                (command_meta incoming)) (\<lambda>_.
       bindE (scheduleTimers e seatID (out_Timers decision)) (\<lambda>_.
       bindE (liftE (outgoing enc ids (Messages decision) (reply_envelope incoming seatID))) (\<lambda>msgs.
       Enqueue e msgs))))))"

definition applyInOneTransaction ::
  "protolib \<Rightarrow> encoder \<Rightarrow> env \<Rightarrow> id_supply \<Rightarrow> Envelope \<Rightarrow> message \<Rightarrow> database \<Rightarrow>
     (error + unit) \<times> database" where
  "applyInOneTransaction L enc e ids incoming cmd db =
     (case SeatID cmd of
        Inl err \<Rightarrow> (Inl err, db)
      | Inr seatID \<Rightarrow> WithTx e (applyCommand L enc e ids incoming cmd seatID) db)"

text \<open>\<^verbatim>\<open>for range ConflictRetries + 1\<close>; the second component counts the attempts made.\<close>

fun attempts ::
  "protolib \<Rightarrow> encoder \<Rightarrow> (nat \<Rightarrow> env) \<Rightarrow> (nat \<Rightarrow> id_supply) \<Rightarrow> Envelope \<Rightarrow> message \<Rightarrow>
     nat \<Rightarrow> nat \<Rightarrow> error \<Rightarrow> database \<Rightarrow> (error + unit) \<times> nat \<times> database" where
  "attempts L enc envs ids incoming cmd i 0 err db =
     (Inl (Errorf (''inventory: '' @ env_Type incoming @ '' on '' @ env_Subject incoming @ '' after ''
             @ itoa (int ConflictRetries) @ '' retries: '') err []), i, db)"
| "attempts L enc envs ids incoming cmd i (Suc n) err db =
     (case applyInOneTransaction L enc (envs i) (ids i) incoming cmd db of
        (Inr _, db') \<Rightarrow> (Inr (), Suc i, db')
      | (Inl err', db') \<Rightarrow>
          if errors_Is err' ErrVersionConflict
          then attempts L enc envs ids incoming cmd (Suc i) n err' db'
          else (Inl err', Suc i, db'))"

definition Handle ::
  "protolib \<Rightarrow> encoder \<Rightarrow> (nat \<Rightarrow> env) \<Rightarrow> (nat \<Rightarrow> id_supply) \<Rightarrow> Envelope \<Rightarrow> message \<Rightarrow> database \<Rightarrow>
     (error + unit) \<times> nat \<times> database" where
  "Handle L enc envs ids incoming cmd db =
     attempts L enc envs ids incoming cmd 0 (ConflictRetries + 1) (ErrorNew []) db"

section \<open>What a command can do to the streams\<close>

lemma keeps_base_scheduleTimers [frame_intros]: "keeps (base_frame e) (scheduleTimers e s ts)"
  by (induction ts) (auto intro!: frame_intros)

lemma keeps_base_applyCommand [frame_intros]:
  "keeps (base_frame e) (applyCommand L enc e ids inc cmd s)"
proof -
  have "keeps (base_frame e)
    (if \<not> first then retE () else bindE (LoadSeat L e s) (\<lambda>loaded.
       bindE (liftE (Decide L (fst loaded) cmd)) (\<lambda>decision.
       bindE (AppendSeat L e s (ss_Version (fst loaded)) (out_Events decision) (command_meta inc)) (\<lambda>_.
       bindE (scheduleTimers e s (out_Timers decision)) (\<lambda>_.
       bindE (liftE (outgoing enc ids (Messages decision) (reply_envelope inc s))) (\<lambda>msgs.
       Enqueue e msgs))))))" for first
    by (auto intro!: frame_intros)
  then show ?thesis unfolding applyCommand_def by (intro frame_intros)
qed

lemma alone_scheduleTimers [alone_intros]:
  "alone e \<Longrightarrow> succeeds_as (scheduleTimers e s ts) (scheduleTimers (quieten e) s ts)"
  by (induction ts) (auto intro!: alone_intros)

lemma alone_applyCommand [alone_intros]:
  "alone e \<Longrightarrow> succeeds_as (applyCommand L enc e ids inc cmd s) (applyCommand L enc (quieten e) ids inc cmd s)"
  unfolding applyCommand_def by (auto intro!: alone_intros)

lemma keeps_seats_MarkConsumed:
  assumes "seats_rely L e"
  shows "keeps (view_frame (seats_step L)) (MarkConsumed e c s i)"
  unfolding MarkConsumed_def
  by (auto intro!: seats_frame.keeps_seq keeps_seats_exec [OF assms]
      simp: update_stmt_def inbox_markSQL_def split: if_splits)

lemma keeps_seats_scheduleTimers:
  assumes "seats_rely L e"
  shows "keeps (view_frame (seats_step L)) (scheduleTimers e s ts)"
  by (induction ts)
    (auto intro!: seats_frame.keeps_seq keeps_seats_exec [OF assms] simp: Schedule_def scheduleSQL_def)

lemma keeps_seats_Enqueue:
  assumes "seats_rely L e"
  shows "keeps (view_frame (seats_step L)) (Enqueue e ms)"
  unfolding Enqueue_def
  by (auto intro!: seats_frame.keeps_seq keeps_seats_exec [OF assms] keeps_seats_pg_notify [OF assms]
      simp: enqueueSQL_def split: option.split)

lemma keeps_seats_LoadSeat:
  assumes "seats_rely L e"
  shows "keeps (view_frame (seats_step L)) (LoadSeat L e s)"
  unfolding LoadSeat_def Load_def
  by (auto intro!: seats_frame.keeps_seq keeps_seats_exec [OF assms] simp: select_stmt_def)

lemma Decide_events:
  assumes "Decide L st cmd = Inr out" "seat_wf st"
  shows "list_all is_seat_event (out_Events out)" "live_after (live_hold st) (out_Events out) \<noteq> None"
proof -
  show "list_all is_seat_event (out_Events out)"
    using assms(1) by (cases cmd) (auto simp: outcome_defs)
  show "live_after (live_hold st) (out_Events out) \<noteq> None"
    using input_events_valid [OF assms(2), of L "Command cmd"] assms(1) by simp
qed

text \<open>
  Load, decide and append as one piece: from any view in which the streams are in order it leaves
  them in order, for every sequel that does not touch the events table.
\<close>

lemma append_then_step:
  assumes "bindE (AppendSeat L e s v evts meta) (\<lambda>_. k) t = (r, t')" "keeps (view_frame (seats_step L)) k"
    and step: "\<And>r2 t2. AppendSeat L e s v evts meta t = (r2, t2) \<Longrightarrow> seats_step L (view t) (view t2)"
  shows "seats_step L (view t) (view t')"
  using assms(1)
proof (cases rule: bindE_cases)
  case (err e0)
  then show ?thesis using step by blast
next
  case (ok x t2)
  then have "seats_step L (view t2) (view t')" using keeps_viewD [OF assms(2)] by blast
  then show ?thesis using step [OF ok(1)] by (blast intro: seats_step_trans)
qed

lemma load_append_step:
  assumes "seats_rely L e" "codec_ok L e"
    and "bindE (LoadSeat L e s) (\<lambda>loaded. bindE (liftE (decide (fst loaded))) (\<lambda>out.
           bindE (AppendSeat L e s (ss_Version (fst loaded)) (out_Events out) (meta loaded)) (\<lambda>_. k loaded out))) t
         = (r, t')"
    and "\<And>st out. decide st = Inr out \<Longrightarrow> seat_wf st \<Longrightarrow>
           list_all is_seat_event (out_Events out) \<and> live_after (live_hold st) (out_Events out) \<noteq> None"
    and "\<And>loaded out. keeps (view_frame (seats_step L)) (k loaded out)"
  shows "seats_step L (view t) (view t')"
proof (cases "seats_ok L (view t)")
  case False
  then show ?thesis by (simp add: seats_step_def)
next
  case ok: True
  show ?thesis
    using assms(3)
  proof (cases rule: bindE_cases)
    case (err e0)
    then show ?thesis using keeps_viewD [OF keeps_seats_LoadSeat [OF assms(1)]] by blast
  next
    case (ok loaded t1)
    obtain st m where l: "loaded = (st, m)" by (cases loaded)
    note load = LoadSeat_spec [OF \<open>seats_ok L (view t)\<close> assms(1) ok(1) [unfolded l]]
    obtain ms where ms: "seat_messages L (view t1) s = Inr ms" "Fold L ms = Inr st" using load(4) by blast
    have t1: "seats_step L (view t) (view t1)" using load(3) seats_relyD [OF assms(1)] by simp
    show ?thesis
    proof (cases "decide st")
      case (Inl err)
      then show ?thesis using ok(2) t1 l by simp
    next
      case (Inr out)
      have out: "list_all is_seat_event (out_Events out)" "live_after (live_hold st) (out_Events out) \<noteq> None"
        using assms(4) [OF Inr Fold_wf [OF ms(2)]] by auto
      have step: "seats_step L (view t1) (view t2)"
        if "AppendSeat L e s (ss_Version st) (out_Events out) (meta loaded) t1 = (r2, t2)" for r2 t2
        using AppendSeat_step [OF load(1) assms(1,2) out(1) ms out(2) that] .
      have "bindE (AppendSeat L e s (ss_Version st) (out_Events out) (meta loaded))
          (\<lambda>_. k loaded out) t1 = (r, t')"
        using ok(2) Inr l by simp
      then have "seats_step L (view t1) (view t')" using assms(5) step by (rule append_then_step)
      then show ?thesis using t1 by (blast intro: seats_step_trans)
    qed
  qed
qed

lemma applyCommand_step:
  assumes "seats_rely L e" "codec_ok L e" "applyCommand L enc e ids inc cmd s t = (r, t')"
  shows "seats_step L (view t) (view t')"
  using assms(3) [unfolded applyCommand_def]
proof (cases rule: bindE_cases)
  case (err e0)
  then show ?thesis using keeps_viewD [OF keeps_seats_MarkConsumed [OF assms(1)]] by blast
next
  case (ok first t1)
  have t1: "seats_step L (view t) (view t1)"
    using keeps_viewD [OF keeps_seats_MarkConsumed [OF assms(1)] ok(1)] .
  show ?thesis
  proof (cases first)
    case False
    then show ?thesis using ok(2) t1 by simp
  next
    case True
    have "seats_step L (view t1) (view t')"
      by (rule load_append_step [OF assms(1,2) ok(2) [simplified True not_True_eq_False if_False]])
        (auto dest: Decide_events intro!: seats_frame.keeps_seq keeps_seats_scheduleTimers [OF assms(1)]
          keeps_seats_Enqueue [OF assms(1)])
    then show ?thesis using t1 by (blast intro: seats_step_trans)
  qed
qed

text \<open>A transaction whose closure keeps the streams in order leaves them in order, however it ends.\<close>

lemma WithTx_seats_step:
  assumes "seats_rely L e" "WithTx e fn db = (r, db')" "keeps (base_frame e) fn"
    and "\<And>t r t'. fn t = (r, t') \<Longrightarrow> seats_step L (view t) (view t')"
  shows "seats_step L (tbl db) (tbl db')"
  using assms(2,3)
proof (cases rule: WithTx_cases)
  case (none err)
  then show ?thesis using seats_step_meanwhile [OF assms(1)] by blast
next
  case (all x t)
  have "seats_step L (tbl db) (view t)" using assms(4) [OF all(1)] by simp
  moreover have "tbl db' = others e (stmts t) (seqs t) (view t)"
    using all(3) by (simp add: applied_tx_def interleave_def)
  ultimately show ?thesis using seats_relyD [OF assms(1)] by (auto intro: seats_step_trans)
qed

lemma applyInOneTransaction_step:
  assumes "seats_rely L e" "codec_ok L e"
    and "applyInOneTransaction L enc e ids inc cmd db = (r, db')"
  shows "seats_step L (tbl db) (tbl db')"
proof (cases "SeatID cmd")
  case (Inl err)
  then show ?thesis using assms(3) by (simp add: applyInOneTransaction_def)
next
  case (Inr s)
  show ?thesis
    by (rule WithTx_seats_step [OF assms(1) assms(3) [unfolded applyInOneTransaction_def Inr sum.case]])
      (auto intro: frame_intros applyCommand_step [OF assms(1,2)])
qed

lemma attempts_step:
  assumes "\<And>i. seats_rely L (envs i)" "\<And>i. codec_ok L (envs i)"
    and "attempts L enc envs ids inc cmd i n err db = (r, k, db')"
  shows "seats_step L (tbl db) (tbl db')"
  using assms(3)
proof (induction n arbitrary: i err db)
  case 0
  then show ?case by simp
next
  case (Suc n)
  obtain r1 db1 where run: "applyInOneTransaction L enc (envs i) (ids i) inc cmd db = (r1, db1)"
    by (cases "applyInOneTransaction L enc (envs i) (ids i) inc cmd db")
  have "seats_step L (tbl db) (tbl db1)" by (rule applyInOneTransaction_step [OF assms(1,2) run])
  moreover have "seats_step L (tbl db1) (tbl db')"
    using Suc run by (auto split: sum.splits if_splits)
  ultimately show ?case by (rule seats_step_trans)
qed

section \<open>In a quiet database\<close>

fun timer_rows :: "env \<Rightarrow> int \<Rightarrow> string \<Rightarrow> SeatTimer list \<Rightarrow> timer_row list" where
  "timer_rows e n s [] = []"
| "timer_rows e n s (t # ts) =
     \<lparr>tm_id = n + 1, tm_fire_at = tstz e (st_FireAt t), tm_subject = s, tm_token = st_Token t,
      tm_fired_at = None\<rparr> # timer_rows e (n + 1) s ts"

lemma quiet_scheduleTimers:
  assumes "quiet e" "\<not> aborted t"
  shows "\<exists>t'. scheduleTimers e s ts t = (Inr (), t') \<and> \<not> aborted t' \<and> pending t' = pending t \<and>
    view t' = (view t)\<lparr>timers := timers (view t) @ timer_rows e (timers_seq (seqs t)) s ts\<rparr>"
  using assms(2)
proof (induction ts arbitrary: t)
  case Nil
  then show ?case by (simp add: retE_def)
next
  case (Cons a ts)
  obtain t1 where run: "Schedule e (st_FireAt a) s (st_Token a) t = (Inr (), t1)" "\<not> aborted t1"
    "pending t1 = pending t" "timers_seq (seqs t1) = timers_seq (seqs t) + 1"
    "view t1 = (view t)\<lparr>timers := timers (view t) @ timer_rows e (timers_seq (seqs t)) s [a]\<rparr>"
    using quiet_Schedule [OF assms(1) Cons.prems] Cons.prems by simp
  from Cons.IH [OF run(2)] show ?case
    using run by (auto simp: bindE_def)
qed

lemma outgoing_from_topics:
  "outgoing_from enc ids i tmpl ms = Inr out \<Longrightarrow>
     length out = length ms \<and> list_all (\<lambda>m. msg_Topic m = EventsTopic \<and> msg_Key m = env_Subject tmpl) out"
  by (induction ms arbitrary: i out) (auto simp: outgoing_message_def Let_def split: sum.splits)

lemma outgoing_from_carries:
  "outgoing_from enc ids i tmpl ms = Inr out \<Longrightarrow>
     list_all2 (\<lambda>m o'. msg_Topic o' = EventsTopic \<and> msg_Key o' = env_Subject tmpl \<and>
       enc m = Inr (msg_Payload o') \<and> map_get (msg_Headers o') ''ce_type'' = TypeName m) ms out"
  by (induction ms arbitrary: i out) (auto simp: outgoing_message_def Let_def map_get_Headers split: sum.splits)

lemma outgoing_mem:
  assumes "outgoing enc ids ms tmpl = Inr out" "m \<in> set ms"
  shows "\<exists>o' \<in> set out. msg_Topic o' = EventsTopic \<and> msg_Key o' = env_Subject tmpl \<and>
    enc m = Inr (msg_Payload o') \<and> map_get (msg_Headers o') ''ce_type'' = TypeName m"
  using outgoing_from_carries [OF assms(1) [unfolded outgoing_def]] assms(2)
  by (fastforce simp: list_all2_conv_all_nth in_set_conv_nth)

lemma outgoing_origin:
  assumes "outgoing enc ids ms tmpl = Inr out" "o' \<in> set out"
  shows "\<exists>m \<in> set ms. msg_Topic o' = EventsTopic \<and> msg_Key o' = env_Subject tmpl \<and>
    enc m = Inr (msg_Payload o') \<and> map_get (msg_Headers o') ''ce_type'' = TypeName m"
  using outgoing_from_carries [OF assms(1) [unfolded outgoing_def]] assms(2)
  by (fastforce simp: list_all2_conv_all_nth in_set_conv_nth)

lemma outgoing_valid:
  assumes "outgoing enc ids ms tmpl = Inr out" "env_Subject tmpl \<noteq> []" "list_all (\<lambda>m. msg_Payload m \<noteq> []) out"
  shows "\<forall>m \<in> set out. Validate m = None"
  using outgoing_from_topics [OF assms(1) [unfolded outgoing_def]] assms(2,3)
  by (auto simp: list_all_iff Validate_ok_iff EventsTopic_def)

text \<open>The tables after a command that was applied in full.\<close>

definition command_applied ::
  "protolib \<Rightarrow> env \<Rightarrow> string \<times> string \<times> string \<Rightarrow> string \<Rightarrow> Outcome \<Rightarrow> Message list \<Rightarrow>
     tables \<Rightarrow> tables \<Rightarrow> bool" where
  "command_applied L e key s out msgs T T' \<longleftrightarrow>
     consumed T' = insert key (consumed T) \<and>
     (\<exists>ms. seat_messages L T s = Inr ms \<and> seat_messages L T' s = Inr (ms @ out_Events out)) \<and>
     (\<forall>s'. s' \<noteq> s \<longrightarrow> stream_rows T' s' = stream_rows T s') \<and>
     (\<exists>n. timers T' = timers T @ timer_rows e n s (out_Timers out)) \<and>
     (\<exists>n. outbox T' = outbox T @ outbox_rows n msgs) \<and>
     seat_availability T' = seat_availability T"

lemma four_writes_applied:
  assumes "seat_messages L T s = Inr ms"
    and "decode_all L s (map (recorded s) (append_rows e s (int (length ms)) g (event_columns e stored))) = Inr (out_Events out)"
    and "T' = (snd (inbox_markSQL e c src i T))\<lparr>
      events := events T @ append_rows e s (int (length ms)) g (event_columns e stored),
      timers := timers T @ timer_rows e k s (out_Timers out), outbox := outbox T @ outbox_rows o' msgs\<rparr>"
  shows "command_applied L e (c, src, i) s out msgs T T'"
proof -
  have streams: "stream_rows T' s' = stream_rows T s' @
      (if s' = s then append_rows e s (int (length ms)) g (event_columns e stored) else [])" for s'
    by (simp add: assms(3) stream_rows_def filter_append_rows)
  have "seat_messages L T' s = Inr (ms @ out_Events out)"
    using assms(1,2) by (simp add: seat_messages_def streams decode_all_append)
  moreover have "consumed T' = insert (c, src, i) (consumed T)"
    using inbox_markSQL_consumed [of e c src i T] by (simp add: assms(3) consumed_def)
  moreover have "timers T' = timers T @ timer_rows e k s (out_Timers out)" "outbox T' = outbox T @ outbox_rows o' msgs"
    "seat_availability T' = seat_availability T"
    by (simp_all add: assms(3) inbox_markSQL_frame [OF refl])
  ultimately show ?thesis using assms(1) streams by (auto simp: command_applied_def)
qed

lemma quiet_apply:
  assumes q: "quiet e" and cok: "codec_ok L e" and sok: "seats_ok L (tbl db)"
    and ne: "s \<noteq> []" "env_Source inc \<noteq> []" "env_ID inc \<noteq> []"
    and new: "(Consumer, env_Source inc, env_ID inc) \<notin> consumed (tbl db)"
    and ms: "seat_messages L (tbl db) s = Inr ms" "Fold L ms = Inr st" "Decide L st cmd = Inr out"
    and enc: "encode_all L s (command_meta inc) (out_Events out) = Inr stored" "storable e (length ms) stored"
    and msgs: "outgoing enc ids (Messages out) (reply_envelope inc s) = Inr msgs"
      "list_all (\<lambda>m. msg_Payload m \<noteq> []) msgs"
  shows "\<exists>t. applyCommand L enc e ids inc cmd s (begin_tx db) = (Inr (), t) \<and> \<not> aborted t \<and>
    pending t = (if msgs = [] then [] else [NotifyChannel]) \<and>
    command_applied L e (Consumer, env_Source inc, env_ID inc) s out msgs (tbl db) (view t)"
proof -
  let ?key = "(Consumer, env_Source inc, env_ID inc)"
  let ?T1 = "snd (inbox_markSQL e Consumer (env_Source inc) (env_ID inc) (tbl db))"
  let ?t1 = "(begin_tx db)\<lparr>stmts := Suc 0, view := ?T1\<rparr>"
  have mark: "MarkConsumed e Consumer (env_Source inc) (env_ID inc) (begin_tx db) = (Inr True, ?t1)"
    using q ne new by (simp add: quiet_MarkConsumed Consumer_def)
  have ev1: "events ?T1 = events (tbl db)" by (simp add: inbox_markSQL_frame [OF refl])
  have rows1: "stream_rows ?T1 = stream_rows (tbl db)" using ev1 by (rule stream_rows_same_events)
  have log1: "log_ok ?T1"
    using seats_ok_log [OF sok] by (simp add: log_ok_iff versions_ok_def rows1)
  have load: "LoadSeat L e s ?t1 = (Inr (st, last_meta (map (recorded s) (stream_rows ?T1 s))),
      ?t1\<lparr>stmts := Suc (Suc 0)\<rparr>)"
    using quiet_LoadSeat [OF q, of ?t1 L s ms st] log1 ms by (simp add: seat_messages_def rows1)
  let ?t2 = "?t1\<lparr>stmts := Suc (Suc 0)\<rparr>"
  have len: "length ms = length (stream_rows (tbl db) s)"
    using decode_all_length ms(1) by (fastforce simp: seat_messages_def)
  obtain t3 where t3: "AppendSeat L e s (int (length ms)) (out_Events out) (command_meta inc) ?t2 = (Inr (), t3)"
    "\<not> aborted t3" "pending t3 = []"
    "view t3 = ?T1\<lparr>events := events ?T1 @
       append_rows e s (int (length ms)) (events_seq (seqs ?t2)) (event_columns e stored)\<rparr>"
    using quiet_AppendSeat [OF q, of ?t2 L s "command_meta inc" "out_Events out" stored "length ms"]
      log1 enc len by (auto simp: rows1)
  obtain t4 where t4: "scheduleTimers e s (out_Timers out) t3 = (Inr (), t4)" "\<not> aborted t4"
    "pending t4 = []"
    "view t4 = (view t3)\<lparr>timers := timers (view t3) @ timer_rows e (timers_seq (seqs t3)) s (out_Timers out)\<rparr>"
    using quiet_scheduleTimers [OF q t3(2), of s "out_Timers out"] t3(3) by auto
  have valid: "\<forall>m \<in> set msgs. Validate m = None"
    using outgoing_valid [OF msgs(1) _ msgs(2)] ne(1) by (simp add: reply_envelope_def)
  obtain t5 where t5: "Enqueue e msgs t4 = (Inr (), t5)" "\<not> aborted t5"
    "pending t5 = (if msgs = [] then [] else [NotifyChannel])"
    "view t5 = (view t4)\<lparr>outbox := outbox (view t4) @ outbox_rows (outbox_seq (seqs t4)) msgs\<rparr>"
    using quiet_Enqueue [OF q t4(2) valid] t4(2,3) by (cases "msgs = []") simp_all
  have run: "applyCommand L enc e ids inc cmd s (begin_tx db) = (Inr (), t5)"
    using mark load ms(3) t3(1) t4(1) msgs(1) t5(1) Fold_version [OF ms(2)]
    by (simp add: applyCommand_def bindE_def liftE_def)
  have "command_applied L e (Consumer, env_Source inc, env_ID inc) s out msgs (tbl db) (view t5)"
    using ms(1) decode_stored_columns [OF cok Decide_events(1) [OF ms(3) Fold_wf [OF ms(2)]] enc(1,2)]
    by (rule four_writes_applied) (simp add: t5(4) t4(4) t3(4) inbox_markSQL_frame [OF refl])
  then show ?thesis using run t5(2,3) by blast
qed

section \<open>A command for the witnesses\<close>

definition demo_envelope :: "string \<Rightarrow> Envelope" where
  "demo_envelope i =
     \<lparr>env_ID = i, env_Source = ''/booking'', env_Type = ''sagaflow.inventory.v1.HoldSeat'',
      env_Subject = ''14A'', env_CorrelationID = ''saga-1'', env_CausationID = [], env_TraceParent = []\<rparr>"

definition demo_enc :: encoder where
  "demo_enc m = Inr (FullName m)"

definition demo_ids :: id_supply where
  "demo_ids i = ''out'' @ itoa (int i)"

lemmas demo_command_defs = empty_db_def demo_hold_def demo_held_def demo_envelope_def consumed_def
  empty_tables_def seat_messages_def stream_rows_def Fold_def outcome_defs zero_SeatState_def
  status_defs demo_lib_def table_lib_def Encode_def TypeName_def storable_def calm_env_def
  outgoing_def demo_enc_def outgoing_message_def Let_def seats_ok_def log_ok_def

lemma seats_ok_empty [simp]: "seats_ok L empty_tables"
  by (simp add: seats_ok_def log_ok_def empty_tables_def)

lemma seat_messages_empty [simp]: "seat_messages L (tbl empty_db) s = Inr []"
  by (simp add: seat_messages_def stream_rows_def empty_db_def empty_tables_def)

section \<open>Properties\<close>

text \<open>
  Concurrent commands never oversell: handling a command, through all its attempts and however
  each of them ends, against any server failures and any interleaving with other sessions that keep
  the streams in order themselves, leaves every seat stream gap-free and decoding to a history with
  at most one live hold, and only ever extends streams.
\<close>

theorem Handle_never_oversells:
  assumes "\<forall>i. seats_rely L (envs i) \<and> codec_ok L (envs i)" and "seats_ok L (tbl db)"
    and "Handle L enc envs ids inc cmd db = (r, k, db')"
  shows "seats_ok L (tbl db') \<and> extends (tbl db) (tbl db')"
  using attempts_step [of L envs enc ids inc cmd] assms
  unfolding Handle_def seats_step_def by blast

theorem Handle_never_oversells_witness:
  "seats_ok demo_lib (tbl (snd (snd (Handle demo_lib demo_enc (\<lambda>_. calm_env) (\<lambda>_. demo_ids)
     (demo_envelope ''c1'') (demo_hold ''h1'') empty_db))))"
proof -
  obtain r k db' where run: "Handle demo_lib demo_enc (\<lambda>_. calm_env) (\<lambda>_. demo_ids)
      (demo_envelope ''c1'') (demo_hold ''h1'') empty_db = (r, k, db')"
    by (metis prod.collapse)
  have "\<forall>i::nat. seats_rely demo_lib calm_env \<and> codec_ok demo_lib calm_env"
    by (simp add: seats_rely_quiet codec_ok_demo)
  then show ?thesis
    using Handle_never_oversells [of demo_lib "\<lambda>_. calm_env" empty_db] run by (auto simp: empty_db_def)
qed

text \<open>
  C15. All or nothing: whichever statement fails, and even when the commit's own answer is lost, one
  attempt leaves the tables and the pending notifications either exactly as they were or exactly as
  the attempt would have left them on a server without failures; success means the latter.
\<close>

theorem command_all_or_nothing:
  assumes "alone e" and "applyInOneTransaction L enc e ids inc cmd db = (r, db')"
  shows "(\<exists>err. r = Inl err \<and> tbl db' = tbl db \<and> notices db' = notices db) \<or>
    applyInOneTransaction L enc (quieten e) ids inc cmd db = (Inr (), db') \<and>
      (r = Inr () \<or> (\<exists>err. r = Inl (Errorf ''commit: '' err [])))"
proof (cases "SeatID cmd")
  case (Inl err)
  then show ?thesis using assms(2) by (auto simp: applyInOneTransaction_def)
next
  case (Inr s)
  have run: "WithTx e (applyCommand L enc e ids inc cmd s) db = (r, db')"
    using assms(2) Inr by (simp add: applyInOneTransaction_def)
  from alone_WithTx [OF assms(1) run keeps_base_applyCommand alone_applyCommand [OF assms(1)]]
  show ?thesis using Inr by (auto simp: applyInOneTransaction_def)
qed

text \<open>A server that loses the answer to the commit after applying it.\<close>

definition lossy_env :: env where
  "lossy_env = calm_env\<lparr>commit_fault := Some (ErrorNew ''conn closed'', True)\<rparr>"

theorem command_all_or_nothing_witness:
  "\<exists>db'. snd (applyInOneTransaction demo_lib demo_enc lossy_env demo_ids (demo_envelope ''c1'')
      (demo_hold ''h1'') empty_db) = db' \<and>
    (tbl db' = tbl empty_db \<or>
     applyInOneTransaction demo_lib demo_enc (quieten lossy_env) demo_ids (demo_envelope ''c1'')
      (demo_hold ''h1'') empty_db = (Inr (), db'))"
proof -
  have "alone lossy_env" by (simp add: lossy_env_def calm_env_def alone_def)
  then show ?thesis
    using command_all_or_nothing
      [of lossy_env demo_lib demo_enc demo_ids "demo_envelope ''c1''" "demo_hold ''h1''" empty_db]
    by (metis prod.collapse)
qed

lemma quiet_command:
  assumes "quiet e" "codec_ok L e" "seats_ok L (tbl db)" "SeatID cmd = Inr s"
    and "s \<noteq> []" "env_Source inc \<noteq> []" "env_ID inc \<noteq> []"
    and "(Consumer, env_Source inc, env_ID inc) \<notin> consumed (tbl db)"
    and "seat_messages L (tbl db) s = Inr ms" "Fold L ms = Inr st" "Decide L st cmd = Inr out"
    and "encode_all L s (command_meta inc) (out_Events out) = Inr stored" "storable e (length ms) stored"
    and "outgoing enc ids (Messages out) (reply_envelope inc s) = Inr msgs"
    and "list_all (\<lambda>m. msg_Payload m \<noteq> []) msgs"
  shows "\<exists>db'. applyInOneTransaction L enc e ids inc cmd db = (Inr (), db') \<and>
    command_applied L e (Consumer, env_Source inc, env_ID inc) s out msgs (tbl db) (tbl db') \<and>
    length msgs = 1 \<and> notices db' = notices db @ [NotifyChannel]"
proof -
  have "length msgs = length (Messages out)"
    using outgoing_from_topics [OF assms(14) [unfolded outgoing_def]] by simp
  also have "length (Messages out) = 1"
    using assms(11) by (cases cmd) (auto simp: outcome_defs)
  finally have one: "length msgs = 1" .
  then have ne: "msgs \<noteq> []" by auto
  obtain t where t: "applyCommand L enc e ids inc cmd s (begin_tx db) = (Inr (), t)" "\<not> aborted t"
    "pending t = [NotifyChannel]"
    "command_applied L e (Consumer, env_Source inc, env_ID inc) s out msgs (tbl db) (view t)"
    using quiet_apply [OF assms(1-3,5-15)] ne by auto
  then show ?thesis
    using quiet_WithTx_ok [where fn = "applyCommand L enc e ids inc cmd s", OF assms(1) t(1,2)]
      assms(4) one by (simp add: applyInOneTransaction_def)
qed

text \<open>
  C17. The four writes of a command: the first delivery of a command that can be encoded commits its
  events to that seat's stream and no other, one deadline row per timer of the decision, one outbox
  row per message of the decision in that order, and the consumed-record, and asks for one
  notification.
\<close>

theorem command_writes:
  assumes "quiet e" "codec_ok L e" "seats_ok L (tbl db)" "SeatID cmd = Inr s"
    and "s \<noteq> []" "env_Source inc \<noteq> []" "env_ID inc \<noteq> []"
    and "(Consumer, env_Source inc, env_ID inc) \<notin> consumed (tbl db)"
    and "seat_messages L (tbl db) s = Inr ms" "Fold L ms = Inr st" "Decide L st cmd = Inr out"
    and "encode_all L s (command_meta inc) (out_Events out) = Inr stored" "storable e (length ms) stored"
    and "outgoing enc ids (Messages out) (reply_envelope inc s) = Inr msgs"
    and "list_all (\<lambda>m. msg_Payload m \<noteq> []) msgs"
  shows "\<exists>db'. applyInOneTransaction L enc e ids inc cmd db = (Inr (), db') \<and>
    command_applied L e (Consumer, env_Source inc, env_ID inc) s out msgs (tbl db) (tbl db') \<and>
    length msgs = 1 \<and> notices db' = notices db @ [NotifyChannel]"
  using assms by (rule quiet_command)

theorem command_writes_witness:
  "\<exists>db'. applyInOneTransaction demo_lib demo_enc calm_env demo_ids (demo_envelope ''c1'')
      (demo_hold ''h1'') empty_db = (Inr (), db') \<and>
    seat_messages demo_lib (tbl db') ''14A'' = Inr [demo_held ''h1''] \<and>
    length (timers (tbl db')) = 1 \<and> length (outbox (tbl db')) = 1"
proof -
  let ?inc = "demo_envelope ''c1''" and ?m = "demo_held ''h1''"
  let ?out = "\<lparr>out_Events = [?m], out_Replies = [], out_Timers = [\<lparr>st_FireAt = 900, st_Token = ''h1''\<rparr>]\<rparr>"
  let ?ev = "\<lparr>es_Type = FullName ?m, es_Data = ''1'', es_Meta = command_meta ?inc\<rparr>"
  let ?msg = "outgoing_message (demo_ids 0) (reply_envelope ?inc ''14A'') ?m (FullName ?m)"
  have "\<exists>db'. applyInOneTransaction demo_lib demo_enc calm_env demo_ids ?inc (demo_hold ''h1'') empty_db
        = (Inr (), db') \<and>
      command_applied demo_lib calm_env (Consumer, env_Source ?inc, env_ID ?inc) ''14A'' ?out [?msg]
        (tbl empty_db) (tbl db') \<and> length [?msg] = 1 \<and> notices db' = notices empty_db @ [NotifyChannel]"
    by (rule command_writes [where st = zero_SeatState and ms = "[]" and stored = "[?ev]",
          OF quiet_calm_env codec_ok_demo])
      (simp_all add: demo_command_defs)
  then show ?thesis
    by (auto simp: command_applied_def seat_messages_empty) (simp_all add: empty_db_def empty_tables_def)
qed

text \<open>A command already on record, with nobody else and no failure.\<close>

lemma quiet_redelivery:
  assumes "quiet (envs 0)" "SeatID cmd = Inr s" "env_Source inc \<noteq> []" "env_ID inc \<noteq> []"
    and "(Consumer, env_Source inc, env_ID inc) \<in> consumed (tbl db)"
  shows "Handle L enc envs ids inc cmd db = (Inr (), 1, db)"
proof -
  let ?T = "snd (inbox_markSQL (envs 0) Consumer (env_Source inc) (env_ID inc) (tbl db))"
  have T: "?T = tbl db"
    using assms(5) by (auto simp: inbox_markSQL_def consumed_def list_ex_iff)
  have "applyCommand L enc (envs 0) (ids 0) inc cmd s (begin_tx db) =
      (Inr (), (begin_tx db)\<lparr>stmts := Suc 0, view := ?T\<rparr>)"
    using assms by (simp add: applyCommand_def bindE_def quiet_MarkConsumed Consumer_def retE_def)
  then have "applyInOneTransaction L enc (envs 0) (ids 0) inc cmd db = (Inr (), db)"
    using assms(1,2) T by (simp add: applyInOneTransaction_def quiet_WithTx_ok)
  then show ?thesis by (simp add: Handle_def)
qed

definition gave_up :: "Envelope \<Rightarrow> error \<Rightarrow> error" where
  "gave_up incoming err =
     Errorf (''inventory: '' @ env_Type incoming @ '' on '' @ env_Subject incoming @ '' after ''
       @ itoa (int ConflictRetries) @ '' retries: '') err []"

lemma attempts_spec:
  "attempts L enc envs ids inc cmd i n err db = (r, k, db') \<Longrightarrow> 0 < n \<Longrightarrow>
     i < k \<and> k \<le> i + n \<and>
     (\<exists>db0 r'. applyInOneTransaction L enc (envs (k - 1)) (ids (k - 1)) inc cmd db0 = (r', db') \<and>
        (case r' of
           Inr _ \<Rightarrow> r = Inr ()
         | Inl e \<Rightarrow> if errors_Is e ErrVersionConflict then k = i + n \<and> r = Inl (gave_up inc e) else r = Inl e))"
proof (induction n arbitrary: i err db)
  case 0
  then show ?case by auto
next
  case (Suc n)
  obtain r1 db1 where run: "applyInOneTransaction L enc (envs i) (ids i) inc cmd db = (r1, db1)"
    by (cases "applyInOneTransaction L enc (envs i) (ids i) inc cmd db")
  show ?case
  proof (cases "\<exists>e. r1 = Inl e \<and> errors_Is e ErrVersionConflict")
    case True
    then obtain e where e: "r1 = Inl e" "errors_Is e ErrVersionConflict" by blast
    then have next_try: "attempts L enc envs ids inc cmd (Suc i) n e db1 = (r, k, db')"
      using Suc.prems run by simp
    show ?thesis
    proof (cases n)
      case 0
      then have "k = Suc i" "db' = db1" "r = Inl (gave_up inc e)"
        using next_try by (simp_all add: gave_up_def)
      then show ?thesis using run e 0 by (auto intro!: exI [of _ db])
    next
      case (Suc m)
      then have "0 < n" by simp
      from Suc.IH [OF next_try this] show ?thesis
        unfolding add_Suc add_Suc_right by (meson Suc_lessD)
    qed
  next
    case False
    then have "k = Suc i \<and> db' = db1 \<and> r = r1"
      using Suc.prems run by (auto split: sum.splits if_splits)
    then show ?thesis using False run by (cases r1) (auto intro!: exI [of _ db])
  qed
qed

text \<open>
  Retrying is bounded and only for conflicts: a command is attempted at least once and at most
  \<open>ConflictRetries + 1\<close> times; what the last attempt returned is what the caller gets, except that a
  version conflict, which comes back only when the attempts are used up, is wrapped so that it is
  still recognisable as one.
\<close>

theorem Handle_attempts:
  assumes "Handle L enc envs ids inc cmd db = (r, k, db')"
  shows "1 \<le> k \<and> k \<le> 4 \<and>
    (\<exists>db0 r'. applyInOneTransaction L enc (envs (k - 1)) (ids (k - 1)) inc cmd db0 = (r', db') \<and>
       (case r' of
          Inr _ \<Rightarrow> r = Inr ()
        | Inl e \<Rightarrow>
            if errors_Is e ErrVersionConflict
            then k = 4 \<and> r = Inl (gave_up inc e) \<and> errors_Is (gave_up inc e) ErrVersionConflict
            else r = Inl e))"
  using attempts_spec [OF assms [unfolded Handle_def]]
  by (fastforce simp: ConflictRetries_def gave_up_def split: sum.splits if_splits)

theorem Handle_attempts_witness:
  "fst (snd (Handle demo_lib demo_enc (\<lambda>_. calm_env) (\<lambda>_. demo_ids) (demo_envelope ''c1'')
      (OtherMsg ''x'') empty_db)) \<le> 4"
  using Handle_attempts [of demo_lib demo_enc "\<lambda>_. calm_env" "\<lambda>_. demo_ids" "demo_envelope ''c1''"
      "OtherMsg ''x''" empty_db] by (metis prod.collapse)

text \<open>
  C24. What every outgoing message carries: the events topic, the seat as its key (which is what keeps
  one seat's messages in order), a payload framed by the encoder, its own id, its own type, and the
  incoming command's correlation and trace, with the command's id as its causation; and its headers
  parse back to exactly that envelope.
\<close>

theorem outgoing_envelopes:
  assumes "outgoing enc ids ms (reply_envelope inc s) = Inr out" and "i < length ms"
    and "ids i \<noteq> []" and "TypeName (ms ! i) \<noteq> []"
  shows "length out = length ms \<and> msg_Topic (out ! i) = EventsTopic \<and> msg_Key (out ! i) = s \<and>
    Inr (msg_Payload (out ! i)) = enc (ms ! i) \<and>
    Parse (msg_Headers (out ! i)) = Inr \<lparr>env_ID = ids i, env_Source = Source, env_Type = TypeName (ms ! i),
      env_Subject = s, env_CorrelationID = env_CorrelationID inc, env_CausationID = env_ID inc,
      env_TraceParent = env_TraceParent inc\<rparr>"
proof -
  have "\<exists>p. enc (ms ! i) = Inr p \<and> out ! i = outgoing_message (ids (j + i)) tmpl (ms ! i) p"
    if "outgoing_from enc ids j tmpl ms = Inr out" "i < length ms" for j tmpl
    using that
  proof (induction ms arbitrary: i j out)
    case (Cons m ms)
    then show ?case by (cases i) (fastforce split: sum.splits)+
  qed simp
  from this [of 0 "reply_envelope inc s"] assms(1,2) obtain p where
    "enc (ms ! i) = Inr p" "out ! i = outgoing_message (ids i) (reply_envelope inc s) (ms ! i) p"
    by (auto simp: outgoing_def)
  then show ?thesis
    using outgoing_from_topics [OF assms(1) [unfolded outgoing_def]] assms(3,4)
    by (simp add: outgoing_message_def Let_def reply_envelope_def Parse_ok_iff map_get_Headers
        envelope_of_Headers Source_def)
qed

theorem outgoing_envelopes_witness:
  "\<exists>m. outgoing demo_enc demo_ids [demo_held ''h1''] (reply_envelope (demo_envelope ''c1'') ''14A'') = Inr [m] \<and>
    msg_Key m = ''14A'' \<and> (\<exists>e. Parse (msg_Headers m) = Inr e \<and> env_CausationID e = ''c1'')"
  using outgoing_envelopes [of demo_enc demo_ids "[demo_held ''h1'']" "demo_envelope ''c1''" "''14A''" _ 0]
  by (simp add: outgoing_def demo_enc_def demo_held_def TypeName_def demo_ids_def demo_envelope_def)

section \<open>Losing a race\<close>

text \<open>
  The environment of the attempt that loses: a rival commits its events to the same stream between
  the load (the transaction's second statement) and the append (its third).
\<close>

definition rival_commit :: "env \<Rightarrow> string \<Rightarrow> nat \<Rightarrow> int \<Rightarrow> columns \<Rightarrow> tables \<Rightarrow> tables" where
  "rival_commit e s n g cs T = T\<lparr>events := events T @ append_rows e s (int n) g cs\<rparr>"

definition races :: "env \<Rightarrow> (tables \<Rightarrow> tables) \<Rightarrow> bool" where
  "races e rival \<longleftrightarrow>
     begin_fault e = None \<and> calm_at e 0 \<and> calm_at e 1 \<and>
     fault e 2 = None \<and> (\<forall>S. others e 2 S = rival) \<and> (\<forall>S. others_seq e 2 S = S)"

lemma calm_MarkConsumed:
  "calm_at e (stmts t) \<Longrightarrow> MarkConsumed e c s i t = MarkConsumed (quieten e) c s i t"
  by (simp add: MarkConsumed_def bindE_def wrapE_def calm_exec failE_def)

lemma stale_AppendSeat:
  assumes "\<not> aborted t" "fault e (stmts t) = None" "log_ok (others e (stmts t) (seqs t) (view t))"
    and "encode_all L s meta evts = Inr stored" "evts \<noteq> []" "storable e n stored"
    and "n < length (stream_rows (others e (stmts t) (seqs t) (view t)) s)"
  shows "\<exists>t'. AppendSeat L e s (int n) evts meta t = (Inl ErrVersionConflict, t') \<and>
    base t' = others e (stmts t) (seqs t) (base t)"
proof -
  let ?U = "others e (stmts t) (seqs t) (view t)"
  have len: "length (event_columns e stored) = length stored" by (simp add: event_columns_def)
  have ne: "stored \<noteq> []" "event_columns e stored \<noteq> []"
    using assms(5) encode_all_Nil_iff [OF assms(4)] by (auto simp: event_columns_def)
  have "int n + int (length stored) \<le> 2147483647" using assms(6) by (simp add: storable_def)
  then have "list_all (\<lambda>r. int4_ok (ev_version r)) (append_rows e s (int n) g (event_columns e stored))" for g
    using len by (intro append_rows_int4) simp_all
  moreover have "list_ex (\<lambda>r. list_ex (\<lambda>r'. event_key r' = event_key r) (events ?U))
      (append_rows e s (int n) g (event_columns e stored))" for g
    using append_clash_iff [OF assms(3) _ ne(2)] assms(7) by simp
  ultimately have "Append e s (int n) stored t = (Inl ErrVersionConflict,
      (interleave e t)\<lparr>aborted := True, seqs := (others_seq e (stmts t) (seqs t))\<lparr>events_seq :=
         events_seq (others_seq e (stmts t) (seqs t)) + int (length stored)\<rparr>\<rparr>)"
    using ne(1) assms(1,2) len storable_columns [OF assms(6)]
    by (simp add: Append_def wrapE_def exec_def interleave_def appendSQL_def Let_def append_error_def)
  then show ?thesis
    using assms(4,5) by (simp add: AppendSeat_def bindE_def liftE_def interleave_def)
qed

lemma lost_attempt:
  assumes race: "races e (rival_commit e s (length ms) g cs)" and cs: "cs \<noteq> []"
    and sok: "seats_ok L (tbl db)" and sid: "SeatID cmd = Inr s"
    and ne: "env_Source inc \<noteq> []" "env_ID inc \<noteq> []"
    and new: "(Consumer, env_Source inc, env_ID inc) \<notin> consumed (tbl db)"
    and ms: "seat_messages L (tbl db) s = Inr ms" "Fold L ms = Inr st" "Decide L st cmd = Inr out"
    and enc: "out_Events out \<noteq> []" "encode_all L s (command_meta inc) (out_Events out) = Inr stored"
      "storable e (length ms) stored"
  shows "\<exists>db1. applyInOneTransaction L enc e ids inc cmd db = (Inl ErrVersionConflict, db1) \<and>
    tbl db1 = rival_commit e s (length ms) g cs (tbl db)"
proof -
  let ?rival = "rival_commit e s (length ms) g cs"
  let ?T1 = "snd (inbox_markSQL e Consumer (env_Source inc) (env_ID inc) (tbl db))"
  let ?t1 = "(begin_tx db)\<lparr>stmts := 1, view := ?T1\<rparr>"
  let ?t2 = "?t1\<lparr>stmts := 2\<rparr>"
  have mark: "MarkConsumed e Consumer (env_Source inc) (env_ID inc) (begin_tx db) = (Inr True, ?t1)"
    using race ne new by (simp add: calm_MarkConsumed quiet_MarkConsumed Consumer_def races_def)
  have ev1: "events ?T1 = events (tbl db)" by (simp add: inbox_markSQL_frame [OF refl])
  have rows1: "stream_rows ?T1 = stream_rows (tbl db)" using ev1 by (rule stream_rows_same_events)
  have len: "length ms = length (stream_rows (tbl db) s)"
    using decode_all_length ms(1) by (fastforce simp: seat_messages_def)
  have log1: "log_ok ?T1" using seats_ok_log [OF sok] by (simp add: log_ok_iff versions_ok_def rows1)
  have load: "LoadSeat L e s ?t1 = (Inr (st, last_meta (map (recorded s) (stream_rows ?T1 s))), ?t2)"
    using quiet_LoadSeat [of "quieten e" ?t1 L s ms st] race log1 ms
    by (simp add: calm_LoadSeat races_def seat_messages_def rows1 numeral_2_eq_2)
  have rlog: "log_ok (?rival ?T1)"
    unfolding rival_commit_def using log1 len by (intro log_ok_append) (simp_all add: rows1)
  have rlen: "length ms < length (stream_rows (?rival ?T1) s)"
    using cs len by (simp add: rival_commit_def stream_rows_append rows1)
  obtain t3 where app: "AppendSeat L e s (int (length ms)) (out_Events out) (command_meta inc) ?t2 =
      (Inl ErrVersionConflict, t3)" "base t3 = ?rival (tbl db)"
    using stale_AppendSeat [of ?t2 e L s "command_meta inc" "out_Events out" stored "length ms"]
      race rlog rlen enc by (auto simp: races_def)
  have "applyCommand L enc e ids inc cmd s (begin_tx db) = (Inl ErrVersionConflict, t3)"
    using mark load ms(3) app(1) Fold_version [OF ms(2)] by (simp add: applyCommand_def bindE_def liftE_def)
  then show ?thesis
    using race sid app(2) by (simp add: applyInOneTransaction_def WithTx_def races_def rollback_tx_def)
qed

text \<open>
  C16. The loser of a race re-decides: when a rival commits to the same seat between a command's load
  and its append, the first attempt fails with the conflict and takes its consumed-record back with
  it, and the second attempt applies in full the decision taken from the state the rival left,
  instead of the one that was out of date.
\<close>

theorem Handle_loser_redecides:
  assumes "races (envs 0) (rival_commit (envs 0) s (length ms) g cs)" "cs \<noteq> []"
    and "seats_ok L (tbl db)" "SeatID cmd = Inr s" "s \<noteq> []" "env_Source inc \<noteq> []" "env_ID inc \<noteq> []"
    and "(Consumer, env_Source inc, env_ID inc) \<notin> consumed (tbl db)"
    and "seat_messages L (tbl db) s = Inr ms" "Fold L ms = Inr st" "Decide L st cmd = Inr out"
    and "out_Events out \<noteq> []" "encode_all L s (command_meta inc) (out_Events out) = Inr stored"
      "storable (envs 0) (length ms) stored"
    and "U = rival_commit (envs 0) s (length ms) g cs (tbl db)" "seats_ok L U"
    and "quiet (envs 1)" "codec_ok L (envs 1)"
    and "seat_messages L U s = Inr ms'" "Fold L ms' = Inr st'" "Decide L st' cmd = Inr out'"
    and "encode_all L s (command_meta inc) (out_Events out') = Inr stored'"
      "storable (envs 1) (length ms') stored'"
    and "outgoing enc (ids 1) (Messages out') (reply_envelope inc s) = Inr msgs"
      "list_all (\<lambda>m. msg_Payload m \<noteq> []) msgs"
  shows "\<exists>db'. Handle L enc envs ids inc cmd db = (Inr (), 2, db') \<and>
    command_applied L (envs 1) (Consumer, env_Source inc, env_ID inc) s out' msgs U (tbl db')"
proof -
  obtain db1 where one: "applyInOneTransaction L enc (envs 0) (ids 0) inc cmd db = (Inl ErrVersionConflict, db1)"
    and U: "tbl db1 = U"
    using lost_attempt [OF assms(1-4,6-14)] assms(15) by blast
  have "consumed U = consumed (tbl db)" by (simp add: assms(15) rival_commit_def consumed_def)
  then obtain t where t: "applyCommand L enc (envs 1) (ids 1) inc cmd s (begin_tx db1) = (Inr (), t)"
    "\<not> aborted t"
    "command_applied L (envs 1) (Consumer, env_Source inc, env_ID inc) s out' msgs U (view t)"
    using quiet_apply [where db = db1, unfolded U, OF assms(17,18,16,5,6,7) _ assms(19-25)] assms(8) by auto
  have "applyInOneTransaction L enc (envs 1) (ids 1) inc cmd db1 =
      (Inr (), db1\<lparr>tbl := view t, sqs := seqs t, notices := notices db1 @ pending t\<rparr>)"
    using quiet_WithTx_ok [where fn = "applyCommand L enc (envs 1) (ids 1) inc cmd s", OF assms(17) t(1,2)]
      assms(4) by (simp add: applyInOneTransaction_def)
  then have "Handle L enc envs ids inc cmd db =
      (Inr (), 2, db1\<lparr>tbl := view t, sqs := seqs t, notices := notices db1 @ pending t\<rparr>)"
    using one by (simp add: Handle_def eval_nat_numeral ConflictRetries_def)
  then show ?thesis using t(3) by simp
qed

text \<open>Hold \<open>h2\<close> loses the seat to hold \<open>h1\<close>, and is told so.\<close>

definition race_env :: env where
  "race_env = calm_env\<lparr>others := (\<lambda>n _. if n = 2 then rival_commit calm_env ''14A'' 0 0 held_columns else (\<lambda>T. T))\<rparr>"

definition demo_refusal :: message where
  "demo_refusal = SeatUnavailableMsg \<lparr>su_HoldId = ''h2'', su_BookingId = ''b'', su_SeatId = ''14A'',
     su_Reason = ''seat is held''\<rparr>"

lemma rival_tables: "rival_commit race_env ''14A'' 0 0 held_columns (tbl empty_db) = held_tables"
  by (simp add: rival_commit_def held_tables_def empty_db_def empty_tables_def held_columns_def
      race_env_def calm_env_def)

lemmas rival_messages = held_tables_messages [folded rival_tables]
lemmas rival_ok = held_tables_ok [folded rival_tables]

lemma race_decisions:
  "Decide demo_lib zero_SeatState (demo_hold ''h2'') = Inr \<lparr>out_Events = [demo_held ''h2''], out_Replies = [],
     out_Timers = [\<lparr>st_FireAt = 900, st_Token = ''h2''\<rparr>]\<rparr>"
  "Decide demo_lib demo_state (demo_hold ''h2'') = Inr (empty_Outcome\<lparr>out_Replies := [demo_refusal]\<rparr>)"
  by (simp_all add: demo_hold_def outcome_defs zero_SeatState_def demo_state_def status_defs
      demo_refusal_def Status_String_def demo_held_def demo_lib_def table_lib_def)

theorem Handle_loser_redecides_witness:
  "\<exists>db' ob. Handle demo_lib demo_enc (\<lambda>i. if i = 0 then race_env else calm_env) (\<lambda>_. demo_ids)
      (demo_envelope ''c2'') (demo_hold ''h2'') empty_db = (Inr (), 2, db') \<and>
    seat_messages demo_lib (tbl db') ''14A'' = Inr [demo_held ''h1''] \<and>
    outbox (tbl db') = [ob] \<and> ob_payload ob = FullName demo_refusal"
proof -
  let ?envs = "\<lambda>i::nat. if i = 0 then race_env else calm_env"
  let ?inc = "demo_envelope ''c2''" and ?h2 = "demo_held ''h2''"
  let ?U = "rival_commit race_env ''14A'' 0 0 held_columns (tbl empty_db)"
  let ?out = "\<lparr>out_Events = [?h2], out_Replies = [], out_Timers = [\<lparr>st_FireAt = 900, st_Token = ''h2''\<rparr>]\<rparr>"
  let ?out' = "empty_Outcome\<lparr>out_Replies := [demo_refusal]\<rparr>"
  let ?ev = "\<lparr>es_Type = FullName ?h2, es_Data = ''2'', es_Meta = command_meta ?inc\<rparr>"
  let ?msg = "outgoing_message (demo_ids 0) (reply_envelope ?inc ''14A'') demo_refusal (FullName demo_refusal)"
  have race: "races race_env (rival_commit race_env ''14A'' 0 0 held_columns)"
    by (simp add: races_def race_env_def calm_env_def calm_at_def rival_commit_def fun_eq_iff held_columns_def)
  have enc: "encode_all demo_lib ''14A'' (command_meta ?inc) [?h2] = Inr [?ev]"
    by (simp add: Encode_def TypeName_def demo_lib_def table_lib_def demo_held_def)
  have st: "storable race_env 0 [?ev]"
    by (simp add: storable_def race_env_def calm_env_def demo_held_def)
  have out: "outgoing demo_enc demo_ids (Messages ?out') (reply_envelope ?inc ''14A'') = Inr [?msg]"
    by (simp add: outgoing_def Messages_def empty_Outcome_def demo_enc_def)
  have basics: "held_columns \<noteq> []" "seats_ok demo_lib (tbl empty_db)" "SeatID (demo_hold ''h2'') = Inr ''14A''"
    "''14A'' \<noteq> []" "env_Source ?inc \<noteq> []" "env_ID ?inc \<noteq> []" "Fold demo_lib [] = Inr zero_SeatState"
    "(Consumer, env_Source ?inc, env_ID ?inc) \<notin> consumed (tbl empty_db)" "[?h2] \<noteq> []"
    "encode_all demo_lib ''14A'' (command_meta ?inc) (out_Events ?out') = Inr []" "(1::nat) \<noteq> 0"
    "list_all (\<lambda>m. msg_Payload m \<noteq> []) [?msg]" "storable calm_env (Suc 0) []"
    by (simp_all add: held_columns_def empty_db_def demo_hold_def demo_envelope_def consumed_def Fold_def
        empty_Outcome_def outgoing_message_def Let_def demo_refusal_def storable_def)
      (simp add: empty_tables_def)
  have "\<exists>db'. Handle demo_lib demo_enc ?envs (\<lambda>_. demo_ids) ?inc (demo_hold ''h2'') empty_db = (Inr (), 2, db') \<and>
      command_applied demo_lib (?envs 1) (Consumer, env_Source ?inc, env_ID ?inc) ''14A'' ?out' [?msg] ?U (tbl db')"
    by (rule Handle_loser_redecides [where ms = "[]" and st = zero_SeatState and out = ?out and stored = "[?ev]"
        and g = 0 and cs = held_columns and st' = demo_state and ms' = "[demo_held ''h1'']" and stored' = "[]"])
      (simp_all only: if_True if_False refl simp_thms race basics held_tables_fold enc race_decisions st out rival_ok
        rival_messages codec_ok_demo quiet_calm_env seat_messages_empty list.size Outcome.select_convs add_0)
  then obtain db' n where run: "Handle demo_lib demo_enc ?envs (\<lambda>_. demo_ids) ?inc (demo_hold ''h2'') empty_db = (Inr (), 2, db')"
    and sm: "seat_messages demo_lib (tbl db') ''14A'' = Inr [demo_held ''h1'']"
    and ob: "outbox (tbl db') = outbox ?U @ outbox_rows n [?msg]"
    by (auto simp: command_applied_def rival_messages empty_Outcome_def)
  then show ?thesis
    by (auto simp: rival_commit_def empty_db_def empty_tables_def outgoing_message_def Let_def)
qed

end
