(* ===== verification/Projection.thy ===== *)
theory Projection
  imports SeatStore
begin

text \<open>
  \<^verbatim>\<open>internal/inventory/projection.go\<close>: the browsing view \<^verbatim>\<open>seat_availability\<close>, kept by re-deriving a
  seat's row from its stream, rebuilt as a whole, and read back one seat or one flight at a time.
\<close>

section \<open>Writing the view\<close>

definition deadline :: "time \<Rightarrow> time option" where
  "deadline t = (if t = 0 then None else Some t)"

text \<open>The row a folded seat is written as.\<close>

definition availability_row :: "env \<Rightarrow> string \<Rightarrow> SeatState \<Rightarrow> avail_row" where
  "availability_row e seatID st =
     \<lparr>av_seat_id = seatID, av_status = Status_String (ss_Status st), av_hold_id = ss_HoldID st,
      av_booking_id = ss_BookingID st, av_expires_at = map_option (tstz e) (deadline (ss_ExpiresAt st)),
      av_version = ss_Version st\<rparr>"

text \<open>\<^verbatim>\<open>INSERT ... ON CONFLICT (seat_id) DO UPDATE ... WHERE seat_availability.version < excluded.version\<close>\<close>

definition upsertAvailabilitySQL :: "avail_row \<Rightarrow> tables \<Rightarrow> unit \<times> tables" where
  "upsertAvailabilitySQL new T =
     ((), T\<lparr>seat_availability :=
        if list_ex (\<lambda>r. av_seat_id r = av_seat_id new) (seat_availability T)
        then map (\<lambda>r. if av_seat_id r = av_seat_id new \<and> av_version r < av_version new then new else r)
               (seat_availability T)
        else seat_availability T @ [new]\<rparr>)"

definition project :: "protolib \<Rightarrow> env \<Rightarrow> string \<Rightarrow> tx \<Rightarrow> (error + unit) \<times> tx" where
  "project L e seatID =
     bindE (LoadSeat L e seatID) (\<lambda>loaded.
       if ss_Version (fst loaded) = 0 then retE ()
       else
         wrapE (\<lambda>err. Errorf (''inventory: project '' @ seatID @ '': '') err [])
           (exec e (update_stmt (upsertAvailabilitySQL (availability_row e seatID (fst loaded))))))"

definition Project :: "protolib \<Rightarrow> env \<Rightarrow> string \<Rightarrow> database \<Rightarrow> (error + unit) \<times> database" where
  "Project L e seatID = WithTx e (project L e seatID)"

fun project_all :: "protolib \<Rightarrow> env \<Rightarrow> string list \<Rightarrow> tx \<Rightarrow> (error + unit) \<times> tx" where
  "project_all L e [] = retE ()"
| "project_all L e (s # ss) = bindE (project L e s) (\<lambda>_. project_all L e ss)"

definition clearSQL :: "tables \<Rightarrow> unit \<times> tables" where
  "clearSQL T = ((), T\<lparr>seat_availability := []\<rparr>)"

definition rebuild :: "protolib \<Rightarrow> env \<Rightarrow> tx \<Rightarrow> (error + unit) \<times> tx" where
  "rebuild L e =
     bindE (Streams e) (\<lambda>ids.
     bindE (wrapE (\<lambda>err. Errorf ''inventory: clear seat_availability: '' err [])
              (exec e (update_stmt clearSQL))) (\<lambda>_.
     project_all L e ids))"

definition Rebuild :: "protolib \<Rightarrow> env \<Rightarrow> database \<Rightarrow> (error + unit) \<times> database" where
  "Rebuild L e = WithTx e (rebuild L e)"

section \<open>Reading the view\<close>

record Availability =
  a_SeatID :: string
  a_Status :: Status
  a_HoldID :: string
  a_BookingID :: string
  a_ExpiresAt :: time
  a_Version :: int

definition parseStatus :: "string \<Rightarrow> error + Status" where
  "parseStatus s =
     (if s = Status_String StatusFree then Inr StatusFree
      else if s = Status_String StatusHeld then Inr StatusHeld
      else Inl (ErrorNew (''inventory: unknown status '' @ quote s @ '' in seat_availability'')))"

definition availabilitySQL :: "string \<Rightarrow> tables \<Rightarrow> avail_row option" where
  "availabilitySQL seatID T = find (\<lambda>r. av_seat_id r = seatID) (seat_availability T)"

definition LoadAvailability ::
  "env \<Rightarrow> string \<Rightarrow> database \<Rightarrow> (error + Availability option) \<times> database" where
  "LoadAvailability e seatID =
     bindE
       (wrapE (\<lambda>err. Errorf (''inventory: read availability for '' @ seatID @ '': '') err [])
         (pool_exec e (select_stmt (availabilitySQL seatID))))
       (\<lambda>row. case row of
          None \<Rightarrow> retE None
        | Some r \<Rightarrow>
            bindE (liftE (parseStatus (av_status r))) (\<lambda>status.
              retE (Some \<lparr>a_SeatID = av_seat_id r, a_Status = status, a_HoldID = av_hold_id r,
                a_BookingID = av_booking_id r,
                a_ExpiresAt = (case av_expires_at r of None \<Rightarrow> 0 | Some t \<Rightarrow> t),
                a_Version = av_version r\<rparr>)))"

text \<open>SQL \<^verbatim>\<open>LIKE\<close>: \<^verbatim>\<open>%\<close> is any text, \<^verbatim>\<open>_\<close> any character, a backslash escapes.\<close>

fun like :: "string \<Rightarrow> string \<Rightarrow> bool" where
  "like [] ts = (ts = [])"
| "like (p # ps) ts =
     (if p = CHR ''%'' then like ps ts \<or> (case ts of [] \<Rightarrow> False | _ # ts' \<Rightarrow> like (p # ps) ts')
      else
        (case ts of
           [] \<Rightarrow> False
         | t # ts' \<Rightarrow>
             if p = CHR 0x5C then (case ps of [] \<Rightarrow> False | q # ps' \<Rightarrow> q = t \<and> like ps' ts')
             else (p = CHR ''_'' \<or> p = t) \<and> like ps ts'))"

definition heldSeatsSQL :: "env \<Rightarrow> string \<Rightarrow> string \<Rightarrow> tables \<Rightarrow> string list" where
  "heldSeatsSQL e status flightPrefix T =
     text_order e
       (map av_seat_id
         (filter (\<lambda>r. av_status r = status \<and> like (flightPrefix @ ''%'') (av_seat_id r))
           (seat_availability T)))"

definition HeldSeats :: "env \<Rightarrow> string \<Rightarrow> database \<Rightarrow> (error + string list) \<times> database" where
  "HeldSeats e flightPrefix =
     wrapE (\<lambda>err. Errorf (''inventory: browse '' @ flightPrefix @ '': '') err [])
       (pool_exec e (select_stmt (heldSeatsSQL e (Status_String StatusHeld) flightPrefix)))"

section \<open>Facts\<close>

lemma keeps_base_project [frame_intros]: "keeps (base_frame e) (project L e s)"
  unfolding project_def by (auto intro!: frame_intros)

lemma keeps_base_project_all [frame_intros]: "keeps (base_frame e) (project_all L e ss)"
  by (induction ss) (auto intro!: frame_intros)

lemma keeps_base_rebuild [frame_intros]: "keeps (base_frame e) (rebuild L e)"
  unfolding rebuild_def by (auto intro!: frame_intros)

definition row_for :: "tables \<Rightarrow> string \<Rightarrow> avail_row option" where
  "row_for T s = find (\<lambda>r. av_seat_id r = s) (seat_availability T)"

definition view_ids :: "tables \<Rightarrow> string list" where
  "view_ids T = map av_seat_id (seat_availability T)"

lemma find_upsert:
  "find (\<lambda>r. av_seat_id r = s) (map (\<lambda>r. if av_seat_id r = av_seat_id new \<and> av_version r < av_version new
       then new else r) rows) =
   map_option (\<lambda>r. if s = av_seat_id new \<and> av_version r < av_version new then new else r)
     (find (\<lambda>r. av_seat_id r = s) rows)"
  by (induction rows) auto

lemma upsert_row_for:
  "row_for (snd (upsertAvailabilitySQL new T)) s =
     (if s \<noteq> av_seat_id new then row_for T s
      else case row_for T s of
             None \<Rightarrow> Some new
           | Some r \<Rightarrow> Some (if av_version r < av_version new then new else r))"
proof (cases "list_ex (\<lambda>r. av_seat_id r = av_seat_id new) (seat_availability T)")
  case True
  then have "\<exists>r. find (\<lambda>r. av_seat_id r = av_seat_id new) (seat_availability T) = Some r"
    by (cases "find (\<lambda>r. av_seat_id r = av_seat_id new) (seat_availability T)")
      (auto simp: list_ex_iff find_None_iff)
  then show ?thesis using True
    by (auto simp: upsertAvailabilitySQL_def row_for_def find_upsert map_option_case split: option.split)
next
  case False
  then have "find (\<lambda>r. av_seat_id r = av_seat_id new) (seat_availability T) = None"
    by (simp add: find_None_iff list_ex_iff)
  moreover have "find P (xs @ [y]) = (case find P xs of None \<Rightarrow> if P y then Some y else None | Some x \<Rightarrow> Some x)"
    for P and xs :: "avail_row list" and y by (induction xs) auto
  ultimately show ?thesis using False
    by (auto simp: upsertAvailabilitySQL_def row_for_def split: option.split)
qed

lemma upsert_events [simp]: "events (snd (upsertAvailabilitySQL new T)) = events T"
  by (simp add: upsertAvailabilitySQL_def)

lemma quiet_project:
  assumes "quiet e" "\<not> aborted t" "log_ok (view t)" "seat_messages L (view t) s = Inr ms" "Fold L ms = Inr st"
  shows "\<exists>t'. project L e s t = (Inr (), t') \<and> \<not> aborted t' \<and> pending t' = pending t \<and> seqs t' = seqs t \<and>
    view t' = (if ms = [] then view t else snd (upsertAvailabilitySQL (availability_row e s st) (view t)))"
proof -
  have "ss_Version st = int (length ms)" using Fold_version [OF assms(5)] .
  then show ?thesis
    using assms by (simp add: project_def bindE_def quiet_LoadSeat wrapE_def quiet_exec_update retE_def)
qed

text \<open>
  A view in order: at most one row per seat, each of them the fold of a prefix of that seat's stream.
\<close>

definition row_ok :: "protolib \<Rightarrow> env \<Rightarrow> tables \<Rightarrow> avail_row \<Rightarrow> bool" where
  "row_ok L e T r =
     (case seat_messages L T (av_seat_id r) of
        Inl _ \<Rightarrow> False
      | Inr ms \<Rightarrow>
          0 < av_version r \<and> av_version r \<le> int (length ms) \<and>
          (case Fold L (take (nat (av_version r)) ms) of
             Inl _ \<Rightarrow> False
           | Inr st \<Rightarrow> r = availability_row e (av_seat_id r) st))"

definition view_ok :: "protolib \<Rightarrow> env \<Rightarrow> tables \<Rightarrow> bool" where
  "view_ok L e T \<longleftrightarrow> distinct (view_ids T) \<and> list_all (row_ok L e T) (seat_availability T)"

lemma row_for_mem: "row_for T s = Some r \<Longrightarrow> r \<in> set (seat_availability T) \<and> av_seat_id r = s"
  unfolding row_for_def by (induction "seat_availability T") (auto simp: find_Some_iff2 find_Some_iff)

lemma find_by_key: "distinct (map f xs) \<Longrightarrow> x \<in> set xs \<Longrightarrow> find (\<lambda>y. f y = f x) xs = Some x"
  by (induction xs) (auto simp: image_iff)

lemma row_for_unique:
  "distinct (view_ids T) \<Longrightarrow> r \<in> set (seat_availability T) \<Longrightarrow> row_for T (av_seat_id r) = Some r"
  unfolding row_for_def view_ids_def by (rule find_by_key)

lemma upsert_current:
  assumes "distinct (view_ids T)" "row_for T (av_seat_id new) = Some r" "\<not> av_version r < av_version new"
  shows "snd (upsertAvailabilitySQL new T) = T"
proof -
  have "x = r" if "x \<in> set (seat_availability T)" "av_seat_id x = av_seat_id new" for x
    using row_for_unique [OF assms(1) that(1)] that(2) assms(2) by simp
  then have "map (\<lambda>x. if av_seat_id x = av_seat_id new \<and> av_version x < av_version new then new else x)
      (seat_availability T) = seat_availability T"
    using assms(3) by (intro map_idI) auto
  moreover have "list_ex (\<lambda>x. av_seat_id x = av_seat_id new) (seat_availability T)"
    using row_for_mem [OF assms(2)] by (auto simp: list_ex_iff)
  ultimately show ?thesis by (simp add: upsertAvailabilitySQL_def)
qed

lemma upsert_ids:
  "distinct (view_ids T) \<Longrightarrow> distinct (view_ids (snd (upsertAvailabilitySQL new T)))"
proof -
  have "map av_seat_id (map (\<lambda>r. if av_seat_id r = av_seat_id new \<and> av_version r < av_version new then new else r) xs) =
      map av_seat_id xs" for xs by (induction xs) auto
  then show "distinct (view_ids T) \<Longrightarrow> ?thesis"
    by (auto simp: upsertAvailabilitySQL_def view_ids_def list_ex_iff simp del: map_map)
qed

lemma view_okD:
  assumes "view_ok L e T" "row_for T s = Some r" "seat_messages L T s = Inr ms" "Fold L ms = Inr st"
  shows "av_version r \<le> ss_Version st"
    "\<not> av_version r < ss_Version st \<Longrightarrow> r = availability_row e s st"
proof -
  have r: "r \<in> set (seat_availability T)" "av_seat_id r = s" using row_for_mem [OF assms(2)] by auto
  then have ok: "row_ok L e T r" using assms(1) by (simp add: view_ok_def list_all_iff)
  then have le: "av_version r \<le> int (length ms)" using r(2) assms(3) by (simp add: row_ok_def)
  then show "av_version r \<le> ss_Version st" using Fold_version [OF assms(4)] by simp
  assume "\<not> av_version r < ss_Version st"
  then have "take (nat (av_version r)) ms = ms" using le Fold_version [OF assms(4)] by simp
  then show "r = availability_row e s st" using ok r(2) assms(3,4) by (simp add: row_ok_def)
qed

lemma quiet_Project:
  assumes "quiet e" "log_ok (tbl db)" "seat_messages L (tbl db) s = Inr ms" "Fold L ms = Inr st" "ms \<noteq> []"
  shows "Project L e s db = (Inr (), db\<lparr>tbl := snd (upsertAvailabilitySQL (availability_row e s st) (tbl db))\<rparr>)"
proof -
  obtain t where t: "project L e s (begin_tx db) = (Inr (), t)" "\<not> aborted t" "pending t = []"
    "seqs t = sqs db" "view t = snd (upsertAvailabilitySQL (availability_row e s st) (tbl db))"
    using quiet_project [OF assms(1), of "begin_tx db" L s ms st] assms(2-5) by auto
  then show ?thesis
    unfolding Project_def using quiet_WithTx_ok [of e "project L e s" db "()" t] assms(1) by simp
qed

text \<open>The row a projection leaves, from a view in order.\<close>

lemma upsert_derived:
  assumes "view_ok L e T" "seat_messages L T s = Inr ms" "Fold L ms = Inr st"
  shows "row_for (snd (upsertAvailabilitySQL (availability_row e s st) T)) s = Some (availability_row e s st)"
proof -
  have "av_seat_id (availability_row e s st) = s" "av_version (availability_row e s st) = ss_Version st"
    by (simp_all add: availability_row_def)
  then show ?thesis using view_okD [OF assms(1) _ assms(2,3)] by (auto simp: upsert_row_for split: option.split)
qed

lemma view_ok_extend:
  assumes "view_ok L e T" "seat_availability T' = seat_availability T"
    and "\<And>s. \<exists>ms'. seat_messages L T' s = (case seat_messages L T s of Inl x \<Rightarrow> Inl x | Inr ms \<Rightarrow> Inr (ms @ ms'))"
  shows "view_ok L e T'"
proof -
  have "row_ok L e T' r" if "row_ok L e T r" for r
    using that assms(3) [of "av_seat_id r"]
    by (auto simp: row_ok_def take_append split: sum.splits)
  then show ?thesis using assms(1,2) by (simp add: view_ok_def view_ids_def list_all_iff)
qed

section \<open>Properties\<close>

text \<open>
  Re-deriving is correct and idempotent: projecting a seat leaves its row equal to the fold of its
  whole stream, whatever older version the row was at, touches no other row and no stream, and doing
  it again changes nothing at all.
\<close>

theorem Project_rederives:
  assumes "quiet e" "seats_ok L (tbl db)" "view_ok L e (tbl db)"
    and "seat_messages L (tbl db) s = Inr ms" "Fold L ms = Inr st" "ms \<noteq> []"
  shows "\<exists>db'. Project L e s db = (Inr (), db') \<and> row_for (tbl db') s = Some (availability_row e s st) \<and>
    (\<forall>s'. s' \<noteq> s \<longrightarrow> row_for (tbl db') s' = row_for (tbl db) s') \<and> events (tbl db') = events (tbl db) \<and>
    Project L e s db' = (Inr (), db')"
proof -
  let ?new = "availability_row e s st"
  let ?T = "snd (upsertAvailabilitySQL ?new (tbl db))"
  let ?db = "db\<lparr>tbl := ?T\<rparr>"
  have id: "av_seat_id ?new = s" "av_version ?new = ss_Version st" by (simp_all add: availability_row_def)
  note run = quiet_Project [OF assms(1) _ _ assms(5,6)]
  note new = upsert_derived [OF assms(3,4,5)]
  have rows: "stream_rows ?T = stream_rows (tbl db)" by (rule stream_rows_same_events) simp
  have "snd (upsertAvailabilitySQL ?new ?T) = ?T"
    using assms(3) new id by (intro upsert_current upsert_ids) (auto simp: view_ok_def)
  then have "Project L e s ?db = (Inr (), ?db)"
    using run [of ?db] seats_ok_log [OF assms(2)] assms(4)
    by (simp add: log_ok_iff versions_ok_def seat_messages_def rows)
  then show ?thesis
    using run [OF seats_ok_log [OF assms(2)] assms(4)] new by (simp add: upsert_row_for id)
qed

text \<open>What anybody may do to the view: never move a seat's row back to an older version.\<close>

definition view_forward :: "tables \<Rightarrow> tables \<Rightarrow> bool" where
  "view_forward T T' \<longleftrightarrow>
     (\<forall>s r. row_for T s = Some r \<longrightarrow> (\<exists>r'. row_for T' s = Some r' \<and> av_version r \<le> av_version r'))"

lemma view_forward_refl: "view_forward T T"
  by (auto simp: view_forward_def)

lemma view_forward_trans: "view_forward T U \<Longrightarrow> view_forward U V \<Longrightarrow> view_forward T V"
  unfolding view_forward_def by (meson order_trans)

lemma view_forward_upsert: "view_forward T (snd (upsertAvailabilitySQL new T))"
  by (auto simp: view_forward_def upsert_row_for)

text \<open>
  A projection that succeeds has caught up: whatever the others commit meanwhile, it leaves the seat's
  row at the version the stream had when it started, or a later one.
\<close>

definition caught_up :: "tables \<Rightarrow> string \<Rightarrow> tables \<Rightarrow> bool" where
  "caught_up T s T' \<longleftrightarrow>
     (stream_rows T s = [] \<or>
      (\<exists>row. row_for T' s = Some row \<and> int (length (stream_rows T s)) \<le> av_version row))"

lemma caught_up_forward: "caught_up T s U \<Longrightarrow> view_forward U V \<Longrightarrow> caught_up T s V"
  unfolding caught_up_def view_forward_def by (meson order_trans)

lemma caught_up_extends: "caught_up T s V \<Longrightarrow> extends T0 T \<Longrightarrow> caught_up T0 s V"
  unfolding caught_up_def extends_def
  by (metis order_trans of_nat_le_iff prefix_length_le prefix_Nil)

lemma upsert_caught_up:
  assumes "int (length (stream_rows T s)) \<le> ss_Version st"
  shows "caught_up T s (snd (upsertAvailabilitySQL (availability_row e s st) U))"
proof -
  have "av_seat_id (availability_row e s st) = s" "av_version (availability_row e s st) = ss_Version st"
    by (simp_all add: availability_row_def)
  then show ?thesis using assms by (auto simp: caught_up_def upsert_row_for split: option.split)
qed

lemma project_catches_up:
  assumes "seats_rely L e" "seats_ok L (view t0)" "project L e s t0 = (Inr (), t)"
  shows "caught_up (view t0) s (view t)"
proof -
  obtain st m t1 where load: "LoadSeat L e s t0 = (Inr (st, m), t1)"
    and rest: "(if ss_Version st = 0 then retE ()
         else wrapE (\<lambda>err. Errorf (''inventory: project '' @ s @ '': '') err [])
           (exec e (update_stmt (upsertAvailabilitySQL (availability_row e s st))))) t1 = (Inr (), t)"
    using assms(3) by (auto simp: project_def bindE_eq_Inr_iff cong: if_cong)
  note spec = LoadSeat_spec [OF assms(2,1) load]
  obtain ms where ms: "seat_messages L (view t1) s = Inr ms" "Fold L ms = Inr st" using spec(4) by blast
  have "extends (view t0) (view t1)" using seats_relyD [OF assms(1)] assms(2) unfolding spec(3) by (simp add: seats_step_def)
  then have "length (stream_rows (view t0) s) \<le> length (stream_rows (view t1) s)"
    by (simp add: extends_def prefix_length_le)
  also have "length (stream_rows (view t1) s) = length ms"
    using decode_all_length ms(1) by (fastforce simp: seat_messages_def)
  finally have le: "int (length (stream_rows (view t0) s)) \<le> ss_Version st" using Fold_version [OF ms(2)] by simp
  show ?thesis
  proof (cases "ss_Version st = 0")
    case True
    then show ?thesis using le by (simp add: caught_up_def)
  next
    case False
    then have "exec e (update_stmt (upsertAvailabilitySQL (availability_row e s st))) t1 = (Inr (), t)" using rest by simp
    from exec_ok(5) [OF this] have "view t = snd (upsertAvailabilitySQL (availability_row e s st)
        (others e (stmts t1) (seqs t1) (view t1)))"
      by (auto simp: update_stmt_def)
    then show ?thesis using upsert_caught_up [OF le] by simp
  qed
qed

lemma Project_catches_up:
  assumes "seats_rely L e" "others_keep e view_forward" "seats_ok L (tbl db)" "Project L e s db = (Inr (), db')"
  shows "caught_up (tbl db) s (tbl db')"
  using assms(4) [unfolded Project_def] keeps_base_project
proof (cases rule: WithTx_cases)
  case (all x t)
  have "caught_up (tbl db) s (view t)" using project_catches_up [OF assms(1), of "begin_tx db" s t] all(1) assms(3) by simp
  moreover have "view_forward (view t) (others e (stmts t) (seqs t) (view t))"
    using assms(2) by (simp add: others_keep_def)
  ultimately show ?thesis using all(3) by (simp add: applied_tx_def interleave_def) (rule caught_up_forward)
qed simp

definition held_view_db :: database where
  "held_view_db = empty_db\<lparr>tbl := held_tables\<rparr>"

theorem Project_rederives_witness:
  "\<exists>db'. Project demo_lib calm_env ''14A'' held_view_db = (Inr (), db') \<and>
    row_for (tbl db') ''14A'' = Some (availability_row calm_env ''14A'' demo_state) \<and>
    Project demo_lib calm_env ''14A'' db' = (Inr (), db')"
proof -
  have "view_ok demo_lib calm_env held_tables"
    by (simp add: view_ok_def view_ids_def held_tables_def empty_tables_def)
  then show ?thesis
    using Project_rederives [of calm_env demo_lib held_view_db "''14A''" "[demo_held ''h1'']" demo_state]
      held_tables_ok held_tables_messages held_tables_fold
    by (fastforce simp: held_view_db_def)
qed

text \<open>The fold of a stream, as the row it is written as.\<close>

definition derived_row :: "protolib \<Rightarrow> env \<Rightarrow> tables \<Rightarrow> string \<Rightarrow> avail_row option" where
  "derived_row L e T s =
     (case seat_messages L T s of
        Inl _ \<Rightarrow> None
      | Inr ms \<Rightarrow>
          if ms = [] then None
          else (case Fold L ms of Inl _ \<Rightarrow> None | Inr st \<Rightarrow> Some (availability_row e s st)))"

lemma seats_ok_derived:
  assumes "seats_ok L T"
  shows "\<exists>ms st. seat_messages L T s = Inr ms \<and> Fold L ms = Inr st"
  using seats_okD [OF assms, of s] valid_history_folds by blast

lemma quiet_project_all:
  assumes "quiet e" "seats_ok L (view t)" "\<not> aborted t" "distinct ss"
    and "\<forall>s \<in> set ss. row_for (view t) s = None"
  shows "\<exists>t'. project_all L e ss t = (Inr (), t') \<and> \<not> aborted t' \<and> pending t' = pending t \<and>
    events (view t') = events (view t) \<and>
    (\<forall>s. row_for (view t') s = (if s \<in> set ss then derived_row L e (view t) s else row_for (view t) s))"
  using assms(2-5)
proof (induction ss arbitrary: t)
  case Nil
  then show ?case by (simp add: retE_def)
next
  case (Cons a ss)
  obtain ms st where a: "seat_messages L (view t) a = Inr ms" "Fold L ms = Inr st"
    using seats_ok_derived [OF Cons.prems(1)] by blast
  obtain t1 where t1: "project L e a t = (Inr (), t1)" "\<not> aborted t1" "pending t1 = pending t"
    "view t1 = (if ms = [] then view t else snd (upsertAvailabilitySQL (availability_row e a st) (view t)))"
    using quiet_project [OF assms(1) Cons.prems(2) seats_ok_log [OF Cons.prems(1)] a] by auto
  have ev: "events (view t1) = events (view t)" using t1(4) by simp
  have ok1: "seats_ok L (view t1)"
    using Cons.prems(1) seats_step_same_events [OF ev] by (simp add: seats_step_def)
  have der: "derived_row L e (view t1) s = derived_row L e (view t) s" for s
    using stream_rows_same_events [OF ev] by (simp add: derived_row_def seat_messages_def)
  have "av_seat_id (availability_row e a st) = a" by (simp add: availability_row_def)
  then have r1: "row_for (view t1) s = (if s = a then derived_row L e (view t) a else row_for (view t) s)" for s
    using a t1(4) Cons.prems(4) by (simp add: derived_row_def upsert_row_for)
  have "\<forall>s \<in> set ss. row_for (view t1) s = None" "distinct ss" "a \<notin> set ss"
    using Cons.prems(3,4) r1 by auto
  then obtain t' where "project_all L e ss t1 = (Inr (), t')" "\<not> aborted t'" "pending t' = pending t1"
    "events (view t') = events (view t1)"
    "\<forall>s. row_for (view t') s = (if s \<in> set ss then derived_row L e (view t1) s else row_for (view t1) s)"
    using Cons.IH [OF ok1 t1(2)] by blast
  then show ?case using t1(1,3) ev der r1 \<open>a \<notin> set ss\<close> by (simp add: bindE_def)
qed

text \<open>
  C29. A rebuild folds the whole view again: from any view at all, on a log in order and a quiet
  database, it leaves for every seat exactly the row its stream folds to, no row for a seat without
  a stream, and the streams untouched.
\<close>

theorem Rebuild_derives_all:
  assumes "quiet e" "seats_ok L (tbl db)" "\<forall>xs. mset (text_order e xs) = mset xs"
  shows "\<exists>db'. Rebuild L e db = (Inr (), db') \<and> events (tbl db') = events (tbl db) \<and>
    (\<forall>s. row_for (tbl db') s = derived_row L e (tbl db) s)"
proof -
  let ?ids = "streamsSQL e (tbl db)" and ?T = "(tbl db)\<lparr>seat_availability := []\<rparr>"
  let ?t = "(begin_tx db)\<lparr>stmts := Suc (Suc 0), view := ?T\<rparr>"
  have m: "mset ?ids = mset (remdups (map ev_stream_id (events (tbl db))))"
    using assms(3) by (simp add: streamsSQL_def)
  have ids: "distinct ?ids" "set ?ids = ev_stream_id ` set (events (tbl db))"
    using m by (metis distinct_remdups mset_eq_imp_distinct_iff, metis m set_mset_mset set_remdups image_set)
  have ok: "seats_ok L ?T"
    using assms(2) seats_step_same_events [of ?T "tbl db" L] by (simp add: seats_step_def)
  have none: "row_for ?T s = None" for s by (simp add: row_for_def)
  have der: "derived_row L e ?T s = derived_row L e (tbl db) s" for s
    using stream_rows_same_events [of ?T "tbl db"] by (simp add: derived_row_def seat_messages_def)
  have absent: "derived_row L e (tbl db) s = None" if "s \<notin> set ?ids" for s
    using stream_rows_absent [of s "tbl db"] that ids(2) by (simp add: derived_row_def seat_messages_def)
  obtain t' where t': "project_all L e ?ids ?t = (Inr (), t')" "\<not> aborted t'"
    "events (view t') = events (tbl db)" "\<forall>s. row_for (view t') s = (if s \<in> set ?ids then derived_row L e ?T s else None)"
    using quiet_project_all [OF assms(1), of L ?t ?ids] ok ids(1) none by auto
  have "rebuild L e (begin_tx db) = (Inr (), t')"
    using assms(1) t'(1)
    by (simp add: rebuild_def bindE_def Streams_def wrapE_def quiet_exec_select quiet_exec_update clearSQL_def)
  then show ?thesis
    unfolding Rebuild_def using quiet_WithTx_ok [of e "rebuild L e" db "()" t'] assms(1) t' der absent by simp
qed

theorem Rebuild_derives_all_witness:
  "\<exists>db'. Rebuild demo_lib calm_env held_view_db = (Inr (), db') \<and>
    row_for (tbl db') ''14A'' = derived_row demo_lib calm_env (tbl held_view_db) ''14A''"
  using Rebuild_derives_all [of calm_env demo_lib held_view_db] held_tables_ok
  by (fastforce simp: held_view_db_def calm_env_def quiet_def)

text \<open>A server on which nothing happens from some statement on is a quiet one from there.\<close>

lemma stmts_exec: "exec e st t = (r, t') \<Longrightarrow> stmts t' = Suc (stmts t)"
  by (auto simp: exec_def Let_def interleave_def split: if_splits option.splits prod.splits sum.splits)

lemma stmts_LoadSeat: "LoadSeat L e s t = (r, t') \<Longrightarrow> stmts t' = Suc (stmts t)"
  by (auto simp: LoadSeat_def Load_def bindE_def wrapE_def liftE_def failE_def retE_def
      split: prod.splits sum.splits dest: stmts_exec)

lemma stmts_project:
  assumes "project L e s t = (r, t')"
  shows "stmts t \<le> stmts t'"
  using assms [unfolded project_def]
proof (cases rule: bindE_cases)
  case (err x)
  then show ?thesis using stmts_LoadSeat by fastforce
next
  case (ok loaded t1)
  let ?st = "update_stmt (upsertAvailabilitySQL (availability_row e s (fst loaded)))"
  have "stmts t' = stmts t1 \<or> stmts t' = Suc (stmts t1)"
    using ok(2) by (auto simp: wrapE_def retE_def split: if_splits prod.splits sum.splits dest: stmts_exec)
  then show ?thesis using stmts_LoadSeat [OF ok(1)] by auto
qed

lemma calm_project:
  assumes "\<forall>n \<ge> stmts t. calm_at e n"
  shows "project L e s t = project L (quieten e) s t"
proof -
  obtain r t1 where load: "LoadSeat L (quieten e) s t = (r, t1)" by (cases "LoadSeat L (quieten e) s t")
  have "calm_at e (stmts t1)" using assms stmts_LoadSeat [OF load] by simp
  then show ?thesis
    using assms by (simp add: project_def bindE_def calm_LoadSeat load wrapE_def calm_exec availability_row_def split: sum.split)
qed

lemma calm_project_all:
  "\<forall>n \<ge> stmts t. calm_at e n \<Longrightarrow> project_all L e ss t = project_all L (quieten e) ss t \<and> stmts t \<le> stmts (snd (project_all L e ss t))"
proof (induction ss arbitrary: t)
  case (Cons s ss)
  obtain r t1 where p: "project L (quieten e) s t = (r, t1)" by (cases "project L (quieten e) s t")
  have le: "stmts t \<le> stmts t1" using stmts_project [OF p] .
  then have "\<forall>n \<ge> stmts t1. calm_at e n" using Cons.prems by auto
  from Cons.IH [OF this] show ?case using calm_project [OF Cons.prems, of L s] p le
    by (auto simp: bindE_def split: sum.split)
qed (simp add: retE_def)

lemma derived_row_quieten [simp]: "derived_row L (quieten e) T s = derived_row L e T s"
  by (simp add: derived_row_def availability_row_def split: sum.split)

text \<open>
  C39. A rebuild is not a single snapshot: at the isolation level \<open>WithTx\<close> opens, take any database with
  its streams in order and any seat without a stream, and let other sessions commit, after the streams
  were listed and before the view is cleared, whatever keeps the streams in order and gives that seat
  its first events and its row. If nothing else interferes the rebuild succeeds, every seat listed has
  the row its stream folds to, and that seat is left with a stream and without a row.
\<close>

theorem Rebuild_loses_concurrent_row:
  assumes "seats_ok L (tbl db)" "\<forall>xs. mset (text_order e xs) = mset xs" "stream_rows (tbl db) s = []"
    and "begin_fault e = None" "commit_fault e = None" "fault e 1 = None" "\<forall>n. n \<noteq> 1 \<longrightarrow> calm_at e n"
    and "T1 = others e 1 (sqs db) (tbl db)" "seats_step L (tbl db) T1" "stream_rows T1 s \<noteq> []" "row_for T1 s \<noteq> None"
  shows "\<exists>db'. Rebuild L e db = (Inr (), db') \<and> events (tbl db') = events T1 \<and>
    (\<forall>s'. stream_rows (tbl db) s' \<noteq> [] \<longrightarrow> row_for (tbl db') s' = derived_row L e T1 s') \<and>
    stream_rows (tbl db') s \<noteq> [] \<and> row_for (tbl db') s = None"
proof -
  let ?ids = "streamsSQL e (tbl db)" and ?T = "T1\<lparr>seat_availability := []\<rparr>"
  let ?B = "others e 1 (sqs db) (tbl db)"
  let ?t = "\<lparr>base = ?B, view = ?T, seqs = others_seq e 1 (sqs db), pending = [], aborted = False, stmts = Suc (Suc 0)\<rparr>"
  have m: "mset ?ids = mset (remdups (map ev_stream_id (events (tbl db))))"
    using assms(2) by (simp add: streamsSQL_def)
  have ids: "distinct ?ids" "set ?ids = {s'. stream_rows (tbl db) s' \<noteq> []}"
    using m by (metis distinct_remdups mset_eq_imp_distinct_iff)
      (use mset_eq_setD [OF m] in \<open>auto simp: stream_rows_def filter_empty_conv\<close>)
  have "seats_ok L T1" using assms(1,9) by (simp add: seats_step_def)
  then have ok: "seats_ok L ?T" using seats_step_same_events [of ?T T1 L] by (simp add: seats_step_def)
  have der: "derived_row L e ?T s' = derived_row L e T1 s'" for s'
    using stream_rows_same_events [of ?T T1] by (simp add: derived_row_def seat_messages_def)
  have calm: "\<forall>n \<ge> stmts ?t. calm_at e n" using assms(7) by simp
  obtain t' where t': "project_all L (quieten e) ?ids ?t = (Inr (), t')" "\<not> aborted t'" "events (view t') = events T1"
    "\<forall>s'. row_for (view t') s' = (if s' \<in> set ?ids then derived_row L e ?T s' else None)"
    using quiet_project_all [of "quieten e" L ?t ?ids] ok ids(1) by (auto simp: row_for_def)
  have all: "project_all L e ?ids ?t = (Inr (), t')" "2 \<le> stmts t'"
    using calm_project_all [OF calm, of L ?ids] t'(1) by auto
  have "calm_at e 0" using assms(7) by simp
  then have "Streams e (begin_tx db) = (Inr ?ids, (begin_tx db)\<lparr>stmts := 1\<rparr>)"
    by (simp add: Streams_def wrapE_def calm_exec quiet_exec_select streamsSQL_def)
  moreover have "exec e (update_stmt clearSQL) ((begin_tx db)\<lparr>stmts := 1\<rparr>) = (Inr (), ?t)"
    using assms(6,8) by (simp add: exec_def interleave_def Let_def update_stmt_def clearSQL_def begin_tx_def)
  ultimately have run: "rebuild L e (begin_tx db) = (Inr (), t')"
    using all(1) by (simp add: rebuild_def bindE_def wrapE_def)
  have "calm_at e (stmts t')" using assms(7) all(2) by simp
  then have "Rebuild L e db = (Inr (), applied_tx (t'\<lparr>stmts := Suc (stmts t')\<rparr>) db)"
    using run t'(2) assms(4,5) by (simp add: Rebuild_def WithTx_def commit_tx_def interleave_def Let_def calm_at_def)
  moreover have "stream_rows (view t') s = stream_rows T1 s" using stream_rows_same_events [OF t'(3)] by simp
  moreover have "s \<notin> set ?ids" using ids(2) assms(3) by simp
  ultimately show ?thesis using t'(3,4) ids(2) der assms(10) by (auto simp: applied_tx_def)
qed

text \<open>A seat held before the rebuild, and another one held and projected while it runs.\<close>

definition late_rows :: "event_row list" where
  "late_rows = append_rows calm_env ''14B'' 0 1 held_columns"

definition late_writer_env :: env where
  "late_writer_env = calm_env\<lparr>others := (\<lambda>n S T. if n = 1
     then T\<lparr>events := events T @ late_rows,
            seat_availability := seat_availability T @ [availability_row calm_env ''14B'' demo_state]\<rparr> else T)\<rparr>"

definition late_tables :: tables where
  "late_tables = held_tables\<lparr>events := events held_tables @ late_rows,
     seat_availability := seat_availability held_tables @ [availability_row calm_env ''14B'' demo_state]\<rparr>"

lemma late_tables_rows:
  "stream_rows late_tables ''14A'' = stream_rows held_tables ''14A''" "stream_rows late_tables ''14B'' = late_rows"
  "map ev_stream_id (events late_tables) = [''14A'', ''14B'']"
  by (simp_all add: late_tables_def stream_rows_def held_tables_def held_columns_def late_rows_def)

lemma late_tables_messages:
  "seat_messages demo_lib late_tables ''14A'' = Inr [demo_held ''h1'']"
  "seat_messages demo_lib late_tables ''14B'' = Inr [demo_held ''h1'']"
  using held_tables_messages
  by (simp_all add: seat_messages_def late_tables_rows late_rows_def held_columns_def recorded_def Decode_def
      demo_lib_def table_lib_def)

lemma late_tables_step: "seats_step demo_lib held_tables late_tables"
proof -
  have "seat_ok demo_lib late_tables s" if "s = ''14A'' \<or> s = ''14B''" for s
    using that by (auto simp: seat_ok_def late_tables_messages valid_history_def demo_held_def)
  moreover have "versions_ok late_tables s" if "s = ''14A'' \<or> s = ''14B''" for s
    using that by (auto simp: versions_ok_def late_tables_rows held_tables_rows held_columns_def late_rows_def)
  ultimately have "seats_ok demo_lib late_tables"
    unfolding seats_ok_def log_ok_def late_tables_rows(3) by simp
  moreover have "extends held_tables late_tables"
    by (simp add: extends_def late_tables_def stream_rows_def)
  ultimately show ?thesis by (simp add: seats_step_def)
qed

theorem Rebuild_loses_concurrent_row_witness:
  "\<exists>db'. Rebuild demo_lib late_writer_env held_view_db = (Inr (), db') \<and> stream_rows (tbl db') ''14B'' = late_rows \<and>
    row_for (tbl db') ''14B'' = None \<and> row_for (tbl db') ''14A'' = Some (availability_row calm_env ''14A'' demo_state)"
proof -
  have none: "stream_rows held_tables ''14B'' = []" by (simp add: stream_rows_def held_tables_def held_columns_def)
  have here: "stream_rows held_tables ''14A'' \<noteq> []" by (simp add: held_tables_rows held_columns_def)
  have row: "row_for late_tables ''14B'' \<noteq> None"
    by (simp add: row_for_def late_tables_def held_tables_def empty_tables_def availability_row_def)
  have late: "stream_rows late_tables ''14B'' \<noteq> []" by (simp add: late_tables_rows late_rows_def held_columns_def)
  have env: "\<forall>xs. mset (text_order late_writer_env xs) = mset xs" "begin_fault late_writer_env = None"
    "commit_fault late_writer_env = None" "fault late_writer_env 1 = None" "\<forall>n. n \<noteq> 1 \<longrightarrow> calm_at late_writer_env n"
    "late_tables = others late_writer_env 1 (sqs held_view_db) (tbl held_view_db)"
    by (simp_all add: late_writer_env_def calm_env_def calm_at_def held_view_db_def late_tables_def)
  have db: "tbl held_view_db = held_tables" by (simp add: held_view_db_def)
  from Rebuild_loses_concurrent_row [where db = held_view_db and e = late_writer_env and s = "''14B''" and L = demo_lib,
      unfolded db, OF held_tables_ok env(1) none env(2-5) env(6) [unfolded db] late_tables_step late row]
  obtain db' where db': "Rebuild demo_lib late_writer_env held_view_db = (Inr (), db')" "events (tbl db') = events late_tables"
    "row_for (tbl db') ''14A'' = derived_row demo_lib late_writer_env late_tables ''14A''" "row_for (tbl db') ''14B'' = None"
    using here by blast
  moreover have "stream_rows (tbl db') ''14B'' = late_rows" using stream_rows_same_events [OF db'(2)] late_tables_rows(2) by simp
  moreover have "derived_row demo_lib late_writer_env late_tables ''14A'' = Some (availability_row calm_env ''14A'' demo_state)"
    using held_tables_fold by (simp add: derived_row_def late_tables_messages availability_row_def late_writer_env_def)
  ultimately show ?thesis by simp
qed

text \<open>
  The stored status round-trips and is never defaulted: a known status parses back to itself, any
  other text is refused, and so a row whose status is not recognised is never shown as free.
\<close>

theorem parseStatus_spec:
  "parseStatus (Status_String StatusFree) = Inr StatusFree \<and>
   parseStatus (Status_String StatusHeld) = Inr StatusHeld \<and>
   (s \<noteq> ''free'' \<and> s \<noteq> ''held'' \<longrightarrow> (\<exists>err. parseStatus s = Inl err)) \<and>
   (parseStatus s = Inr v \<longrightarrow> Status_String v = s)"
  by (auto simp: parseStatus_def Status_String_def status_defs split: if_splits)

theorem parseStatus_spec_witness: "\<exists>err. parseStatus ''sold'' = Inl err"
  using parseStatus_spec [of "''sold''" 0] by simp

lemma like_any: "like ''%'' ts"
  by (induction ts) simp_all

text \<open>Characters that mean themselves in a \<^verbatim>\<open>LIKE\<close> pattern.\<close>

definition plain :: "string \<Rightarrow> bool" where
  "plain p \<longleftrightarrow> CHR ''%'' \<notin> set p \<and> CHR ''_'' \<notin> set p \<and> CHR 0x5C \<notin> set p"

lemma like_prefix: "plain p \<Longrightarrow> like (p @ ''%'') ts = prefix p ts"
proof (induction p arbitrary: ts)
  case Nil
  then show ?case using like_any by simp
next
  case (Cons c p)
  then show ?case by (cases ts) (auto simp: plain_def)
qed

text \<open>
  Browsing a flight: for a prefix of ordinary characters, \<open>HeldSeats\<close> returns exactly the seats the
  view says are held and whose id starts with the prefix, each once; a prefix that contains a
  \<^verbatim>\<open>LIKE\<close> wildcard is not a prefix match, and brings in seats of other flights.
\<close>

theorem HeldSeats_spec:
  assumes "quiet e" "\<forall>xs. mset (text_order e xs) = mset xs" "plain p" "distinct (view_ids (tbl db))"
  shows "\<exists>ids. HeldSeats e p db = (Inr ids, db) \<and> distinct ids \<and>
    set ids = {s. \<exists>r \<in> set (seat_availability (tbl db)). av_seat_id r = s \<and> av_status r = ''held'' \<and> prefix p s} \<and>
    like (''A_1'' @ ''%'') ''AB1-14A'' \<and> \<not> prefix ''A_1'' ''AB1-14A''"
proof -
  let ?found = "map av_seat_id (filter (\<lambda>r. av_status r = ''held'' \<and> prefix p (av_seat_id r)) (seat_availability (tbl db)))"
  have m: "mset (text_order e ?found) = mset ?found" using assms(2) by simp
  have "distinct ?found" using assms(4) by (simp add: view_ids_def distinct_map_filter)
  then have "distinct (text_order e ?found)" using mset_eq_imp_distinct_iff [OF m] by blast
  moreover have "set (text_order e ?found) = set ?found" using mset_eq_setD [OF m] .
  moreover have "HeldSeats e p db = (Inr (text_order e ?found), db)"
    using assms(1,3)
    by (simp add: HeldSeats_def wrapE_def pool_exec_def quiet_exec_select commit_tx_def Let_def interleave_def
        applied_tx_def quietD heldSeatsSQL_def like_prefix Status_String_def status_defs)
  moreover have "like (''A_1'' @ ''%'') ''AB1-14A''" "\<not> prefix ''A_1'' ''AB1-14A''" by simp_all
  moreover have "set ?found = {s. \<exists>r \<in> set (seat_availability (tbl db)). av_seat_id r = s \<and> av_status r = ''held'' \<and> prefix p s}"
    by (simp only: set_map set_filter) blast
  ultimately show ?thesis by (intro exI [of _ "text_order e ?found"] conjI) simp_all
qed

theorem HeldSeats_spec_witness:
  "\<exists>ids. HeldSeats calm_env ''14'' held_view_db = (Inr ids, held_view_db) \<and> distinct ids"
  using HeldSeats_spec [of calm_env "''14''" held_view_db]
  by (fastforce simp: calm_env_def quiet_def plain_def view_ids_def held_view_db_def held_tables_def empty_tables_def)

end
