(* ===== verification/OutboxPoller.thy ===== *)
theory OutboxPoller
  imports Outbox
begin

text \<open>
  \<^verbatim>\<open>internal/platform/outbox/poller.go\<close>: the claim-publish-mark cycle (\<open>Drain\<close>), draining until a
  batch comes back short (\<open>drainAll\<close>), pruning and the loop; the election is in \<open>Election\<close>. The Publisher and the
  broker behind it are parameters; the locale \<open>publisher\<close> is the contract the poller relies on, and
  the Kafka producer interprets it. Rows that other transactions have locked (\<^verbatim>\<open>SKIP LOCKED\<close>) are
  the predicate \<open>locked\<close>.

  \<open>drainAll\<close> can go on for as long as others keep filling the outbox, so it takes fuel; that fuel of
  one more than the number of full batches is enough is proved below.
\<close>

definition BatchSize :: nat where
  "BatchSize = 100"

definition AdvisoryLockKey :: int where
  "AdvisoryLockKey = 0x5A6A0001"

definition PollFloor :: duration where
  "PollFloor = 1000000000"

definition Outbox_Retention :: duration where
  "Outbox_Retention = 7 * 24 * 3600 * 1000000000"

record Claimed =
  cl_ID :: int
  cl_Message :: Message

type_synonym 'b publish = "Message list \<Rightarrow> 'b \<Rightarrow> (error + unit) \<times> 'b"

section \<open>Operations\<close>

definition claimed_row :: "outbox_row \<Rightarrow> Claimed" where
  "claimed_row r = \<lparr>cl_ID = ob_id r, cl_Message = row_message r\<rparr>"

definition claimSQL :: "(int \<Rightarrow> bool) \<Rightarrow> tables \<Rightarrow> outbox_row list" where
  "claimSQL locked T =
     take BatchSize (sort_key ob_id
       (filter (\<lambda>r. ob_published_at r = None \<and> \<not> locked (ob_id r)) (outbox T)))"

definition claim :: "env \<Rightarrow> (int \<Rightarrow> bool) \<Rightarrow> tx \<Rightarrow> (error + Claimed list) \<times> tx" where
  "claim e locked =
     wrapE (\<lambda>err. Errorf ''outbox: claim: '' err [])
       (exec e (select_stmt (\<lambda>T. map claimed_row (claimSQL locked T))))"

definition ids_of :: "Claimed list \<Rightarrow> int list" where
  "ids_of claimed = map cl_ID claimed"

definition messages_of :: "Claimed list \<Rightarrow> Message list" where
  "messages_of claimed = map cl_Message claimed"

definition markSQL :: "env \<Rightarrow> int list \<Rightarrow> tables \<Rightarrow> unit \<times> tables" where
  "markSQL e is T =
     ((), T\<lparr>outbox := map (\<lambda>r. if ob_id r \<in> set is then r\<lparr>ob_published_at := Some (now e)\<rparr> else r)
              (outbox T)\<rparr>)"

definition Drain ::
  "'b publish \<Rightarrow> env \<Rightarrow> (int \<Rightarrow> bool) \<Rightarrow> database \<times> 'b \<Rightarrow> (error + nat) \<times> database \<times> 'b" where
  "Drain pub e locked s =
     (let (db, b) = s in
      case begin_fault e of
        Some err \<Rightarrow> (Inl (Errorf ''outbox: begin: '' err []), db, b)
      | None \<Rightarrow>
          (case claim e locked (begin_tx db) of
             (Inl err, t) \<Rightarrow> (Inl err, rollback_tx t db, b)
           | (Inr claimed, t) \<Rightarrow>
               if claimed = [] then (Inr 0, rollback_tx t db, b)
               else
                 (case pub (messages_of claimed) b of
                    (Inl err, b') \<Rightarrow>
                      (Inl (Errorf (''outbox: publish '' @ itoa (int (length claimed)) @ '' messages: '')
                         err []), rollback_tx t db, b')
                  | (Inr _, b') \<Rightarrow>
                      (case exec e (update_stmt (markSQL e (ids_of claimed))) t of
                         (Inl err, t') \<Rightarrow>
                           (Inl (Errorf ''outbox: mark published: '' err []), rollback_tx t' db, b')
                       | (Inr _, t') \<Rightarrow>
                           (case commit_tx e t' db of
                              (Inl err, db') \<Rightarrow> (Inl (Errorf ''outbox: commit mark: '' err []), db', b')
                            | (Inr _, db') \<Rightarrow> (Inr (length claimed), db', b'))))))"

text \<open>\<open>None\<close>: out of fuel. The value of a finished loop is the error that was logged, if any.\<close>

fun drainAll ::
  "'b publish \<Rightarrow> (nat \<Rightarrow> env) \<Rightarrow> (int \<Rightarrow> bool) \<Rightarrow> nat \<Rightarrow> nat \<Rightarrow> database \<times> 'b \<Rightarrow>
     error option option \<times> database \<times> 'b" where
  "drainAll pub envs locked i 0 s = (None, s)"
| "drainAll pub envs locked i (Suc fuel) s =
     (case Drain pub (envs i) locked s of
        (Inl err, s') \<Rightarrow> (Some (Some err), s')
      | (Inr n, s') \<Rightarrow>
          if n < BatchSize then (Some None, s')
          else drainAll pub envs locked (Suc i) fuel s')"

definition outbox_prunable :: "env \<Rightarrow> duration \<Rightarrow> outbox_row \<Rightarrow> bool" where
  "outbox_prunable e olderThan r \<longleftrightarrow>
     (case ob_published_at r of None \<Rightarrow> False | Some t \<Rightarrow> t < now e - olderThan)"

definition outbox_pruneSQL :: "env \<Rightarrow> duration \<Rightarrow> tables \<Rightarrow> nat \<times> tables" where
  "outbox_pruneSQL e olderThan T =
     (length (filter (outbox_prunable e olderThan) (outbox T)),
      T\<lparr>outbox := filter (\<lambda>r. \<not> outbox_prunable e olderThan r) (outbox T)\<rparr>)"

definition outbox_Prune :: "env \<Rightarrow> duration \<Rightarrow> database \<Rightarrow> (error + nat) \<times> database" where
  "outbox_Prune e olderThan =
     wrapE (\<lambda>err. Errorf ''outbox: prune: '' err [])
       (pool_exec e (update_stmt (outbox_pruneSQL e olderThan)))"

definition pruneOldRows :: "env \<Rightarrow> database \<Rightarrow> database" where
  "pruneOldRows e db = snd (outbox_Prune e Outbox_Retention db)"

section \<open>The wake channel\<close>

text \<open>
  The wake channel holds one token: a notification fills it or, when it is full, is dropped; taking
  the token empties it.
\<close>

datatype wake_event = Notification | Taken

fun wake_channel :: "bool \<Rightarrow> wake_event list \<Rightarrow> bool" where
  "wake_channel full [] = full"
| "wake_channel full (Notification # es) = wake_channel True es"
| "wake_channel full (Taken # es) = wake_channel False es"

section \<open>The loop\<close>

datatype poll_wake = PollDone | Woken | PollTick | PollPrune

record 'b poll_pass =
  pp_envs :: "nat \<Rightarrow> env"
  pp_locked :: "int \<Rightarrow> bool"
  pp_fuel :: nat
  pp_wake :: poll_wake
  pp_prune_env :: env

text \<open>The loop of an elected poller, along a list of passes; \<open>None\<close> when they run out.\<close>

fun poll_loop ::
  "'b publish \<Rightarrow> 'b poll_pass list \<Rightarrow> database \<times> 'b \<Rightarrow> unit option \<times> database \<times> 'b" where
  "poll_loop pub [] s = (None, s)"
| "poll_loop pub (p # ps) s =
     (let s' = snd (drainAll pub (pp_envs p) (pp_locked p) 0 (pp_fuel p) s) in
      case pp_wake p of
        PollDone \<Rightarrow> (Some (), s')
      | Woken \<Rightarrow> poll_loop pub ps s'
      | PollTick \<Rightarrow> poll_loop pub ps s'
      | PollPrune \<Rightarrow> poll_loop pub ps (pruneOldRows (pp_prune_env p) (fst s'), snd s'))"

section \<open>At least once\<close>

definition outbox_ids :: "tables \<Rightarrow> int list" where
  "outbox_ids T = map ob_id (outbox T)"

text \<open>
  What other sessions may do to the outbox while this poller is the elected one: insert unpublished
  rows and delete published ones, but neither publish, nor change or delete what is still to be
  published.
\<close>

definition outbox_step :: "tables \<Rightarrow> tables \<Rightarrow> bool" where
  "outbox_step T T' \<longleftrightarrow>
     (\<forall>r \<in> set (outbox T'). ob_published_at r \<noteq> None \<longrightarrow> r \<in> set (outbox T)) \<and>
     (\<forall>r \<in> set (outbox T). ob_published_at r = None \<longrightarrow> r \<in> set (outbox T')) \<and>
     (distinct (outbox_ids T) \<longrightarrow> distinct (outbox_ids T'))"

lemma outbox_step_waiting:
  "outbox_step T T' \<Longrightarrow> r \<in> set (outbox T) \<Longrightarrow> ob_published_at r = None \<Longrightarrow> r \<in> set (outbox T')"
  by (simp add: outbox_step_def)

lemma outbox_step_refl: "outbox_step T T"
  by (simp add: outbox_step_def)

lemma outbox_step_trans: "outbox_step T U \<Longrightarrow> outbox_step U V \<Longrightarrow> outbox_step T V"
  unfolding outbox_step_def by blast

lemma outbox_step_meanwhile:
  "others_keep e outbox_step \<Longrightarrow> meanwhile e (T, S) (T', S') \<Longrightarrow> outbox_step T T'"
  by (rule meanwhile_keeps) (auto intro: outbox_step_refl outbox_step_trans)

lemma markSQL_ids [simp]: "outbox_ids (snd (markSQL e is T)) = outbox_ids T"
  by (simp add: markSQL_def outbox_ids_def comp_def if_distrib cong: if_cong)

lemma markSQL_map:
  obtains f where "snd (markSQL e is T) = T\<lparr>outbox := map f (outbox T)\<rparr>"
    "\<forall>r. row_message (f r) = row_message r \<and> ob_id (f r) = ob_id r"
    "\<forall>r. ob_published_at (f r) \<noteq> None \<longrightarrow> ob_id r \<in> set is \<or> ob_published_at r \<noteq> None"
  by (rule that [of "\<lambda>r. if ob_id r \<in> set is then r\<lparr>ob_published_at := Some (now e)\<rparr> else r"])
    (simp_all add: markSQL_def row_message_def)

lemma claimSQL_rows:
  "set (claimSQL locked T) \<subseteq> {r \<in> set (outbox T). ob_published_at r = None \<and> \<not> locked (ob_id r)}"
  unfolding claimSQL_def by (auto dest!: in_set_takeD)

lemma distinct_id_eq:
  "distinct (outbox_ids T) \<Longrightarrow> r \<in> set (outbox T) \<Longrightarrow> c \<in> set (outbox T) \<Longrightarrow> ob_id r = ob_id c \<Longrightarrow> r = c"
  by (auto simp: outbox_ids_def distinct_map dest: inj_onD)

text \<open>
  The ways a cycle can end: without a trace of its own in the database, or with the claimed batch
  published and marked.
\<close>

lemma keeps_base_claim [frame_intros]: "keeps (base_frame e) (claim e locked)"
  unfolding claim_def by (intro frame_intros)

lemma commit_frame_cases:
  assumes "base_frame e (begin_tx db) t" "commit_tx e t db = (r, db')"
  obtains (undone) err where "r = Inl err" "meanwhile e (tbl db, sqs db) (tbl db', sqs db')"
    | (kept) "db' = applied_tx (interleave e t) db"
  using assms(2)
proof (cases rule: commit_tx_cases)
  case (rolled_back err)
  have "base_frame e (begin_tx db) (interleave e t)"
    using assms(1) base_frame_interleave by (rule base_frame.frame_trans)
  then show ?thesis using rolled_back base_frame_rollback by (intro undone) auto
qed (rule kept)

lemma Drain_cases:
  assumes "Drain pub e locked (db, b) = (r, db', b')"
  obtains (rolled) "meanwhile e (tbl db, sqs db) (tbl db', sqs db')"
      "b' = b \<or> (\<exists>ms r0. pub ms b = (r0, b'))" "r = Inr 0 \<or> (\<exists>err. r = Inl err)"
    | (marked) claimed t1 t2 where "claim e locked (begin_tx db) = (Inr claimed, t1)" "claimed \<noteq> []"
      "pub (messages_of claimed) b = (Inr (), b')"
      "exec e (update_stmt (markSQL e (ids_of claimed))) t1 = (Inr (), t2)"
      "db' = applied_tx (interleave e t2) db" "r = Inr (length claimed) \<or> (\<exists>err. r = Inl err)"
proof (cases "begin_fault e")
  case (Some err)
  then show ?thesis using assms by (intro rolled) (auto simp: Drain_def meanwhile.start)
next
  case None
  obtain r1 t1 where cl: "claim e locked (begin_tx db) = (r1, t1)" by (cases "claim e locked (begin_tx db)")
  have f1: "base_frame e (begin_tx db) t1" using keeps_base_claim cl by (rule keepsD)
  note undone = base_frame_rollback [OF f1]
  show ?thesis
  proof (cases "\<exists>claimed b2. r1 = Inr claimed \<and> claimed \<noteq> [] \<and> pub (messages_of claimed) b = (Inr (), b2)")
    case False
    then show ?thesis using assms None cl undone
      by (intro rolled) (auto simp: Drain_def split: sum.splits if_splits prod.splits)
  next
    case True
    then obtain claimed b2 where cd: "r1 = Inr claimed" "claimed \<noteq> []" "pub (messages_of claimed) b = (Inr (), b2)"
      by blast
    obtain r3 t3 where mk: "exec e (update_stmt (markSQL e (ids_of claimed))) t1 = (r3, t3)"
      by (cases "exec e (update_stmt (markSQL e (ids_of claimed))) t1")
    have "base_frame e t1 t3" using keeps_base_exec [OF draws_update] mk by (rule keepsD)
    then have f3: "base_frame e (begin_tx db) t3" using f1 by (blast intro: base_frame.frame_trans)
    obtain r4 db4 where cm: "commit_tx e t3 db = (r4, db4)" by (cases "commit_tx e t3 db")
    note run = assms None cl cd mk cm
    show ?thesis
    proof (cases r3)
      case (Inl err)
      then show ?thesis using run base_frame_rollback [OF f3] by (intro rolled) (auto simp: Drain_def)
    next
      case (Inr y)
      then have res: "db' = db4" "b' = b2" "r = Inr (length claimed) \<or> (\<exists>err. r = Inl err)"
        "\<forall>err. r4 = Inl err \<longrightarrow> (\<exists>err. r = Inl err)"
        using run by (auto simp: Drain_def split: sum.splits)
      from f3 cm show ?thesis
      proof (cases rule: commit_frame_cases)
        case (undone err)
        then show ?thesis using res cd by (intro rolled) auto
      next
        case kept
        then show ?thesis using marked [OF cl [unfolded cd(1)] cd(2)] res mk Inr cd(3) by auto
      qed
    qed
  qed
qed

text \<open>The tables a marked batch was claimed from, marked in and committed to.\<close>

lemma marked_tables:
  assumes "claim e locked (begin_tx db) = (Inr claimed, t1)"
    and "exec e (update_stmt (markSQL e (ids_of claimed))) t1 = (Inr x, t2)"
  shows "claimed = map claimed_row (claimSQL locked (view t1))"
    "messages_of claimed = map row_message (claimSQL locked (view t1))"
    "ids_of claimed = map ob_id (claimSQL locked (view t1))"
    "view t1 = others e 0 (sqs db) (tbl db)" "seqs t1 = others_seq e 0 (sqs db)"
    "view t2 = snd (markSQL e (ids_of claimed) (others e (stmts t1) (seqs t1) (view t1)))"
    "seqs t2 = others_seq e (stmts t1) (seqs t1)"
proof -
  have ex: "exec e (select_stmt (\<lambda>T. map claimed_row (claimSQL locked T))) (begin_tx db) = (Inr claimed, t1)"
    using assms(1) by (simp add: claim_def)
  show cl: "claimed = map claimed_row (claimSQL locked (view t1))"
    "view t1 = others e 0 (sqs db) (tbl db)" "seqs t1 = others_seq e 0 (sqs db)"
    using exec_ok(5) [OF ex] by (auto simp: select_stmt_def)
  show "messages_of claimed = map row_message (claimSQL locked (view t1))"
    "ids_of claimed = map ob_id (claimSQL locked (view t1))"
    by (simp_all add: cl(1) messages_of_def ids_of_def claimed_row_def)
  show "view t2 = snd (markSQL e (ids_of claimed) (others e (stmts t1) (seqs t1) (view t1)))"
    "seqs t2 = others_seq e (stmts t1) (seqs t1)"
    using exec_ok(5) [OF assms(2)] by (auto simp: update_stmt_def split: prod.splits)
qed

text \<open>A row is marked only when its message is on the broker.\<close>

definition outbox_sound :: "(Message \<Rightarrow> bool) \<Rightarrow> tables \<Rightarrow> bool" where
  "outbox_sound on_broker T \<longleftrightarrow> distinct (outbox_ids T) \<and>
     (\<forall>r \<in> set (outbox T). ob_published_at r \<noteq> None \<longrightarrow> on_broker (row_message r))"

locale publisher =
  fixes publish :: "'b publish"
    and delivered :: "'b \<Rightarrow> Message \<Rightarrow> bool"
  assumes publish_delivers: "publish ms b = (Inr (), b') \<Longrightarrow> m \<in> set ms \<Longrightarrow> delivered b' m"
    and delivered_mono: "publish ms b = (r, b') \<Longrightarrow> delivered b m \<Longrightarrow> delivered b' m"
begin

lemma step_sound: "outbox_step T T' \<Longrightarrow> outbox_sound (delivered b) T \<Longrightarrow> (\<And>m. delivered b m \<Longrightarrow> delivered b' m) \<Longrightarrow>
    outbox_sound (delivered b') T'"
  unfolding outbox_sound_def outbox_step_def by blast

lemma mark_sound:
  assumes "outbox_sound (delivered b) T2" "\<And>c. c \<in> set cs \<Longrightarrow> c \<in> set (outbox T2) \<and> delivered b (row_message c)"
  shows "outbox_sound (delivered b) (snd (markSQL e (map ob_id cs) T2))"
proof -
  have "delivered b (row_message r)"
    if "r \<in> set (outbox (snd (markSQL e (map ob_id cs) T2)))" "ob_published_at r \<noteq> None" for r
  proof -
    let ?mark = "\<lambda>r0. if ob_id r0 \<in> set (map ob_id cs) then r0\<lparr>ob_published_at := Some (now e)\<rparr> else r0"
    have "outbox (snd (markSQL e (map ob_id cs) T2)) = map ?mark (outbox T2)"
      by (simp add: markSQL_def)
    then have "r \<in> ?mark ` set (outbox T2)" using that(1) by (simp only: set_map)
    then obtain r0 where r0: "r0 \<in> set (outbox T2)"
      "r = (if ob_id r0 \<in> set (map ob_id cs) then r0\<lparr>ob_published_at := Some (now e)\<rparr> else r0)"
      by blast
    have same: "row_message r = row_message r0" using r0(2) by (simp add: row_message_def)
    show ?thesis
    proof (cases "ob_id r0 \<in> set (map ob_id cs)")
      case True
      then obtain c where c: "c \<in> set cs" "ob_id r0 = ob_id c" by auto
      then have "r0 = c"
        using distinct_id_eq [of T2 r0 c] assms(1) assms(2) [OF c(1)] r0(1) by (simp add: outbox_sound_def)
      then show ?thesis using assms(2) c(1) same by simp
    next
      case False
      then show ?thesis using r0 assms(1) that(2) by (auto simp: outbox_sound_def)
    qed
  qed
  then show ?thesis using assms(1) by (simp add: outbox_sound_def)
qed

text \<open>Soundness is kept, and nothing that was still to be published is lost.\<close>

lemma Drain_sound:
  assumes "outbox_sound (delivered b) (tbl db)" "others_keep e outbox_step" "Drain publish e locked (db, b) = (r, db', b')"
  shows "outbox_sound (delivered b') (tbl db') \<and>
    (\<forall>x \<in> set (outbox (tbl db)). ob_published_at x = None \<longrightarrow>
       x \<in> set (outbox (tbl db')) \<or> delivered b' (row_message x))"
  using assms(3)
proof (cases rule: Drain_cases)
  case rolled
  have step: "outbox_step (tbl db) (tbl db')" using outbox_step_meanwhile [OF assms(2) rolled(1)] .
  moreover have "delivered b m \<Longrightarrow> delivered b' m" for m using rolled(2) delivered_mono by blast
  ultimately show ?thesis using step_sound [OF step assms(1)] by (auto simp: outbox_step_def)
next
  case (marked claimed t1 t2)
  note mt = marked_tables [OF marked(1,4)]
  let ?T1 = "view t1" and ?cs = "claimSQL locked (view t1)"
  let ?T2 = "others e (stmts t1) (seqs t1) ?T1"
  have keep: "outbox_step T (others e n S T)" for n S T using assms(2) by (simp add: others_keep_def)
  have steps: "outbox_step (tbl db) ?T1" "outbox_step ?T1 ?T2" "outbox_step (view t2) (tbl db')"
    using keep by (simp_all add: mt(4) marked(5) applied_tx_def interleave_def)
  have mono: "delivered b m \<Longrightarrow> delivered b' m" for m using marked(3) delivered_mono by blast
  have s2: "outbox_sound (delivered b') ?T2"
    using step_sound [OF steps(2) step_sound [OF steps(1) assms(1)]] mono by blast
  have cs: "c \<in> set (outbox ?T2) \<and> delivered b' (row_message c)" if "c \<in> set ?cs" for c
    using that claimSQL_rows [of locked ?T1] steps(2) publish_delivers [OF marked(3), of "row_message c"]
    by (auto simp: outbox_step_def mt(2))
  have s3: "outbox_sound (delivered b') (view t2)" unfolding mt(6,3) using s2 cs by (rule mark_sound)
  have "x \<in> set (outbox (tbl db')) \<or> delivered b' (row_message x)"
    if x: "x \<in> set (outbox (tbl db))" "ob_published_at x = None" for x
  proof -
    have x2: "x \<in> set (outbox ?T2)" using x steps(1,2) by (blast intro: outbox_step_waiting)
    show ?thesis
    proof (cases "ob_id x \<in> set (map ob_id ?cs)")
      case True
      then obtain c where c: "c \<in> set ?cs" "ob_id x = ob_id c" by auto
      have "x = c"
        by (rule distinct_id_eq [of ?T2]) (use s2 x2 cs [OF c(1)] c(2) in \<open>simp_all add: outbox_sound_def\<close>)
      then show ?thesis using cs [OF c(1)] by simp
    next
      case False
      then have "x \<in> set (outbox (view t2))" using x2 unfolding mt(6,3) markSQL_def by force
      then show ?thesis using x(2) steps(3) by (blast intro: outbox_step_waiting)
    qed
  qed
  then show ?thesis using step_sound [OF steps(3) s3] by blast
qed

end

section \<open>In a quiet database\<close>

definition waiting :: "tables \<Rightarrow> outbox_row list" where
  "waiting T = sort_key ob_id (filter (\<lambda>r. ob_published_at r = None) (outbox T))"

definition nobody :: "int \<Rightarrow> bool" where
  "nobody i = False"

lemma claimSQL_nobody: "claimSQL nobody T = take BatchSize (waiting T)"
  by (simp add: claimSQL_def waiting_def nobody_def)

lemma filter_marked:
  "filter (\<lambda>r. ob_published_at r = None) (map (\<lambda>r. if P r then r\<lparr>ob_published_at := Some t\<rparr> else r) xs) =
   filter (\<lambda>r. \<not> P r) (filter (\<lambda>r. ob_published_at r = None) xs)"
  by (induction xs) auto

lemma waiting_distinct: "distinct (outbox_ids T) \<Longrightarrow> distinct (map ob_id (waiting T))"
  unfolding waiting_def outbox_ids_def by (auto simp: distinct_map intro: inj_on_subset)

lemma filter_drop:
  "distinct (map f xs) \<Longrightarrow> filter (\<lambda>x. f x \<notin> set (map f (take n xs))) xs = drop n xs"
proof (induction xs arbitrary: n)
  case (Cons x xs)
  show ?case
  proof (cases n)
    case (Suc m)
    have "filter (\<lambda>y. f y \<notin> insert (f x) (set (map f (take m xs)))) xs =
        filter (\<lambda>y. f y \<notin> set (map f (take m xs))) xs"
      using Cons.prems by (intro filter_cong refl) (auto simp: image_iff)
    then show ?thesis using Cons Suc by simp
  qed simp
qed simp

lemma waiting_marked:
  assumes "distinct (outbox_ids T)"
  shows "waiting (snd (markSQL e (map ob_id (take n (waiting T))) T)) = drop n (waiting T)"
proof -
  let ?is = "set (map ob_id (take n (waiting T)))"
  have "waiting (snd (markSQL e (map ob_id (take n (waiting T))) T)) =
      sort_key ob_id (filter (\<lambda>r. ob_id r \<notin> ?is) (filter (\<lambda>r. ob_published_at r = None) (outbox T)))"
    unfolding waiting_def [of "snd _"] markSQL_def by (simp add: filter_marked del: filter_filter set_map)
  also have "\<dots> = filter (\<lambda>r. ob_id r \<notin> ?is) (waiting T)"
    unfolding waiting_def by (simp only: filter_sort)
  also have "\<dots> = drop n (waiting T)" using waiting_distinct [OF assms] by (rule filter_drop)
  finally show ?thesis .
qed

lemma quiet_Drain:
  assumes "quiet e" "pub (map row_message (claimSQL locked (tbl db))) b = (Inr (), b')"
  shows "\<exists>db'. Drain pub e locked (db, b) =
      (Inr (length (claimSQL locked (tbl db))), db', if claimSQL locked (tbl db) = [] then b else b') \<and>
    tbl db' = snd (markSQL e (map ob_id (claimSQL locked (tbl db))) (tbl db))"
proof (cases "claimSQL locked (tbl db) = []")
  case True
  have "snd (markSQL e [] (tbl db)) = tbl db" by (simp add: markSQL_def)
  then show ?thesis using True assms(1)
    by (simp add: Drain_def quietD claim_def wrapE_def quiet_exec_select rollback_tx_def)
next
  case False
  then show ?thesis using assms
    by (simp add: Drain_def quietD claim_def wrapE_def quiet_exec_select messages_of_def ids_of_def claimed_row_def
        comp_def quiet_exec_update commit_tx_def Let_def interleave_def applied_tx_def)
qed

lemma quiet_Drain_batch:
  assumes "quiet e" "\<And>ms b. pub ms b = (Inr (), b @ map g ms)"
  defines "cs db \<equiv> take BatchSize (waiting (tbl db))"
  shows "\<exists>db'. Drain pub e nobody (db, b) = (Inr (length (cs db)), db', b @ map (g \<circ> row_message) (cs db)) \<and>
    tbl db' = snd (markSQL e (map ob_id (cs db)) (tbl db))"
proof -
  let ?cs = "take BatchSize (waiting (tbl db))"
  have "pub (map row_message (claimSQL nobody (tbl db))) b = (Inr (), b @ map (g \<circ> row_message) ?cs)"
    by (simp add: assms(2) claimSQL_nobody)
  then have "\<exists>db'. Drain pub e nobody (db, b) =
      (Inr (length ?cs), db', if ?cs = [] then b else b @ map (g \<circ> row_message) ?cs) \<and>
      tbl db' = snd (markSQL e (map ob_id ?cs) (tbl db))"
    using quiet_Drain [where pub = pub and locked = nobody and db = db and b = b, OF assms(1)]
    unfolding claimSQL_nobody by blast
  moreover have "(if ?cs = [] then b else b @ map (g \<circ> row_message) ?cs) = b @ map (g \<circ> row_message) ?cs"
    by (cases "?cs = []") (simp_all only: if_True if_False list.map append_Nil2 simp_thms)
  ultimately show ?thesis unfolding cs_def by simp
qed

lemma quiet_drainAll:
  assumes "\<And>i. quiet (envs i)" "\<And>ms b. pub ms b = (Inr (), b @ map g ms)"
    and "distinct (outbox_ids (tbl db))" "length (waiting (tbl db)) < fuel * BatchSize"
  shows "\<exists>db'. drainAll pub envs nobody i fuel (db, b) =
      (Some None, db', b @ map (g \<circ> row_message) (waiting (tbl db))) \<and> waiting (tbl db') = []"
  using assms(3,4)
proof (induction fuel arbitrary: i db b)
  case 0
  then show ?case by simp
next
  case (Suc fuel)
  let ?cs = "take BatchSize (waiting (tbl db))"
  obtain db1 where one: "Drain pub (envs i) nobody (db, b) =
      (Inr (length ?cs), db1, b @ map (g \<circ> row_message) ?cs)"
    and t1: "tbl db1 = snd (markSQL (envs i) (map ob_id ?cs) (tbl db))"
    using quiet_Drain_batch [where pub = pub and g = g, OF assms(1,2)] by blast
  have w1: "waiting (tbl db1) = drop BatchSize (waiting (tbl db))"
    unfolding t1 using Suc.prems(1) by (rule waiting_marked)
  show ?case
  proof (cases "length ?cs < BatchSize")
    case True
    then have "length (waiting (tbl db)) < BatchSize" by (simp add: min_def split: if_splits)
    then show ?thesis using one w1 by simp
  next
    case False
    have "distinct (outbox_ids (tbl db1))" unfolding t1 using Suc.prems(1) by simp
    moreover have "length (waiting (tbl db1)) < fuel * BatchSize"
      using w1 Suc.prems(2) False by simp
    ultimately obtain db2 where "drainAll pub envs nobody (Suc i) fuel (db1, b @ map (g \<circ> row_message) ?cs) =
        (Some None, db2, (b @ map (g \<circ> row_message) ?cs) @ map (g \<circ> row_message) (drop BatchSize (waiting (tbl db))))"
      "waiting (tbl db2) = []"
      using Suc.IH w1 by (metis (no_types, lifting))
    then show ?thesis using one False
      by (simp add: map_append [symmetric] del: map_append)
  qed
qed

section \<open>Properties\<close>

text \<open>
  Pruning the outbox never deletes a message that was not published: exactly the rows published
  longer ago than the window go, so what is waiting stays waiting.
\<close>

theorem outbox_Prune_keeps_waiting:
  assumes "quiet e"
  shows "\<exists>n db'. outbox_Prune e d db = (Inr n, db') \<and> waiting (tbl db') = waiting (tbl db) \<and>
    set (outbox (tbl db')) = {r \<in> set (outbox (tbl db)). \<forall>t. ob_published_at r = Some t \<longrightarrow> now e - d \<le> t} \<and>
    n + length (outbox (tbl db')) = length (outbox (tbl db))"
proof -
  let ?T = "tbl db" and ?T' = "snd (outbox_pruneSQL e d (tbl db))"
  have "filter (\<lambda>r. ob_published_at r = None) (outbox ?T') = filter (\<lambda>r. ob_published_at r = None) (outbox ?T)"
    by (auto simp: outbox_pruneSQL_def outbox_prunable_def intro!: filter_cong)
  then have "waiting ?T' = waiting ?T" by (simp add: waiting_def)
  moreover have "length (filter (outbox_prunable e d) (outbox ?T)) + length (outbox ?T') = length (outbox ?T)"
    using sum_length_filter_compl [of "outbox_prunable e d" "outbox ?T"] by (simp add: outbox_pruneSQL_def)
  moreover have "set (outbox ?T') =
      {r \<in> set (outbox ?T). \<forall>t. ob_published_at r = Some t \<longrightarrow> now e - d \<le> t}"
    by (auto simp: outbox_pruneSQL_def outbox_prunable_def split: option.splits)
  moreover have "outbox_Prune e d db = (Inr (length (filter (outbox_prunable e d) (outbox ?T))), db\<lparr>tbl := ?T'\<rparr>)"
    using assms
    by (simp add: outbox_Prune_def wrapE_def pool_exec_def quiet_exec_update commit_tx_def Let_def
        interleave_def applied_tx_def quietD) (simp add: outbox_pruneSQL_def)
  ultimately show ?thesis by simp
qed

theorem outbox_Prune_keeps_waiting_witness:
  "\<exists>n db'. outbox_Prune calm_env 10 empty_db = (Inr n, db') \<and> waiting (tbl db') = waiting (tbl empty_db)"
  using outbox_Prune_keeps_waiting [OF quiet_calm_env, of 10 empty_db] by blast

text \<open>
  Wake-ups coalesce without being lost: after any sequence of notifications and takes, a token
  is waiting exactly when a notification arrived after the last take.
\<close>

theorem wake_channel_coalesces:
  "wake_channel full (es @ Taken # replicate n Notification) = (0 < n) \<and>
   wake_channel full (es @ [Notification]) = True"
proof -
  have app: "wake_channel f (xs @ ys) = wake_channel (wake_channel f xs) ys" for f xs ys
    by (induction f xs rule: wake_channel.induct) simp_all
  have "wake_channel True (replicate n Notification) = True" for n by (induction n) simp_all
  then show ?thesis by (cases n) (simp_all add: app)
qed

end
