(* ===== verification/Kafka.thy ===== *)
theory Kafka
  imports OutboxPoller "HOL-Library.Word"
begin

text \<open>
  \<^verbatim>\<open>internal/platform/kafka\<close>: the producer, topic creation and the consumer.

  franz-go is third-party: what a broker does with each produced record is the parameter \<open>fate\<close>
  (acknowledged, or an error with or without the record having been written), polled batches are
  given, and marked records are collected in the order they are marked. The handler is an argument
  that acts on a state of its own, of which \<open>cancelled\<close> tells whether the context is done. Random
  jitter is the argument \<open>rnd\<close>.
\<close>

section \<open>Records\<close>

record krecord =
  kr_Topic :: string
  kr_Key :: bytes
  kr_Value :: bytes
  kr_Headers :: "(string \<times> bytes) list"
  kr_Partition :: int
  kr_Offset :: int

record Record =
  r_Topic :: string
  r_Key :: string
  r_Value :: bytes
  r_Headers :: gomap
  r_Partition :: int
  r_Offset :: int

section \<open>Producer\<close>

definition record_of :: "Message \<Rightarrow> krecord" where
  "record_of m =
     \<lparr>kr_Topic = msg_Topic m, kr_Key = msg_Key m, kr_Value = msg_Payload m,
      kr_Headers = msg_Headers m, kr_Partition = 0, kr_Offset = 0\<rparr>"

datatype ack = Acked | Nacked error bool

fun ProduceSync :: "(nat \<Rightarrow> ack) \<Rightarrow> nat \<Rightarrow> krecord list \<Rightarrow> krecord list \<Rightarrow> error option list \<times> krecord list" where
  "ProduceSync fate i [] log = ([], log)"
| "ProduceSync fate i (r # rs) log =
     (case fate i of
        Acked \<Rightarrow>
          (case ProduceSync fate (Suc i) rs (log @ [r]) of (errs, log') \<Rightarrow> (None # errs, log'))
      | Nacked err written \<Rightarrow>
          (case ProduceSync fate (Suc i) rs (if written then log @ [r] else log) of
             (errs, log') \<Rightarrow> (Some err # errs, log')))"

fun FirstErr :: "error option list \<Rightarrow> error option" where
  "FirstErr [] = None"
| "FirstErr (None # errs) = FirstErr errs"
| "FirstErr (Some err # errs) = Some err"

definition Publish :: "(nat \<Rightarrow> ack) \<Rightarrow> Message list \<Rightarrow> krecord list \<Rightarrow> (error + unit) \<times> krecord list" where
  "Publish fate msgs log =
     (if msgs = [] then (Inr (), log)
      else
        (case ProduceSync fate 0 (map record_of msgs) log of
           (errs, log') \<Rightarrow>
             (case FirstErr errs of
                Some err \<Rightarrow>
                  (Inl (Errorf (''kafka: publish '' @ itoa (int (length msgs)) @ '' records: '') err []), log')
              | None \<Rightarrow> (Inr (), log'))))"

section \<open>Topics\<close>

definition Partitions :: int where
  "Partitions = 6"

fun check_created :: "(string \<times> error option) list \<Rightarrow> error option" where
  "check_created [] = None"
| "check_created ((topic, None) # rest) = check_created rest"
| "check_created ((topic, Some err) # rest) =
     (if errors_Is err ErrTopicAlreadyExists then check_created rest
      else Some (Errorf (''kafka: create topic '' @ topic @ '': '') err []))"

definition EnsureTopics ::
  "error option \<Rightarrow> error + (string \<times> error option) list \<Rightarrow> error option" where
  "EnsureTopics client created =
     (case client of
        Some err \<Rightarrow> Some (Errorf ''kafka: admin client: '' err [])
      | None \<Rightarrow>
          (case created of
             Inl err \<Rightarrow> Some (Errorf ''kafka: create topics: '' err [])
           | Inr resp \<Rightarrow> check_created resp))"

section \<open>Consumer\<close>

definition RebalanceTimeout :: duration where
  "RebalanceTimeout = 60 * 1000000000"

definition DefaultMaxAttempts :: int where
  "DefaultMaxAttempts = 5"

definition DefaultBaseBackoff :: duration where
  "DefaultBaseBackoff = 100 * 1000000"

definition pollBatch :: nat where
  "pollBatch = 100"

type_synonym 's handler = "Record \<Rightarrow> 's \<Rightarrow> error option \<times> 's"

record 's ConsumerConfig =
  cfg_Brokers :: "string list"
  cfg_Group :: string
  cfg_Topics :: "string list"
  cfg_Handler :: "'s handler option"
  cfg_DLQ :: "(Record \<Rightarrow> nat \<Rightarrow> ack) option"
  cfg_MaxAttempts :: int
  cfg_BaseBackoff :: duration

definition NewConsumer :: "error option \<Rightarrow> 's ConsumerConfig \<Rightarrow> error + 's ConsumerConfig" where
  "NewConsumer client cfg =
     (if cfg_Handler cfg = None then Inl (ErrorNew ''kafka: consumer needs a handler'')
      else if cfg_Group cfg = [] then Inl (ErrorNew ''kafka: consumer needs a group'')
      else
        (let cfg1 = (if cfg_MaxAttempts cfg \<le> 0 then cfg\<lparr>cfg_MaxAttempts := DefaultMaxAttempts\<rparr> else cfg);
             cfg2 = (if cfg_BaseBackoff cfg1 \<le> 0 then cfg1\<lparr>cfg_BaseBackoff := DefaultBaseBackoff\<rparr> else cfg1)
         in case client of
              Some err \<Rightarrow> Inl (Errorf ''kafka: new consumer: '' err [])
            | None \<Rightarrow> Inr cfg2))"

text \<open>
  The world a consumer acts on: the handler's state, the broker's dead-letter log, the records it has
  marked, and, for the statements below, the waits it took, how often it called the handler, and the
  records whose dead letter was refused, which \<open>handle\<close> logs with their topic, partition and offset.
\<close>

record 's world =
  hs :: 's
  dlq_log :: "krecord list"
  marks :: "krecord list"
  waits :: "duration list"
  calls :: nat
  refused :: "krecord list"

text \<open>
  \<^verbatim>\<open>base << (attempt - 1)\<close> on an \<^verbatim>\<open>int64\<close>. \<^verbatim>\<open>rand.Int64N\<close> panics when its argument is not
  positive, which is \<open>None\<close>; \<open>rnd\<close> is the draw, reduced to the range.
\<close>

definition shifted :: "duration \<Rightarrow> nat \<Rightarrow> int" where
  "shifted delay n = sint (push_bit n (word_of_int delay :: 64 word))"

definition backoff :: "int \<Rightarrow> duration \<Rightarrow> nat \<Rightarrow> duration option" where
  "backoff rnd delay n =
     (let d = shifted delay (n - 1) in
      if d \<le> 0 then None
      else Some (sint (word_of_int (rnd mod d + d) :: 64 word)))"

text \<open>
  \<open>attempt\<close>, from its \<open>n\<close>-th try: the last error, or none; the outer \<open>None\<close> is a panic.
\<close>

function attempt_from ::
  "'s ConsumerConfig \<Rightarrow> 's handler \<Rightarrow> ('s \<Rightarrow> bool) \<Rightarrow> (nat \<Rightarrow> int) \<Rightarrow> nat \<Rightarrow> Record \<Rightarrow> 's world \<Rightarrow>
     error option option \<times> 's world" where
  "attempt_from cfg handler cancelled rnd n r w =
     (case handler r (hs w) of
        (res, s) \<Rightarrow>
          (let w1 = w\<lparr>hs := s, calls := calls w + 1\<rparr> in
           case res of
             None \<Rightarrow> (Some None, w1)
           | Some err \<Rightarrow>
               if errors_Is err ErrPermanent \<or> int n \<ge> cfg_MaxAttempts cfg then (Some (Some err), w1)
               else
                 (case backoff (rnd n) (cfg_BaseBackoff cfg) n of
                    None \<Rightarrow> (None, w1)
                  | Some wait \<Rightarrow>
                      (let w2 = w1\<lparr>waits := waits w1 @ [wait]\<rparr> in
                       if cancelled s then (Some (Some err), w2)
                       else attempt_from cfg handler cancelled rnd (Suc n) r w2))))"
  by pat_completeness auto
termination
  by (relation "measure (\<lambda>(cfg, _, _, _, n, _, _). nat (cfg_MaxAttempts cfg - int n))") auto

declare attempt_from.simps [simp del]

definition attempt ::
  "'s ConsumerConfig \<Rightarrow> 's handler \<Rightarrow> ('s \<Rightarrow> bool) \<Rightarrow> (nat \<Rightarrow> int) \<Rightarrow> Record \<Rightarrow> 's world \<Rightarrow>
     error option option \<times> 's world" where
  "attempt cfg handler cancelled rnd r w = attempt_from cfg handler cancelled rnd 1 r w"

definition toRecord :: "krecord \<Rightarrow> Record" where
  "toRecord kr =
     \<lparr>r_Topic = kr_Topic kr, r_Key = kr_Key kr, r_Value = kr_Value kr,
      r_Headers = fold (\<lambda>(k, v) m. AList.update k v m) (kr_Headers kr) [],
      r_Partition = kr_Partition kr, r_Offset = kr_Offset kr\<rparr>"

definition dlq_message :: "Record \<Rightarrow> error \<Rightarrow> Message" where
  "dlq_message r cause =
     \<lparr>msg_Topic = r_Topic r @ ''.dlq'', msg_Key = r_Key r, msg_Payload = r_Value r,
      msg_Headers =
        AList.update ''sagaflow_dlq_error'' (Error cause)
          (AList.update ''sagaflow_dlq_offset'' (itoa (r_Offset r))
            (AList.update ''sagaflow_dlq_partition'' (itoa (r_Partition r))
              (AList.update ''sagaflow_dlq_topic'' (r_Topic r) (r_Headers r))))\<rparr>"

definition deadLetter ::
  "'s ConsumerConfig \<Rightarrow> Record \<Rightarrow> error \<Rightarrow> 's world \<Rightarrow> error option \<times> 's world" where
  "deadLetter cfg r cause w =
     (case cfg_DLQ cfg of
        None \<Rightarrow> (Some (Errorf ''kafka: no DLQ configured, cannot settle: '' cause []), w)
      | Some fate \<Rightarrow>
          (case Publish (fate r) [dlq_message r cause] (dlq_log w) of
             (Inl err, log) \<Rightarrow> (Some err, w\<lparr>dlq_log := log\<rparr>)
           | (Inr _, log) \<Rightarrow> (None, w\<lparr>dlq_log := log\<rparr>)))"

text \<open>\<open>handle\<close>: whether the offset was marked; \<open>None\<close> is a panic on the way.\<close>

definition handle ::
  "'s ConsumerConfig \<Rightarrow> 's handler \<Rightarrow> ('s \<Rightarrow> bool) \<Rightarrow> (nat \<Rightarrow> int) \<Rightarrow> krecord \<Rightarrow> 's world \<Rightarrow>
     bool option \<times> 's world" where
  "handle cfg handler cancelled rnd kr w =
     (let r = toRecord kr in
      case attempt cfg handler cancelled rnd r w of
        (None, w1) \<Rightarrow> (None, w1)
      | (Some None, w1) \<Rightarrow> (Some True, w1\<lparr>marks := marks w1 @ [kr]\<rparr>)
      | (Some (Some err), w1) \<Rightarrow>
          if cancelled (hs w1) then (Some False, w1)
          else
            (case deadLetter cfg r err w1 of
               (Some derr, w2) \<Rightarrow> (Some False, w2\<lparr>refused := refused w2 @ [kr]\<rparr>)
             | (None, w2) \<Rightarrow> (Some True, w2\<lparr>marks := marks w2 @ [kr]\<rparr>)))"

definition topicPartition :: "krecord \<Rightarrow> string \<times> int" where
  "topicPartition kr = (kr_Topic kr, kr_Partition kr)"

fun handle_records ::
  "'s ConsumerConfig \<Rightarrow> 's handler \<Rightarrow> ('s \<Rightarrow> bool) \<Rightarrow> (krecord \<Rightarrow> nat \<Rightarrow> int) \<Rightarrow>
     (string \<times> int) list \<Rightarrow> krecord list \<Rightarrow> 's world \<Rightarrow> unit option \<times> 's world" where
  "handle_records cfg handler cancelled rnd stalled [] w = (Some (), w)"
| "handle_records cfg handler cancelled rnd stalled (kr # krs) w =
     (if topicPartition kr \<in> set stalled then
        handle_records cfg handler cancelled rnd stalled krs w
      else
        (case handle cfg handler cancelled (rnd kr) kr w of
           (None, w') \<Rightarrow> (None, w')
         | (Some True, w') \<Rightarrow> handle_records cfg handler cancelled rnd stalled krs w'
         | (Some False, w') \<Rightarrow>
             handle_records cfg handler cancelled rnd (topicPartition kr # stalled) krs w'))"

definition handleBatch ::
  "'s ConsumerConfig \<Rightarrow> 's handler \<Rightarrow> ('s \<Rightarrow> bool) \<Rightarrow> (krecord \<Rightarrow> nat \<Rightarrow> int) \<Rightarrow> krecord list \<Rightarrow>
     's world \<Rightarrow> unit option \<times> 's world" where
  "handleBatch cfg handler cancelled rnd krs w =
     handle_records cfg handler cancelled rnd [] krs w"

text \<open>One poll: what the client returned, and whether the loop stops.\<close>

record fetches =
  f_closed :: bool
  f_records :: "krecord list"

definition poll ::
  "'s ConsumerConfig \<Rightarrow> 's handler \<Rightarrow> ('s \<Rightarrow> bool) \<Rightarrow> (krecord \<Rightarrow> nat \<Rightarrow> int) \<Rightarrow> fetches \<Rightarrow>
     's world \<Rightarrow> bool option \<times> 's world" where
  "poll cfg handler cancelled rnd f w =
     (if f_closed f \<or> cancelled (hs w) then (Some True, w)
      else
        (case handleBatch cfg handler cancelled rnd (f_records f) w of
           (None, w') \<Rightarrow> (None, w')
         | (Some _, w') \<Rightarrow> (Some False, w')))"

text \<open>\<open>Run\<close>, along the batches the client returns; \<open>None\<close> when they run out or on a panic.\<close>

fun Consumer_Run ::
  "'s ConsumerConfig \<Rightarrow> 's handler \<Rightarrow> ('s \<Rightarrow> bool) \<Rightarrow> (krecord \<Rightarrow> nat \<Rightarrow> int) \<Rightarrow> fetches list \<Rightarrow>
     's world \<Rightarrow> unit option \<times> 's world" where
  "Consumer_Run cfg handler cancelled rnd [] w = (None, w)"
| "Consumer_Run cfg handler cancelled rnd (f # fs) w =
     (case poll cfg handler cancelled rnd f w of
        (None, w') \<Rightarrow> (None, w')
      | (Some True, w') \<Rightarrow> (Some (), w')
      | (Some False, w') \<Rightarrow> Consumer_Run cfg handler cancelled rnd fs w')"

text \<open>
  What the group resumes from: \<^verbatim>\<open>MarkCommitRecords\<close> keeps the highest offset per partition and the
  committed offset is the one after it.
\<close>

definition committed :: "krecord list \<Rightarrow> string \<times> int \<Rightarrow> int" where
  "committed ms tp = foldr (\<lambda>kr n. if topicPartition kr = tp then max (kr_Offset kr + 1) n else n) ms 0"

section \<open>The producer is a Publisher\<close>

lemma ProduceSync_mono: "ProduceSync fate i rs log = (errs, log') \<Longrightarrow> set log \<subseteq> set log'"
  by (induction fate i rs log arbitrary: errs log' rule: ProduceSync.induct)
    (auto split: ack.splits prod.splits if_splits)

lemma ProduceSync_acked:
  "ProduceSync fate i rs log = (errs, log') \<Longrightarrow> FirstErr errs = None \<Longrightarrow> log' = log @ rs"
  by (induction fate i rs log arbitrary: errs log' rule: ProduceSync.induct)
    (auto split: ack.splits prod.splits)

lemma Publish_ok: "Publish fate ms log = (Inr (), log') \<Longrightarrow> log' = log @ map record_of ms"
  by (auto simp: Publish_def split: if_splits prod.splits option.splits dest: ProduceSync_acked)

interpretation producer: publisher "Publish fate" "\<lambda>log m. record_of m \<in> set log" for fate
proof
  fix ms log log' m
  assume "Publish fate ms log = (Inr (), log')" "m \<in> set ms"
  then show "record_of m \<in> set log'" by (auto dest: Publish_ok)
next
  fix ms log r log' m
  assume "Publish fate ms log = (r, log')" "record_of m \<in> set log"
  then show "record_of m \<in> set log'"
    by (auto simp: Publish_def split: if_splits prod.splits option.splits dest: ProduceSync_mono)
qed

lemma Publish_all_acked: "Publish (\<lambda>_. Acked) ms log = (Inr (), log @ map record_of ms)"
proof -
  have "ProduceSync (\<lambda>_. Acked) i rs l = (map (\<lambda>_. None) rs, l @ rs)" for i rs l
    by (induction rs arbitrary: i l) auto
  moreover have "FirstErr (map (\<lambda>_. None) xs) = None" for xs :: "Message list" by (induction xs) auto
  ultimately show ?thesis by (simp add: Publish_def comp_def)
qed

section \<open>Backoff\<close>

lemma sint_word64:
  "- (2 ^ 63) \<le> x \<Longrightarrow> x < 2 ^ 63 \<Longrightarrow> sint (word_of_int x :: 64 word) = x"
  by (simp add: sint_sbintrunc' signed_take_bit_int_eq_self)

lemma shifted_exact:
  assumes "0 < delay" "delay * 2 ^ n < 2 ^ 63"
  shows "shifted delay n = delay * 2 ^ n"
proof -
  have "push_bit n (word_of_int delay :: 64 word) = word_of_int (delay * 2 ^ n)"
    by (simp add: push_bit_eq_mult)
  moreover have "0 \<le> delay * 2 ^ n" using assms(1) by simp
  moreover have "- (2 ^ 63) \<le> delay * 2 ^ n" using \<open>0 \<le> delay * 2 ^ n\<close> by (rule order_trans [rotated]) simp
  ultimately show ?thesis using assms(2) unfolding shifted_def by (simp only: sint_word64)
qed

lemma backoff_exact:
  assumes "0 < delay" "1 \<le> n" "delay * 2 ^ n < 2 ^ 63"
  shows "backoff rnd delay n = Some (rnd mod (delay * 2 ^ (n - 1)) + delay * 2 ^ (n - 1))"
proof -
  let ?d = "delay * 2 ^ (n - 1)"
  have two: "delay * 2 ^ n = 2 * ?d" using assms(2) by (cases n) simp_all
  have d: "0 < ?d" using assms(1) by simp
  then have "shifted delay (n - 1) = ?d" using assms two by (intro shifted_exact) simp_all
  moreover have "0 \<le> rnd mod ?d" "rnd mod ?d < ?d" using d by simp_all
  moreover from calculation d assms(3) two
  have "sint (word_of_int (rnd mod ?d + ?d) :: 64 word) = rnd mod ?d + ?d"
    by (intro sint_word64) linarith+
  ultimately show ?thesis using d unfolding backoff_def Let_def by simp
qed

lemma backoff_wait:
  assumes "0 < B" "1 \<le> n" "n < M" "B * 2 ^ M < 2 ^ 63"
  shows "\<exists>wait. backoff rnd B n = Some wait \<and> 0 \<le> wait \<and> wait \<le> B * 2 ^ n \<and> B * 2 ^ n \<le> B * (2 ^ M - 2 ^ n)"
proof -
  have "B * 2 ^ n \<le> B * 2 ^ M" using assms(1,3) by simp
  then have bo: "backoff rnd B n = Some (rnd mod (B * 2 ^ (n - 1)) + B * 2 ^ (n - 1))"
    using assms(1,2,4) by (intro backoff_exact) linarith+
  have d: "0 < B * 2 ^ (n - 1)" "2 * (B * 2 ^ (n - 1)) = B * 2 ^ n" using assms(1,2) by (simp, cases n, simp_all)
  have "(2::int) ^ Suc n \<le> 2 ^ M" using assms(3) by (intro power_increasing) simp_all
  then have "B * 2 ^ n \<le> B * (2 ^ M - 2 ^ n)" using assms(1) by (intro mult_left_mono) simp_all
  moreover have "0 \<le> rnd mod (B * 2 ^ (n - 1)) + B * 2 ^ (n - 1)" "rnd mod (B * 2 ^ (n - 1)) + B * 2 ^ (n - 1) \<le> B * 2 ^ n"
    using d pos_mod_bound [OF d(1), of rnd] pos_mod_sign [OF d(1), of rnd] by linarith+
  ultimately show ?thesis using bo by blast
qed

text \<open>
  One wait before every try but the first; a wait that was cut short because the context is done is not
  followed by another try, and the error is returned.
\<close>

definition tries_and_waits ::
  "('s \<Rightarrow> bool) \<Rightarrow> error option option \<Rightarrow> nat \<Rightarrow> nat \<Rightarrow> 's world \<Rightarrow> bool" where
  "tries_and_waits cancelled res tries n w \<longleftrightarrow>
     tries = n + 1 \<or> tries = n \<and> cancelled (hs w) \<and> (\<exists>err. res = Some (Some err))"

text \<open>The retry loop from its \<open>n\<close>-th try.\<close>

lemma attempt_from_bounds:
  assumes "0 < cfg_BaseBackoff cfg" "1 \<le> n" "int n \<le> cfg_MaxAttempts cfg"
    and "cfg_BaseBackoff cfg * 2 ^ nat (cfg_MaxAttempts cfg) < 2 ^ 63"
    and "attempt_from cfg handler cancelled rnd n r w = (res, w')"
  shows "res \<noteq> None \<and> calls w < calls w' \<and> calls w' \<le> calls w + (nat (cfg_MaxAttempts cfg) + 1 - n) \<and>
    marks w' = marks w \<and> dlq_log w' = dlq_log w \<and>
    (\<exists>ws. waits w' = waits w @ ws \<and> length ws \<le> nat (cfg_MaxAttempts cfg) - n \<and>
      tries_and_waits cancelled res (calls w' - calls w) (length ws) w' \<and>
      0 \<le> sum_list ws \<and> sum_list ws \<le> cfg_BaseBackoff cfg * (2 ^ nat (cfg_MaxAttempts cfg) - 2 ^ n))"
  using assms
proof (induction "nat (cfg_MaxAttempts cfg) - n" arbitrary: n w res w')
  case (0 n)
  obtain r0 s where h: "handler r (hs w) = (r0, s)" by (cases "handler r (hs w)")
  have "cfg_MaxAttempts cfg \<le> int n" "nat (cfg_MaxAttempts cfg) = n" using 0 by simp_all
  then show ?case using 0 h
    by (subst (asm) attempt_from.simps) (auto simp: Let_def tries_and_waits_def split: option.splits)
next
  case (Suc k n)
  obtain r0 s where h: "handler r (hs w) = (r0, s)" by (cases "handler r (hs w)")
  let ?B = "cfg_BaseBackoff cfg" and ?M = "nat (cfg_MaxAttempts cfg)"
  let ?w1 = "w\<lparr>hs := s, calls := calls w + 1\<rparr>"
  have nM: "n < ?M" "int n < cfg_MaxAttempts cfg" using Suc.hyps(2) Suc.prems(3) by linarith+
  obtain wait where bo: "backoff (rnd n) ?B n = Some wait" and wb: "0 \<le> wait" "wait \<le> ?B * 2 ^ n"
    and pow2: "?B * 2 ^ n \<le> ?B * (2 ^ ?M - 2 ^ n)"
    using backoff_wait [OF Suc.prems(1,2) nM(1) Suc.prems(4)] by blast
  let ?w2 = "?w1\<lparr>waits := waits w @ [wait]\<rparr>"
  show ?case
  proof (cases "\<exists>err. r0 = Some err \<and> \<not> errors_Is err ErrPermanent \<and> \<not> cancelled s")
    case False
    then have "res \<noteq> None \<and> (w' = ?w1 \<or> w' = ?w2 \<and> cancelled s \<and> (\<exists>err. res = Some (Some err)))"
      using Suc.prems(5) h nM bo
      by (subst (asm) attempt_from.simps) (auto simp: Let_def split: option.splits if_splits)
    moreover have "0 \<le> ?B * (2 ^ ?M - 2 ^ n)" using pow2 wb by linarith
    ultimately show ?thesis using nM(1) wb pow2 by (auto simp: tries_and_waits_def)
  next
    case True
    then obtain err where err: "r0 = Some err" "\<not> errors_Is err ErrPermanent" "\<not> cancelled s" by blast
    have rest: "attempt_from cfg handler cancelled rnd (Suc n) r ?w2 = (res, w')"
      using Suc.prems(5) h err nM bo by (subst (asm) attempt_from.simps) (simp add: Let_def)
    have "k = ?M - Suc n" "int (Suc n) \<le> cfg_MaxAttempts cfg" using Suc.hyps(2) nM by linarith+
    from Suc.hyps(1) [OF this(1) Suc.prems(1) _ this(2) Suc.prems(4) rest] obtain ws where
      ih: "res \<noteq> None" "calls ?w2 < calls w'" "calls w' \<le> calls ?w2 + (?M + 1 - Suc n)"
        "marks w' = marks ?w2" "dlq_log w' = dlq_log ?w2"
        "waits w' = waits ?w2 @ ws" "length ws \<le> ?M - Suc n" "0 \<le> sum_list ws"
        "sum_list ws \<le> ?B * (2 ^ ?M - 2 ^ Suc n)"
        "tries_and_waits cancelled res (calls w' - calls ?w2) (length ws) w'" by auto
    have "tries_and_waits cancelled res (calls w' - calls w) (length (wait # ws)) w'"
      using ih(2,10) by (auto simp: tries_and_waits_def)
    moreover have "sum_list (wait # ws) \<le> ?B * (2 ^ ?M - 2 ^ n)"
      using ih(9) wb(2) by (simp add: algebra_simps)
    ultimately show ?thesis using ih(1-9) wb(1) nM by (auto intro!: exI [of _ "wait # ws"])
  qed
qed

section \<open>Marks\<close>

lemma attempt_from_world:
  "attempt_from cfg handler cancelled rnd n r w = (res, w') \<Longrightarrow>
     marks w' = marks w \<and> dlq_log w' = dlq_log w \<and> refused w' = refused w"
proof (induction cfg handler cancelled rnd n r w arbitrary: res w' rule: attempt_from.induct)
  case (1 cfg handler cancelled rnd n r w)
  obtain r0 s where h: "handler r (hs w) = (r0, s)" by (cases "handler r (hs w)")
  show ?case
    using 1(2) 1(1) [OF h [symmetric] refl] h
    by (subst (asm) attempt_from.simps) (auto simp: Let_def split: option.splits if_splits)
qed

lemma handle_marks:
  assumes "handle cfg handler cancelled rnd kr w = (res, w')"
  shows "marks w' = (if res = Some True then marks w @ [kr] else marks w)"
proof -
  obtain a w1 where at: "attempt cfg handler cancelled rnd (toRecord kr) w = (a, w1)"
    by (cases "attempt cfg handler cancelled rnd (toRecord kr) w")
  then have m1: "marks w1 = marks w" by (auto simp: attempt_def dest: attempt_from_world)
  have "marks (snd (deadLetter cfg r err w1)) = marks w1" for r err
    by (auto simp: deadLetter_def split: option.split prod.split sum.split)
  then have "deadLetter cfg r err w1 = (d, w2) \<Longrightarrow> marks w2 = marks w1" for r err d w2
    by (metis snd_conv)
  then show ?thesis
    using assms at m1
    by (auto simp: handle_def Let_def split: option.splits prod.splits if_splits)
qed

lemma skipped_prefix:
  assumes "\<And>tp. prefix (filter (\<lambda>k. topicPartition k = tp) ms) (filter (\<lambda>k. topicPartition k = tp) krs)"
    and "\<forall>k \<in> set ms. topicPartition k \<noteq> topicPartition kr"
  shows "prefix (filter (\<lambda>k. topicPartition k = tp) ms) (filter (\<lambda>k. topicPartition k = tp) (kr # krs))"
proof -
  have "filter (\<lambda>k. topicPartition k = topicPartition kr) ms = []" using assms(2) by (auto simp: filter_empty_conv)
  then show ?thesis using assms(1) by auto
qed

lemma handle_records_prefix:
  "handle_records cfg handler cancelled rnd stalled krs w = (res, w') \<Longrightarrow>
   \<exists>ms. marks w' = marks w @ ms \<and>
     (\<forall>tp. prefix (filter (\<lambda>k. topicPartition k = tp) ms) (filter (\<lambda>k. topicPartition k = tp) krs)) \<and>
     (\<forall>k \<in> set ms. topicPartition k \<notin> set stalled)"
proof (induction krs arbitrary: stalled w)
  case (Cons kr krs)
  show ?case
  proof (cases "topicPartition kr \<in> set stalled")
    case True
    then obtain ms where ms: "marks w' = marks w @ ms" "\<forall>k \<in> set ms. topicPartition k \<notin> set stalled"
      "\<And>tp. prefix (filter (\<lambda>k. topicPartition k = tp) ms) (filter (\<lambda>k. topicPartition k = tp) krs)"
      using Cons.IH [of stalled w] Cons.prems by auto
    then have "\<forall>k \<in> set ms. topicPartition k \<noteq> topicPartition kr" using True by metis
    then show ?thesis using ms(1,2) skipped_prefix [OF ms(3)] by (intro exI [of _ ms] conjI allI) blast+
  next
    case False
    obtain b w1 where h: "handle cfg handler cancelled (rnd kr) kr w = (b, w1)"
      by (cases "handle cfg handler cancelled (rnd kr) kr w")
    note m1 = handle_marks [OF h]
    consider (panic) "b = None" | (settled) "b = Some True" | (unsettled) "b = Some False" by (cases b) auto
    then show ?thesis
    proof cases
      case panic
      then show ?thesis using Cons.prems False h m1 by auto
    next
      case settled
      then obtain ms where ms: "marks w' = marks w1 @ ms" "\<forall>k \<in> set ms. topicPartition k \<notin> set stalled"
        "\<And>tp. prefix (filter (\<lambda>k. topicPartition k = tp) ms) (filter (\<lambda>k. topicPartition k = tp) krs)"
        using Cons.IH [of stalled w1] Cons.prems False h by auto
      then show ?thesis using m1 settled False by (intro exI [of _ "kr # ms"]) auto
    next
      case unsettled
      then obtain ms where ms: "marks w' = marks w1 @ ms"
        "\<forall>k \<in> set ms. topicPartition k \<notin> set (topicPartition kr # stalled)"
        "\<And>tp. prefix (filter (\<lambda>k. topicPartition k = tp) ms) (filter (\<lambda>k. topicPartition k = tp) krs)"
        using Cons.IH [of "topicPartition kr # stalled" w1] Cons.prems False h by auto
      then have "marks w' = marks w @ ms" "\<forall>k \<in> set ms. topicPartition k \<noteq> topicPartition kr"
        "\<forall>k \<in> set ms. topicPartition k \<notin> set stalled" using m1 unsettled by auto
      then show ?thesis using skipped_prefix [OF ms(3)] by (intro exI [of _ ms] conjI allI) blast+
    qed
  qed
qed auto

section \<open>Properties of the consumer\<close>

text \<open>
  Within a batch nothing unsettled is skipped: in every partition, the records marked are a
  prefix of that partition's records in the batch, so once one could not be settled no later one of
  its partition is marked.
\<close>

theorem handleBatch_marks_prefix:
  "\<exists>ms. marks (snd (handleBatch cfg handler cancelled rnd krs w)) = marks w @ ms \<and>
     prefix (filter (\<lambda>k. topicPartition k = tp) ms) (filter (\<lambda>k. topicPartition k = tp) krs)"
proof -
  obtain res w' where run: "handle_records cfg handler cancelled rnd [] krs w = (res, w')"
    by (cases "handle_records cfg handler cancelled rnd [] krs w")
  from handle_records_prefix [OF this] run show ?thesis unfolding handleBatch_def by (metis snd_conv)
qed

lemma handle_records_flow:
  assumes "\<And>kr w. kr \<in> set krs \<Longrightarrow> fst (handle cfg handler cancelled (rnd kr) kr w) \<noteq> None"
    and "\<And>kr w. kr \<in> set krs \<Longrightarrow> topicPartition kr = tp \<Longrightarrow> fst (handle cfg handler cancelled (rnd kr) kr w) = Some True"
    and "tp \<notin> set stalled"
  shows "\<exists>w' ms. handle_records cfg handler cancelled rnd stalled krs w = (Some (), w') \<and>
    marks w' = marks w @ ms \<and> filter (\<lambda>k. topicPartition k = tp) ms = filter (\<lambda>k. topicPartition k = tp) krs"
  using assms
proof (induction krs arbitrary: stalled w)
  case Nil
  then show ?case by auto
next
  case (Cons kr krs)
  have IH: "tp \<notin> set st \<Longrightarrow> \<exists>w' ms. handle_records cfg handler cancelled rnd st krs v = (Some (), w') \<and>
    marks w' = marks v @ ms \<and> filter (\<lambda>k. topicPartition k = tp) ms = filter (\<lambda>k. topicPartition k = tp) krs" for st v
    using Cons by auto
  show ?case
  proof (cases "topicPartition kr \<in> set stalled")
    case True
    then show ?thesis using IH [OF Cons.prems(3), of w] Cons.prems(3) by auto
  next
    case False
    obtain b w1 where h: "handle cfg handler cancelled (rnd kr) kr w = (b, w1)"
      by (cases "handle cfg handler cancelled (rnd kr) kr w")
    note m1 = handle_marks [OF h]
    obtain x where b: "b = Some x" using Cons.prems(1) [of kr w] h by auto
    show ?thesis
    proof (cases x)
      case True
      from IH [OF Cons.prems(3), of w1] obtain w' ms where
        "handle_records cfg handler cancelled rnd stalled krs w1 = (Some (), w')" "marks w' = marks w1 @ ms"
        "filter (\<lambda>k. topicPartition k = tp) ms = filter (\<lambda>k. topicPartition k = tp) krs" by blast
      then show ?thesis using False h b True m1
        by (intro exI [of _ w'] exI [of _ "kr # ms"]) simp
    next
      case unsettled: False
      then have ne: "topicPartition kr \<noteq> tp" using Cons.prems(2) [of kr w] h b by auto
      then show ?thesis using IH [of "topicPartition kr # stalled" w1] Cons.prems(3) False h b unsettled m1
        by auto
    qed
  qed
qed

text \<open>
  One stuck stream does not stop the others: a partition whose records can always be settled is
  marked to the end of the batch, whatever happens to the other partitions in between.
\<close>

theorem other_partitions_flow:
  assumes "\<forall>kr w. kr \<in> set krs \<longrightarrow> fst (handle cfg handler cancelled (rnd kr) kr w) \<noteq> None"
    and "\<forall>kr w. kr \<in> set krs \<and> topicPartition kr = tp \<longrightarrow>
      fst (handle cfg handler cancelled (rnd kr) kr w) = Some True"
  shows "\<exists>w' ms. handleBatch cfg handler cancelled rnd krs w = (Some (), w') \<and> marks w' = marks w @ ms \<and>
    filter (\<lambda>k. topicPartition k = tp) ms = filter (\<lambda>k. topicPartition k = tp) krs"
  unfolding handleBatch_def using assms by (intro handle_records_flow) auto

section \<open>A consumer for the witnesses\<close>

text \<open>A consumer with the default budget whose handler refuses offset 0 for good and takes the rest.\<close>

definition picky :: "unit handler" where
  "picky r s = (if r_Offset r = 0 then Some (Errorf [] ErrPermanent '': bad payload'') else None, s)"

definition never :: "unit \<Rightarrow> bool" where
  "never s = False"

definition demo_cfg :: "unit ConsumerConfig" where
  "demo_cfg = \<lparr>cfg_Brokers = [''b''], cfg_Group = ''g'', cfg_Topics = [''t''], cfg_Handler = Some picky, cfg_DLQ = None,
     cfg_MaxAttempts = DefaultMaxAttempts, cfg_BaseBackoff = DefaultBaseBackoff\<rparr>"

definition demo_krecord :: "int \<Rightarrow> krecord" where
  "demo_krecord i = \<lparr>kr_Topic = ''t'', kr_Key = ''14A'', kr_Value = ''x'', kr_Headers = [(''ce_id'', ''1'')],
     kr_Partition = 3, kr_Offset = i\<rparr>"

definition idle_world :: "unit world" where
  "idle_world = \<lparr>hs = (), dlq_log = [], marks = [], waits = [], calls = 0, refused = []\<rparr>"

lemma handle_settled:
  assumes "handler (toRecord kr) (hs w) = (None, s)"
  shows "handle cfg handler cancelled rnd kr w =
    (Some True, w\<lparr>hs := s, calls := calls w + 1, marks := marks w @ [kr]\<rparr>)"
  using assms by (simp add: handle_def attempt_def attempt_from.simps Let_def)

lemma handle_permanent:
  assumes "handler (toRecord kr) (hs w) = (Some err, s)" "errors_Is err ErrPermanent"
  shows "handle cfg handler cancelled rnd kr w =
    (let w1 = w\<lparr>hs := s, calls := calls w + 1\<rparr> in
     if cancelled s then (Some False, w1)
     else case deadLetter cfg (toRecord kr) err w1 of
            (Some derr, w2) \<Rightarrow> (Some False, w2\<lparr>refused := refused w2 @ [kr]\<rparr>)
          | (None, w2) \<Rightarrow> (Some True, w2\<lparr>marks := marks w2 @ [kr]\<rparr>))"
  using assms by (simp add: handle_def attempt_def attempt_from.simps Let_def)

theorem other_partitions_flow_witness:
  "\<exists>w' ms. handleBatch demo_cfg picky never (\<lambda>_ _. 0) [demo_krecord 1, demo_krecord 2] idle_world = (Some (), w') \<and>
    marks w' = marks idle_world @ ms \<and>
    filter (\<lambda>k. topicPartition k = (''t'', 3)) ms =
      filter (\<lambda>k. topicPartition k = (''t'', 3)) [demo_krecord 1, demo_krecord 2]"
proof -
  have "fst (handle demo_cfg picky never rnd kr w) = Some True"
    if "kr \<in> set [demo_krecord 1, demo_krecord 2]" for kr w rnd
    using that by (subst handle_settled [where s = "()"]) (auto simp: picky_def toRecord_def demo_krecord_def)
  then show ?thesis by (intro other_partitions_flow) auto
qed

text \<open>
  C27. The retry budget: with a positive base delay whose product with two to the number of attempts
  fits an \<^verbatim>\<open>int64\<close>, a record is tried at least once and at most \<open>MaxAttempts\<close> times and the backoff
  never panics. There are fewer than \<open>MaxAttempts\<close> waits: one less than there were tries, or as many as
  there were tries when the context was done in the last of them, and then the handler's error is
  returned. Together they ask for at most the base delay times two less than two to the number of
  attempts; with the defaults that is three seconds, within \<open>RebalanceTimeout\<close>.
\<close>

theorem attempt_budget:
  assumes "0 < cfg_BaseBackoff cfg" "0 < cfg_MaxAttempts cfg"
    and "cfg_BaseBackoff cfg * 2 ^ nat (cfg_MaxAttempts cfg) < 2 ^ 63"
    and "attempt cfg handler cancelled rnd r w = (res, w')"
  shows "res \<noteq> None \<and> calls w < calls w' \<and> calls w' \<le> calls w + nat (cfg_MaxAttempts cfg) \<and>
    (\<exists>ws. waits w' = waits w @ ws \<and> length ws < nat (cfg_MaxAttempts cfg) \<and>
       (calls w' - calls w = length ws + 1 \<or>
        calls w' - calls w = length ws \<and> cancelled (hs w') \<and> (\<exists>err. res = Some (Some err))) \<and>
       0 \<le> sum_list ws \<and> sum_list ws \<le> cfg_BaseBackoff cfg * (2 ^ nat (cfg_MaxAttempts cfg) - 2)) \<and>
    DefaultBaseBackoff * (2 ^ nat DefaultMaxAttempts - 2) = 3 * 1000000000 \<and>
    3 * 1000000000 < RebalanceTimeout"
proof -
  have "int 1 \<le> cfg_MaxAttempts cfg" using assms(2) by simp
  from attempt_from_bounds [OF assms(1) _ this assms(3) assms(4) [unfolded attempt_def]]
  obtain ws where "res \<noteq> None" "calls w < calls w'" "calls w' \<le> calls w + nat (cfg_MaxAttempts cfg)"
    "waits w' = waits w @ ws" "length ws \<le> nat (cfg_MaxAttempts cfg) - 1" "0 \<le> sum_list ws"
    "tries_and_waits cancelled res (calls w' - calls w) (length ws) w'"
    "sum_list ws \<le> cfg_BaseBackoff cfg * (2 ^ nat (cfg_MaxAttempts cfg) - 2)" by auto
  then show ?thesis using assms(2)
    by (auto simp: tries_and_waits_def DefaultBaseBackoff_def DefaultMaxAttempts_def RebalanceTimeout_def)
qed

theorem attempt_budget_witness:
  "calls (snd (attempt demo_cfg (\<lambda>r s. (Some Canceled, s)) never (\<lambda>_. 0) (toRecord (demo_krecord 1)) idle_world)) \<le> 5"
proof -
  obtain res w' where run: "attempt demo_cfg (\<lambda>r s. (Some Canceled, s)) never (\<lambda>_. 0)
      (toRecord (demo_krecord 1)) idle_world = (res, w')"
    by (metis prod.collapse)
  then show ?thesis using attempt_budget [OF _ _ _ run]
    by (simp add: demo_cfg_def DefaultBaseBackoff_def DefaultMaxAttempts_def idle_world_def)
qed

text \<open>
  A permanent failure is not retried: it costs exactly one call of the handler and no waiting,
  and is settled by dead-lettering when that succeeds.
\<close>

theorem permanent_not_retried:
  assumes "handler (toRecord kr) (hs w) = (Some err, s)" "errors_Is err ErrPermanent" "\<not> cancelled s"
    and "cfg_DLQ cfg = Some fate" "fate (toRecord kr) 0 = Acked"
  shows "\<exists>w'. handle cfg handler cancelled rnd kr w = (Some True, w') \<and> calls w' = calls w + 1 \<and>
    waits w' = waits w \<and> marks w' = marks w @ [kr] \<and>
    dlq_log w' = dlq_log w @ [record_of (dlq_message (toRecord kr) err)]"
  using assms
  by (simp add: handle_permanent [of handler kr w err s] Let_def deadLetter_def Publish_def)

theorem permanent_not_retried_witness:
  "\<exists>w'. handle (demo_cfg\<lparr>cfg_DLQ := Some (\<lambda>_ _. Acked)\<rparr>) picky never (\<lambda>_. 0) (demo_krecord 0) idle_world
      = (Some True, w') \<and> calls w' = calls idle_world + 1"
  using permanent_not_retried [of picky "demo_krecord 0" idle_world
      "Errorf [] ErrPermanent '': bad payload''" "()" never "demo_cfg\<lparr>cfg_DLQ := Some (\<lambda>_ _. Acked)\<rparr>"
      "\<lambda>_ _. Acked" "\<lambda>_. 0"]
  by (auto simp: picky_def toRecord_def demo_krecord_def never_def)

text \<open>
  What a dead-lettered record carries: it goes to the topic's own \<^verbatim>\<open>.dlq\<close> under the same key with
  the same payload, its headers are the original ones except for the four that say where it came
  from and why, and those four are exact.
\<close>

theorem dead_letter_provenance:
  "msg_Topic (dlq_message r cause) = r_Topic r @ ''.dlq'' \<and> msg_Key (dlq_message r cause) = r_Key r \<and>
   msg_Payload (dlq_message r cause) = r_Value r \<and>
   map_of (msg_Headers (dlq_message r cause)) =
     (map_of (r_Headers r))(''sagaflow_dlq_topic'' \<mapsto> r_Topic r,
        ''sagaflow_dlq_partition'' \<mapsto> itoa (r_Partition r), ''sagaflow_dlq_offset'' \<mapsto> itoa (r_Offset r),
        ''sagaflow_dlq_error'' \<mapsto> Error cause)"
  by (simp add: dlq_message_def update_conv')

lemma toRecord_headers:
  "distinct (map fst (msg_Headers m)) \<Longrightarrow> map_of (r_Headers (toRecord (record_of m))) = map_of (msg_Headers m)"
proof -
  have "map_of (fold (\<lambda>(k, v) m. AList.update k v m) hs acc) = map_of acc ++ map_of hs"
    if "distinct (map fst hs)" for hs acc :: gomap
    using that
  proof (induction hs arbitrary: acc)
    case (Cons h hs)
    obtain k v where h: "h = (k, v)" by (cases h)
    have "map_of hs k = None" using Cons.prems h by (simp add: map_of_eq_None_iff)
    then have step: "map_of (AList.update k v acc) ++ map_of hs = map_of acc ++ map_of (h # hs)"
      using h by (auto simp: fun_eq_iff map_add_def update_conv' split: option.split)
    have "fold (\<lambda>(k, v) m. AList.update k v m) (h # hs) acc =
        fold (\<lambda>(k, v) m. AList.update k v m) hs (AList.update k v acc)" by (simp add: h)
    then show ?case using Cons.IH [of "AList.update k v acc"] Cons.prems step
      by (simp only: distinct.simps list.map)
  qed simp
  then show "distinct (map fst (msg_Headers m)) \<Longrightarrow> ?thesis" by (simp add: toRecord_def record_of_def)
qed

text \<open>
  The producer's and the consumer's view of a message agree: what the consumer's handler is
  given is the topic, key, payload and headers that were published.
\<close>

theorem record_roundtrip:
  assumes "distinct (map fst (msg_Headers m))"
  shows "r_Topic (toRecord (record_of m)) = msg_Topic m \<and> r_Key (toRecord (record_of m)) = msg_Key m \<and>
    r_Value (toRecord (record_of m)) = msg_Payload m \<and>
    map_of (r_Headers (toRecord (record_of m))) = map_of (msg_Headers m)"
  using toRecord_headers [OF assms] by (simp add: toRecord_def record_of_def)

theorem record_roundtrip_witness:
  "map_of (r_Headers (toRecord (record_of \<lparr>msg_Topic = ''t'', msg_Key = ''k'', msg_Payload = ''p'',
     msg_Headers = [(''a'', ''1''), (''b'', ''2'')]\<rparr>))) = map_of [(''a'', ''1''), (''b'', ''2'')]"
  using record_roundtrip [of "\<lparr>msg_Topic = ''t'', msg_Key = ''k'', msg_Payload = ''p'',
     msg_Headers = [(''a'', ''1''), (''b'', ''2'')]\<rparr>"] by simp

text \<open>
  C32. A stalled partition is stalled for one batch only: when a record cannot be settled (its
  dead letter was refused, which is logged) and the next poll returns the record after it, that one is
  handled and marked, and the group's committed offset moves past the record that was never settled.
\<close>

theorem unsettled_skipped_by_next_poll:
  assumes "handler (toRecord kr0) s = (Some err, s)" "errors_Is err ErrPermanent"
    and "handler (toRecord kr1) s = (None, s)" "\<not> cancelled s"
    and "cfg_DLQ cfg = Some fate" "fate (toRecord kr0) 0 = Nacked derr False"
    and "topicPartition kr0 = tp" "topicPartition kr1 = tp" "kr_Offset kr1 = kr_Offset kr0 + 1" "0 \<le> kr_Offset kr0"
    and "hs w = s" "marks w = []"
  shows "\<exists>w'. Consumer_Run cfg handler cancelled rnd
      [\<lparr>f_closed = False, f_records = [kr0]\<rparr>, \<lparr>f_closed = False, f_records = [kr1]\<rparr>,
       \<lparr>f_closed = True, f_records = []\<rparr>] w = (Some (), w') \<and>
    marks w' = [kr1] \<and> dlq_log w' = dlq_log w \<and> kr_Offset kr0 < committed (marks w') tp \<and>
    refused w' = refused w @ [kr0]"
proof -
  let ?w1 = "w\<lparr>hs := s, calls := calls w + 1, refused := refused w @ [kr0]\<rparr>"
  have h0: "handle cfg handler cancelled (rnd kr0) kr0 w = (Some False, ?w1)"
    using assms by (simp add: handle_permanent [of handler kr0 w err s] deadLetter_def Publish_def)
  have h1: "handle cfg handler cancelled (rnd kr1) kr1 ?w1 =
      (Some True, ?w1\<lparr>calls := calls w + 2, marks := [kr1]\<rparr>)"
    using assms handle_settled [of handler kr1 ?w1 s cfg cancelled "rnd kr1"] by simp
  show ?thesis
    using assms h0 h1 by (simp add: poll_def handleBatch_def committed_def)
qed

theorem unsettled_skipped_by_next_poll_witness:
  "\<exists>w'. Consumer_Run (demo_cfg\<lparr>cfg_DLQ := Some (\<lambda>_ _. Nacked Canceled False)\<rparr>) picky never (\<lambda>_ _. 0)
      [\<lparr>f_closed = False, f_records = [demo_krecord 0]\<rparr>, \<lparr>f_closed = False, f_records = [demo_krecord 1]\<rparr>,
       \<lparr>f_closed = True, f_records = []\<rparr>] idle_world = (Some (), w') \<and>
    marks w' = [demo_krecord 1] \<and> 0 < committed (marks w') (''t'', 3)"
  using unsettled_skipped_by_next_poll [of picky "demo_krecord 0" "()" "Errorf [] ErrPermanent '': bad payload''"
      "demo_krecord 1" never "demo_cfg\<lparr>cfg_DLQ := Some (\<lambda>_ _. Nacked Canceled False)\<rparr>" "\<lambda>_ _. Nacked Canceled False"
      Canceled "(''t'', 3)" idle_world "\<lambda>_ _. 0"]
  by (auto simp: picky_def toRecord_def demo_krecord_def never_def demo_cfg_def topicPartition_def idle_world_def)

section \<open>The outbox, published through the producer\<close>

definition on_broker :: "krecord list \<Rightarrow> Message \<Rightarrow> bool" where
  "on_broker log m \<longleftrightarrow> record_of m \<in> set log"

text \<open>
  At least once: a cycle of the poller through the Kafka producer, whatever the broker
  acknowledges, whatever fails in the database and whatever other writers commit meanwhile, never
  leaves a row marked as published whose record is not on the broker, and never loses a row that was
  waiting: it is still in the table, or its record is on the broker.
\<close>

theorem Drain_at_least_once:
  assumes "outbox_sound (on_broker log) (tbl db)" "others_keep e outbox_step"
    and "Drain (Publish fate) e locked (db, log) = (r, db', log')"
  shows "outbox_sound (on_broker log') (tbl db') \<and>
    (\<forall>x \<in> set (outbox (tbl db)). ob_published_at x = None \<longrightarrow>
       x \<in> set (outbox (tbl db')) \<or> on_broker log' (row_message x))"
  using producer.Drain_sound [of log db e fate locked r db' log'] assms
  by (simp add: on_broker_def [abs_def])

definition outbox_db :: database where
  "outbox_db = empty_db\<lparr>tbl := empty_tables\<lparr>outbox :=
     outbox_rows 0 [\<lparr>msg_Topic = ''t'', msg_Key = ''14A'', msg_Payload = ''p'', msg_Headers = []\<rparr>]\<rparr>\<rparr>"

theorem Drain_at_least_once_witness:
  "outbox_sound (on_broker (snd (snd (Drain (Publish (\<lambda>_. Nacked Canceled True)) calm_env nobody (outbox_db, [])))))
     (tbl (fst (snd (Drain (Publish (\<lambda>_. Nacked Canceled True)) calm_env nobody (outbox_db, [])))))"
proof -
  have "outbox_sound (on_broker []) (tbl outbox_db)"
    by (simp add: outbox_sound_def outbox_db_def outbox_ids_def)
  moreover have "others_keep calm_env outbox_step"
    by (simp add: others_keep_def calm_env_def outbox_step_refl)
  ultimately show ?thesis
    using Drain_at_least_once [of "[]" outbox_db calm_env "\<lambda>_. Nacked Canceled True" nobody] by (metis prod.collapse)
qed

text \<open>
  C25. Draining terminates and is complete: with a broker that acknowledges, fuel for one more batch
  than the waiting rows fill is enough for \<open>drainAll\<close> to finish; then nothing is waiting, and the
  broker has received the records of all the waiting rows in the order of their ids.
\<close>

theorem drainAll_publishes_in_order:
  assumes "\<forall>i. quiet (envs i)" "distinct (outbox_ids (tbl db))"
    and "length (waiting (tbl db)) div BatchSize < fuel"
  shows "\<exists>db'. drainAll (Publish (\<lambda>_. Acked)) envs nobody i fuel (db, log) =
      (Some None, db', log @ map (record_of \<circ> row_message) (waiting (tbl db))) \<and> waiting (tbl db') = [] \<and>
    sorted (map ob_id (waiting (tbl db)))"
proof -
  have "length (waiting (tbl db)) < fuel * BatchSize"
    using assms(3) by (simp add: BatchSize_def div_less_iff_less_mult)
  then obtain db' where "drainAll (Publish (\<lambda>_. Acked)) envs nobody i fuel (db, log) =
      (Some None, db', log @ map (record_of \<circ> row_message) (waiting (tbl db)))" "waiting (tbl db') = []"
    using quiet_drainAll [of envs "Publish (\<lambda>_. Acked)" record_of db fuel i log] assms(1,2) Publish_all_acked
    by blast
  moreover have "sorted (map ob_id (waiting (tbl db)))" by (simp add: waiting_def)
  ultimately show ?thesis by blast
qed

theorem drainAll_publishes_in_order_witness:
  "\<exists>db'. drainAll (Publish (\<lambda>_. Acked)) (\<lambda>_. calm_env) nobody 0 1 (outbox_db, []) =
      (Some None, db', [] @ map (record_of \<circ> row_message) (waiting (tbl outbox_db))) \<and> waiting (tbl db') = []"
  using drainAll_publishes_in_order [of "\<lambda>_. calm_env" outbox_db 1 0 "[]"]
  by (auto simp: outbox_db_def outbox_ids_def waiting_def BatchSize_def)

text \<open>
  Topic creation is idempotent: it succeeds exactly when every topic was created or existed
  already, and otherwise reports the first topic that failed for another reason.
\<close>

theorem EnsureTopics_idempotent:
  "(EnsureTopics None (Inr resp) = None) =
     (\<forall>t err. (t, Some err) \<in> set resp \<longrightarrow> errors_Is err ErrTopicAlreadyExists) \<and>
   (\<forall>e. EnsureTopics None (Inr resp) = Some e \<longrightarrow>
      (\<exists>t err. (t, Some err) \<in> set resp \<and> \<not> errors_Is err ErrTopicAlreadyExists \<and>
         e = Errorf (''kafka: create topic '' @ t @ '': '') err []))"
  by (induction resp rule: check_created.induct) (auto simp: EnsureTopics_def)

theorem EnsureTopics_idempotent_witness:
  "EnsureTopics None (Inr [(''a'', None), (''b'', Some ErrTopicAlreadyExists)]) = None"
  using EnsureTopics_idempotent [of "[(''a'', None), (''b'', Some ErrTopicAlreadyExists)]"] by simp

end
