(* ===== verification/Consumers.thy ===== *)
theory Consumers
  imports Commands Projection Kafka
begin

text \<open>
  \<^verbatim>\<open>internal/inventory/consumers.go\<close>: the two Kafka handlers of the service, over the database and a
  count of the records handled so far (each handled record runs in environments of its own). The
  Decoder is the parameter \<open>dec\<close>.
\<close>

definition ProjectionConsumer :: string where
  "ProjectionConsumer = ''inventory.projection''"

type_synonym decoder = "bytes \<Rightarrow> error + message"

record service =
  sv_db :: database
  sv_handled :: nat

text \<open>\<^verbatim>\<open>fmt.Errorf("%w: %v", kafka.ErrPermanent, err)\<close>: the cause is kept as text only.\<close>

definition permanent :: "error \<Rightarrow> error" where
  "permanent err = Errorf [] ErrPermanent ('': '' @ Error err)"

definition Commands_handler ::
  "protolib \<Rightarrow> encoder \<Rightarrow> decoder \<Rightarrow> (nat \<Rightarrow> nat \<Rightarrow> env) \<Rightarrow> (nat \<Rightarrow> nat \<Rightarrow> id_supply) \<Rightarrow> service handler" where
  "Commands_handler L enc dec envs ids r s =
     (case Parse (r_Headers r) of
        Inl err \<Rightarrow> (Some (permanent err), s)
      | Inr incoming \<Rightarrow>
          (case dec (r_Value r) of
             Inl err \<Rightarrow> (Some (permanent err), s)
           | Inr cmd \<Rightarrow>
               (case Handle L enc (envs (sv_handled s)) (ids (sv_handled s)) incoming cmd (sv_db s) of
                  (Inr _, k, db) \<Rightarrow> (None, s\<lparr>sv_db := db, sv_handled := sv_handled s + 1\<rparr>)
                | (Inl err, k, db) \<Rightarrow>
                    (if errors_Is err ErrUnknownCommand
                     then Some (Errorf2 [] ErrPermanent '': '' err) else Some err,
                     s\<lparr>sv_db := db, sv_handled := sv_handled s + 1\<rparr>))))"

definition Projections_handler :: "protolib \<Rightarrow> (nat \<Rightarrow> env) \<Rightarrow> service handler" where
  "Projections_handler L envs r s =
     (case Parse (r_Headers r) of
        Inl err \<Rightarrow> (Some (permanent err), s)
      | Inr incoming \<Rightarrow>
          if env_Subject incoming = [] then
            (Some (Errorf [] ErrPermanent
               ('': inventory: event '' @ env_ID incoming @ '' names no seat in ce_subject'')), s)
          else
            (case Project L (envs (sv_handled s)) (env_Subject incoming) (sv_db s) of
               (Inl err, db) \<Rightarrow> (Some err, s\<lparr>sv_db := db, sv_handled := sv_handled s + 1\<rparr>)
             | (Inr _, db) \<Rightarrow> (None, s\<lparr>sv_db := db, sv_handled := sv_handled s + 1\<rparr>)))"

section \<open>Facts\<close>

lemma permanent_Is [simp]: "errors_Is (permanent err) ErrPermanent"
  by (simp add: permanent_def)

text \<open>A message that is no command reaches no database.\<close>

lemma Handle_unknown:
  assumes "SeatID cmd = Inl err"
  shows "Handle L enc envs ids inc cmd db = (Inl err, 1, db) \<and> errors_Is err ErrUnknownCommand"
proof -
  have err: "err = unknown_command cmd" using assms by (cases cmd) auto
  then have "\<not> errors_Is err ErrVersionConflict" by (simp add: unknown_command_def)
  then show ?thesis
    using assms err by (simp add: Handle_def applyInOneTransaction_def unknown_command_def)
qed

section \<open>Properties\<close>

text \<open>
  C28. What can never succeed is dead-lettered at once: a record whose headers are no envelope, whose
  payload does not decode, or whose message is not a command fails with a permanent error and leaves
  the database alone; everything the handler itself returns comes back as it is, to be retried.
\<close>

theorem Commands_permanent_failures:
  assumes "Commands_handler L enc dec envs ids r s = (res, s')"
  shows "case Parse (r_Headers r) of
     Inl err \<Rightarrow> res = Some (permanent err) \<and> s' = s
   | Inr inc \<Rightarrow>
       (case dec (r_Value r) of
          Inl err \<Rightarrow> res = Some (permanent err) \<and> s' = s
        | Inr cmd \<Rightarrow>
            (case SeatID cmd of
               Inl err \<Rightarrow> (\<exists>e. res = Some e \<and> errors_Is e ErrPermanent \<and> errors_Is e ErrUnknownCommand) \<and>
                 sv_db s' = sv_db s
             | Inr seat \<Rightarrow>
                 (\<exists>r' k. Handle L enc (envs (sv_handled s)) (ids (sv_handled s)) inc cmd (sv_db s) = (r', k, sv_db s') \<and>
                    (r' = Inr () \<longrightarrow> res = None) \<and>
                    (\<forall>e. r' = Inl e \<and> \<not> errors_Is e ErrUnknownCommand \<longrightarrow> res = Some e))))"
proof (cases "Parse (r_Headers r)")
  case (Inl err)
  then show ?thesis using assms by (auto simp: Commands_handler_def)
next
  case parsed: (Inr inc)
  show ?thesis
  proof (cases "dec (r_Value r)")
    case (Inl err)
    then show ?thesis using assms parsed by (auto simp: Commands_handler_def)
  next
    case decoded: (Inr cmd)
    show ?thesis
    proof (cases "SeatID cmd")
      case (Inl err)
      then show ?thesis
        using assms parsed decoded Handle_unknown [OF Inl] by (auto simp: Commands_handler_def)
    next
      case (Inr seat)
      obtain r' k db where h: "Handle L enc (envs (sv_handled s)) (ids (sv_handled s)) inc cmd (sv_db s) = (r', k, db)"
        by (metis prod.collapse)
      then have "sv_db s' = db" "r' = Inr () \<longrightarrow> res = None"
        "\<forall>e. r' = Inl e \<and> \<not> errors_Is e ErrUnknownCommand \<longrightarrow> res = Some e"
        using assms parsed decoded by (auto simp: Commands_handler_def split: sum.splits if_splits)
      then show ?thesis using parsed decoded Inr h by simp
    qed
  qed
qed

definition demo_dec :: decoder where
  "demo_dec b = (if b = ''x'' then Inr (OtherMsg ''x'') else Inl (ErrorNew ''short frame''))"

definition demo_service :: service where
  "demo_service = \<lparr>sv_db = empty_db, sv_handled = 0\<rparr>"

theorem Commands_permanent_failures_witness:
  "\<exists>e s'. Commands_handler demo_lib demo_enc demo_dec (\<lambda>_ _. calm_env) (\<lambda>_ _. demo_ids)
      (toRecord (demo_krecord 1)) demo_service = (Some e, s') \<and> errors_Is e ErrPermanent \<and> s' = demo_service"
proof -
  obtain res s' where run: "Commands_handler demo_lib demo_enc demo_dec (\<lambda>_ _. calm_env) (\<lambda>_ _. demo_ids)
      (toRecord (demo_krecord 1)) demo_service = (res, s')"
    by (metis prod.collapse)
  moreover have "\<exists>err. Parse (r_Headers (toRecord (demo_krecord 1))) = Inl err"
    by (simp add: toRecord_def demo_krecord_def Parse_def SpecVersion_def)
  ultimately show ?thesis using Commands_permanent_failures [OF run] by auto
qed

text \<open>
  The consumer keeps the invariant end to end: whatever records arrive and however often they are
  retried, the commands handler leaves every seat stream in order, for every environment of every
  attempt.
\<close>

theorem Commands_consumer_never_oversells:
  assumes "\<forall>n i. seats_rely L (envs n i) \<and> codec_ok L (envs n i)" and "seats_ok L (tbl (sv_db (hs w)))"
    and "handle cfg (Commands_handler L enc dec envs ids) cancelled rnd kr w = (res, w')"
  shows "seats_ok L (tbl (sv_db (hs w')))"
proof -
  let ?h = "Commands_handler L enc dec envs ids"
  have one: "seats_ok L (tbl (sv_db s'))"
    if "?h r s = (x, s')" "seats_ok L (tbl (sv_db s))" for r s x s'
  proof -
    have step: "seats_ok L (tbl db)" if "Handle L enc (envs (sv_handled s)) (ids (sv_handled s)) inc cmd (sv_db s) = (r', k, db)"
      for inc cmd r' k db
      using attempts_step [of L "envs (sv_handled s)"] assms(1) that \<open>seats_ok L (tbl (sv_db s))\<close>
      unfolding Handle_def seats_step_def by blast
    show ?thesis using that
      by (auto simp: Commands_handler_def split: sum.splits prod.splits if_splits dest: step)
  qed
  have "seats_ok L (tbl (sv_db (hs v')))"
    if "attempt_from cfg ?h cancelled rnd n r v = (x, v')" "seats_ok L (tbl (sv_db (hs v)))" for n r v x v'
    using that
  proof (induction cfg ?h cancelled rnd n r v arbitrary: x v' rule: attempt_from.induct)
    case (1 cfg cancelled rnd n r v)
    obtain a s where h: "?h r (hs v) = (a, s)" by (cases "?h r (hs v)")
    have ok: "seats_ok L (tbl (sv_db s))" using one [OF h 1(3)] .
    show ?case
      using 1(2) h ok
      by (subst (asm) attempt_from.simps)
        (auto simp: Let_def split: option.splits if_splits dest!: 1(1) [OF h [symmetric] refl])
  qed
  moreover have "hs (snd (deadLetter cfg r err v)) = hs v" for r err v
    by (auto simp: deadLetter_def split: option.split prod.split sum.split)
  then have "deadLetter cfg r err v = (d, v') \<Longrightarrow> hs v' = hs v" for r err v d v'
    by (metis snd_conv)
  ultimately show ?thesis
    using assms(2,3) by (fastforce simp: handle_def attempt_def Let_def split: option.splits prod.splits if_splits)
qed

definition demo_consumer :: "service ConsumerConfig" where
  "demo_consumer = \<lparr>cfg_Brokers = [''b''], cfg_Group = Consumer, cfg_Topics = [CommandsTopic],
     cfg_Handler = None, cfg_DLQ = Some (\<lambda>_ _. Acked),
     cfg_MaxAttempts = DefaultMaxAttempts, cfg_BaseBackoff = DefaultBaseBackoff\<rparr>"

theorem Commands_consumer_never_oversells_witness:
  "seats_ok demo_lib (tbl (sv_db (hs (snd (handle demo_consumer
     (Commands_handler demo_lib demo_enc demo_dec (\<lambda>_ _. calm_env) (\<lambda>_ _. demo_ids)) (\<lambda>_. False) (\<lambda>_. 0)
     (demo_krecord 1) \<lparr>hs = demo_service, dlq_log = [], marks = [], waits = [], calls = 0, refused = []\<rparr>)))))"
proof -
  have "seats_ok demo_lib (tbl (sv_db demo_service))" by (simp add: demo_service_def empty_db_def)
  moreover have "\<forall>n i::nat. seats_rely demo_lib calm_env \<and> codec_ok demo_lib calm_env"
    by (simp add: seats_rely_quiet codec_ok_demo)
  ultimately show ?thesis
    using Commands_consumer_never_oversells [where envs = "\<lambda>_ _. calm_env" and w =
        "\<lparr>hs = demo_service, dlq_log = [], marks = [], waits = [], calls = 0, refused = []\<rparr>"]
    by (metis prod.collapse world.select_convs(1))
qed

end
