(* ===== verification/Scheduler.thy ===== *)
theory Scheduler
  imports Timers
begin

text \<open>
  \<^verbatim>\<open>internal/platform/timers/scheduler.go\<close>: one pass over the due timers (\<open>Tick\<close>), the transaction
  that claims a timer and applies its effect (\<open>fireOne\<close>), how long to wait (\<open>sleep\<close>) and the loop
  (\<open>Run\<close>). The Firer is an argument; the locale \<open>firer\<close> is what the scheduler relies on and is
  interpreted on inventory's Expirer.

  Every call that opens a transaction gets its own environment. \<open>Run\<close> is an endless loop that a
  cancelled context ends, so it is run along a list of passes, each with what woke it.
\<close>

definition Scheduler_BatchSize :: nat where
  "Scheduler_BatchSize = 100"

text \<open>Durations are nanoseconds.\<close>

definition MaxSleep :: duration where
  "MaxSleep = 1000000000"

definition MinSleep :: duration where
  "MinSleep = 5 * 1000000"

definition Timers_Retention :: duration where
  "Timers_Retention = 7 * 24 * 3600 * 1000000000"

type_synonym firer = "env \<Rightarrow> Timer \<Rightarrow> tx \<Rightarrow> (error + unit) \<times> tx"

section \<open>Operations\<close>

text \<open>The closure of \<open>fireOne\<close>; its value is the captured variable \<^verbatim>\<open>claimed\<close>.\<close>

definition claimAndFire :: "firer \<Rightarrow> env \<Rightarrow> Timer \<Rightarrow> tx \<Rightarrow> (error + bool) \<times> tx" where
  "claimAndFire fire e t =
     bindE (MarkFired e (tr_ID t)) (\<lambda>got.
       if \<not> got then retE False else bindE (fire e t) (\<lambda>_. retE True))"

definition fireOne :: "firer \<Rightarrow> env \<Rightarrow> Timer \<Rightarrow> database \<Rightarrow> (error + bool) \<times> database" where
  "fireOne fire e t = WithTx e (claimAndFire fire e t)"

text \<open>
  The loop of \<open>Tick\<close>: how many fired, and the failures that are logged (those that did not come from
  the cancelled context).
\<close>

fun fireEach ::
  "firer \<Rightarrow> (nat \<Rightarrow> env) \<Rightarrow> (nat \<Rightarrow> bool) \<Rightarrow> nat \<Rightarrow> Timer list \<Rightarrow> database \<Rightarrow>
     (nat \<times> (int \<times> error) list) \<times> database" where
  "fireEach fire envs cancelled i [] db = ((0, []), db)"
| "fireEach fire envs cancelled i (t # ts) db =
     (case fireOne fire (envs i) t db of
        (r, db1) \<Rightarrow>
          (case fireEach fire envs cancelled (Suc i) ts db1 of
             ((fired, logged), db2) \<Rightarrow>
               (case r of
                  Inl err \<Rightarrow> ((fired, if cancelled i then logged else (tr_ID t, err) # logged), db2)
                | Inr claimed \<Rightarrow> ((if claimed then fired + 1 else fired, logged), db2))))"

definition Tick ::
  "firer \<Rightarrow> (nat \<Rightarrow> env) \<Rightarrow> (nat \<Rightarrow> bool) \<Rightarrow> database \<Rightarrow>
     (error + nat \<times> (int \<times> error) list) \<times> database" where
  "Tick fire envs cancelled db =
     (case Due (envs 0) Scheduler_BatchSize db of
        (Inl err, db1) \<Rightarrow> (Inl err, db1)
      | (Inr due, db1) \<Rightarrow>
          (case fireEach fire envs cancelled 1 due db1 of (res, db2) \<Rightarrow> (Inr res, db2)))"

text \<open>\<^verbatim>\<open>time.Until\<close> reads the process clock, the second argument.\<close>

definition sleep :: "env \<Rightarrow> time \<Rightarrow> database \<Rightarrow> duration \<times> database" where
  "sleep e clock db =
     (case NextDue e db of
        (Inl err, db') \<Rightarrow> (MaxSleep, db')
      | (Inr (next, some), db') \<Rightarrow>
          (if \<not> some then MaxSleep else min (max (next - clock) MinSleep) MaxSleep, db'))"

definition pruneFired :: "env \<Rightarrow> database \<Rightarrow> database" where
  "pruneFired e db = snd (timers_Prune e Timers_Retention db)"

datatype wake = CtxDone | WaitElapsed | PruneTick

record pass =
  p_envs :: "nat \<Rightarrow> env"
  p_cancelled :: "nat \<Rightarrow> bool"
  p_sleep_env :: env
  p_clock :: time
  p_wake :: wake
  p_prune_env :: env

text \<open>One turn of the loop: its wait, whether \<open>Run\<close> returns, and the database.\<close>

definition run_pass :: "firer \<Rightarrow> pass \<Rightarrow> database \<Rightarrow> (duration \<times> bool) \<times> database" where
  "run_pass fire p db =
     (let db1 = snd (Tick fire (p_envs p) (p_cancelled p) db);
          (d, db2) = sleep (p_sleep_env p) (p_clock p) db1
      in case p_wake p of
           CtxDone \<Rightarrow> ((d, True), db2)
         | WaitElapsed \<Rightarrow> ((d, False), db2)
         | PruneTick \<Rightarrow> ((d, False), pruneFired (p_prune_env p) db2))"

text \<open>\<open>None\<close>: the passes ran out before the context was cancelled.\<close>

fun Scheduler_Run :: "firer \<Rightarrow> pass list \<Rightarrow> database \<Rightarrow> unit option \<times> duration list \<times> database" where
  "Scheduler_Run fire [] db = (None, [], db)"
| "Scheduler_Run fire (p # ps) db =
     (case run_pass fire p db of
        ((d, True), db') \<Rightarrow> (Some (), [d], db')
      | ((d, False), db') \<Rightarrow>
          (case Scheduler_Run fire ps db' of (res, ds, db'') \<Rightarrow> (res, d # ds, db'')))"

section \<open>The contract of a Firer\<close>

text \<open>
  A Firer reaches the database only through the transaction it was given, and does not touch the
  timers table.
\<close>

definition timers_kept :: "tx \<Rightarrow> tx \<Rightarrow> bool" where
  "timers_kept t t' \<longleftrightarrow> timers (view t') = timers (view t)"

interpretation timers_kept: frame timers_kept
  by unfold_locales (simp_all add: timers_kept_def)

lemma keeps_timers_exec:
  assumes "\<And>n S T. timers (others e n S T) = timers T"
    and "\<And>T sq x T' sq'. st T sq = (Inr (x, T'), sq') \<Longrightarrow> timers T' = timers T"
  shows "keeps timers_kept (exec e st)"
proof (rule keepsI)
  fix t
  obtain r t' where run: "exec e st t = (r, t')" by (cases "exec e st t")
  then have "timers (view t') = timers (view t)"
    using exec_view [OF run] assms by metis
  with run show "timers_kept t (snd (exec e st t))" by (simp add: timers_kept_def)
qed

locale firer =
  fixes fire :: firer
  assumes fire_base: "keeps (base_frame e) (fire e t)"
    and fire_timers: "(\<And>n S T. timers (others e n S T) = timers T) \<Longrightarrow> keeps timers_kept (fire e t)"
begin

lemma keeps_base_claimAndFire: "keeps (base_frame e) (claimAndFire fire e t)"
proof -
  have "keeps (base_frame e) (if \<not> got then retE False else bindE (fire e t) (\<lambda>_. retE True))" for got
    by (auto intro!: frame_intros fire_base)
  then show ?thesis unfolding claimAndFire_def by (intro frame_intros)
qed

lemma atomic:
  assumes "fireOne fire e t db = (r, db')"
  shows "(\<exists>err. r = Inl err \<and> meanwhile e (tbl db, sqs db) (tbl db', sqs db')) \<or>
    (\<exists>claimed u. claimAndFire fire e t (begin_tx db) = (Inr claimed, u) \<and>
      tbl db' = others e (stmts u) (seqs u) (view u) \<and>
      (r = Inr claimed \<or> (\<exists>err. r = Inl (Errorf ''commit: '' err []))))"
  using assms [unfolded fireOne_def] keeps_base_claimAndFire
  by (cases rule: WithTx_cases) (auto simp: applied_tx_def interleave_def)

text \<open>In a quiet database a claim and the effect of its timer commit or roll back together.\<close>

lemma quiet_fireOne:
  assumes "quiet e" "timers_ok (tbl db)" "tr_ID t \<in> tm_id ` set (timers (tbl db))"
    and "tr_ID t \<notin> fired_ids (tbl db)"
  shows "\<exists>r db'. fireOne fire e t db = (r, db') \<and>
    (case r of
       Inl err \<Rightarrow> tbl db' = tbl db
     | Inr claimed \<Rightarrow> claimed \<and> timers (tbl db') = timers (snd (markFiredSQL e (tr_ID t) (tbl db))))"
proof -
  let ?u = "(begin_tx db)\<lparr>stmts := Suc 0, view := snd (markFiredSQL e (tr_ID t) (tbl db))\<rparr>"
  have mark: "MarkFired e (tr_ID t) (begin_tx db) = (Inr True, ?u)"
    using assms by (simp add: quiet_MarkFired markFiredSQL_rows)
  obtain r u where fire: "fire e t ?u = (r, u)" by (cases "fire e t ?u")
  show ?thesis
  proof (cases r)
    case (Inl err)
    then have "claimAndFire fire e t (begin_tx db) = (Inl err, u)"
      using mark fire by (simp add: claimAndFire_def bindE_def)
    then show ?thesis
      using quiet_WithTx_err [OF assms(1) _ keeps_base_claimAndFire] by (simp add: fireOne_def)
  next
    case (Inr x)
    then have ok: "claimAndFire fire e t (begin_tx db) = (Inr True, u)"
      using mark fire by (simp add: claimAndFire_def bindE_def retE_def)
    have "timers_kept ?u u"
      using fire fire_timers [of e t] assms(1) by (auto simp: quietD dest: keepsD)
    then have tm: "timers (view u) = timers (snd (markFiredSQL e (tr_ID t) (tbl db)))"
      by (simp add: timers_kept_def)
    have "base_frame e (begin_tx db) u"
      using ok keeps_base_claimAndFire by (blast dest: keepsD)
    then have "base u = tbl db" using quiet_meanwhile [OF assms(1)] by (auto simp: base_frame_def)
    then show ?thesis
      using ok tm assms(1)
      by (cases "aborted u")
        (auto simp: fireOne_def WithTx_def commit_tx_def Let_def interleave_def applied_tx_def
          rollback_tx_def quietD)
  qed
qed

lemma quiet_fireEach:
  assumes "\<And>i. quiet (envs i)" "\<And>i. \<not> cancelled i"
    and "timers_ok (tbl db)" "distinct (map tr_ID ts)"
    and "tr_ID ` set ts \<subseteq> tm_id ` set (timers (tbl db))" "tr_ID ` set ts \<inter> fired_ids (tbl db) = {}"
  shows "\<exists>fired logged db'. fireEach fire envs cancelled i ts db = ((fired, logged), db') \<and>
    fired + length logged = length ts \<and> fst ` set logged \<subseteq> tr_ID ` set ts \<and>
    fired_ids (tbl db') = fired_ids (tbl db) \<union> (tr_ID ` set ts - fst ` set logged)"
  using assms(3-6)
proof (induction ts arbitrary: db i)
  case Nil
  then show ?case by simp
next
  case (Cons t ts)
  from quiet_fireOne [OF assms(1) [of i] Cons.prems(1), of t] Cons.prems(3,4)
  obtain r db1 where one: "fireOne fire (envs i) t db = (r, db1)" and
    r: "case r of Inl err \<Rightarrow> tbl db1 = tbl db
       | Inr claimed \<Rightarrow> claimed \<and> timers (tbl db1) = timers (snd (markFiredSQL (envs i) (tr_ID t) (tbl db)))"
    by auto
  have ids: "map tm_id (timers (tbl db1)) = map tm_id (timers (tbl db))"
    using r by (cases r) auto
  then have ok1: "timers_ok (tbl db1)" using Cons.prems(1) by (simp only: timers_ok_def)
  have ids_set: "tm_id ` set (timers (tbl db1)) = tm_id ` set (timers (tbl db))"
    using ids by (metis image_set)
  have f1: "fired_ids (tbl db1) = fired_ids (tbl db) \<union> (case r of Inl _ \<Rightarrow> {} | Inr _ \<Rightarrow> {tr_ID t})"
  proof (cases r)
    case (Inr claimed)
    then have "fired_ids (tbl db1) = fired_ids (snd (markFiredSQL (envs i) (tr_ID t) (tbl db)))"
      using r by (simp add: fired_ids_def)
    then show ?thesis using Inr Cons.prems(3) by (simp add: markFiredSQL_fired)
  qed (use r in simp)
  have "tr_ID ` set ts \<inter> fired_ids (tbl db1) = {}"
    using f1 Cons.prems(2,4) by (auto split: sum.splits)
  with Cons.IH [OF ok1, of "Suc i"] Cons.prems(2,3) ids_set
  obtain fired logged db2 where rest:
    "fireEach fire envs cancelled (Suc i) ts db1 = ((fired, logged), db2)"
    "fired + length logged = length ts" "fst ` set logged \<subseteq> tr_ID ` set ts"
    "fired_ids (tbl db2) = fired_ids (tbl db1) \<union> (tr_ID ` set ts - fst ` set logged)"
    by auto
  have "tr_ID t \<notin> tr_ID ` set ts" using Cons.prems(2) by simp
  then show ?case
    using rest one r f1 assms(2) [of i] by (cases r) auto
qed

lemma quiet_Tick:
  assumes "\<And>i. quiet (envs i)" "\<And>i. \<not> cancelled i" "timers_ok (tbl db)"
  shows "\<exists>due fired logged db'. Due (envs 0) Scheduler_BatchSize db = (Inr due, db) \<and>
    Tick fire envs cancelled db = (Inr (fired, logged), db') \<and>
    fired + length logged = length due \<and> fst ` set logged \<subseteq> tr_ID ` set due \<and>
    fired_ids (tbl db') = fired_ids (tbl db) \<union> (tr_ID ` set due - fst ` set logged)"
proof -
  let ?rows = "dueSQL (envs 0) Scheduler_BatchSize (tbl db)"
  have due: "Due (envs 0) Scheduler_BatchSize db = (Inr (map timer_of ?rows), db)"
    using assms(1) by (simp add: Due_def wrapE_def quiet_pool_select)
  have ids: "map tr_ID (map timer_of ?rows) = map tm_id ?rows" by (simp add: timer_of_def)
  have sub: "set ?rows \<subseteq> {r \<in> set (timers (tbl db)). tm_fired_at r = None}"
    using set_take_subset unfolding dueSQL_def by (fastforce simp: is_due_def dest!: in_set_takeD)
  have "distinct (map tm_id (filter (is_due (envs 0)) (timers (tbl db))))"
    using assms(3) by (simp add: timers_ok_def distinct_map_filter)
  then have "distinct (map tm_id (sort_key tm_fire_at (filter (is_due (envs 0)) (timers (tbl db)))))"
    by (simp add: distinct_map)
  then have dist: "distinct (map tr_ID (map timer_of ?rows))"
    by (simp only: ids) (simp add: dueSQL_def take_map [symmetric])
  have mem: "tr_ID ` set (map timer_of ?rows) = tm_id ` set ?rows"
    using ids by (metis image_set)
  have "tm_id ` set ?rows \<inter> fired_ids (tbl db) = {}"
    using sub pending_iff [OF assms(3)] by blast
  with sub obtain fired logged db' where
    "fireEach fire envs cancelled 1 (map timer_of ?rows) db = ((fired, logged), db')"
    "fired + length logged = length (map timer_of ?rows)" "fst ` set logged \<subseteq> tr_ID ` set (map timer_of ?rows)"
    "fired_ids (tbl db') =
       fired_ids (tbl db) \<union> (tr_ID ` set (map timer_of ?rows) - fst ` set logged)"
    using quiet_fireEach [where envs = envs and cancelled = cancelled and i = 1, OF assms(1,2,3) dist]
    unfolding mem by blast
  then show ?thesis using due by (auto simp: Tick_def)
qed

end

section \<open>Properties of the loop\<close>

text \<open>
  The wait between two passes is always between \<open>MinSleep\<close> and \<open>MaxSleep\<close>, whatever the lookup
  returns and however far past the deadline is; it never outlasts the next deadline by more than
  \<open>MinSleep\<close>, and a failed lookup waits the maximum.
\<close>

theorem sleep_bounds:
  "MinSleep \<le> fst (sleep e clock db) \<and> fst (sleep e clock db) \<le> MaxSleep \<and>
   (case fst (NextDue e db) of
      Inl err \<Rightarrow> fst (sleep e clock db) = MaxSleep
    | Inr (next, some) \<Rightarrow>
        if some then clock + fst (sleep e clock db) \<le> max next (clock + MinSleep)
        else fst (sleep e clock db) = MaxSleep)"
  by (auto simp: sleep_def MinSleep_def MaxSleep_def split: prod.split sum.split)

lemma run_pass_sleep: "fst (fst (run_pass fire p db)) \<in> {MinSleep..MaxSleep}"
proof -
  have "fst (sleep e c d) \<in> {MinSleep..MaxSleep}" for e c d
    by (auto simp: sleep_def MinSleep_def MaxSleep_def split: prod.split sum.split)
  then show ?thesis
    by (auto simp: run_pass_def Let_def split: prod.splits wake.split) (metis fst_conv)+
qed

text \<open>
  The scheduler's loop keeps going through every failure: it returns exactly when the context is
  done, never because a pass, a firing or the pruning failed, and every wait on the way is within
  the bounds.
\<close>

theorem Scheduler_Run_until_cancelled:
  "(fst (Scheduler_Run fire ps db) = Some ()) = list_ex (\<lambda>p. p_wake p = CtxDone) ps \<and>
   set (fst (snd (Scheduler_Run fire ps db))) \<subseteq> {MinSleep..MaxSleep}"
proof (induction ps arbitrary: db)
  case Nil
  show ?case by simp
next
  case (Cons p ps)
  obtain d fin db' where p: "run_pass fire p db = ((d, fin), db')" by (metis prod.collapse)
  moreover have "fin = (p_wake p = CtxDone)"
    using p by (auto simp: run_pass_def Let_def split: prod.splits wake.splits)
  moreover have "d \<in> {MinSleep..MaxSleep}" using run_pass_sleep [of fire p db] p by simp
  ultimately show ?case using Cons [of db'] by (auto split: prod.split bool.split)
qed

end
