(* ===== verification/Expiry.thy ===== *)
theory Expiry
  imports Commands Scheduler
begin

text \<open>
  \<^verbatim>\<open>internal/inventory/expiry.go\<close>: the Firer that frees a hold whose deadline has passed, inside the
  transaction that claimed the timer. The scheduler's contract \<open>firer\<close> is interpreted on it here.
\<close>

definition expiry_meta :: "Meta \<Rightarrow> Meta" where
  "expiry_meta origin =
     \<lparr>meta_TraceID = [], meta_CorrelationID = meta_CorrelationID origin, meta_CausationID = []\<rparr>"

definition expiry_envelope :: "Meta \<Rightarrow> string \<Rightarrow> Envelope" where
  "expiry_envelope origin subject =
     \<lparr>env_ID = [], env_Source = Source, env_Type = [], env_Subject = subject,
      env_CorrelationID = meta_CorrelationID origin, env_CausationID = [], env_TraceParent = []\<rparr>"

definition Fire :: "protolib \<Rightarrow> encoder \<Rightarrow> id_supply \<Rightarrow> env \<Rightarrow> Timer \<Rightarrow> tx \<Rightarrow> (error + unit) \<times> tx" where
  "Fire L enc ids e t =
     bindE (LoadSeat L e (tr_Subject t)) (\<lambda>loaded.
       let state = fst loaded; origin = snd loaded;
           decision = Expire state (tr_Subject t) (tr_Token t)
       in if out_Events decision = [] then retE ()
          else
            bindE (AppendSeat L e (tr_Subject t) (ss_Version state) (out_Events decision)
                     (expiry_meta origin)) (\<lambda>_.
            bindE (liftE (outgoing enc ids (Messages decision) (expiry_envelope origin (tr_Subject t)))) (\<lambda>msgs.
            Enqueue e msgs)))"

section \<open>The contract of a Firer\<close>

lemma keeps_base_Fire [frame_intros]: "keeps (base_frame e) (Fire L enc ids e t)"
proof -
  have "keeps (base_frame e) (let state = fst loaded; origin = snd loaded;
           decision = Expire state (tr_Subject t) (tr_Token t)
       in if out_Events decision = [] then retE ()
          else bindE (AppendSeat L e (tr_Subject t) (ss_Version state) (out_Events decision) (expiry_meta origin)) (\<lambda>_.
            bindE (liftE (outgoing enc ids (Messages decision) (expiry_envelope origin (tr_Subject t)))) (\<lambda>msgs.
            Enqueue e msgs)))" for loaded
    by (auto simp: Let_def intro!: frame_intros)
  then show ?thesis unfolding Fire_def by (intro frame_intros)
qed

lemma keeps_timers_pg_notify:
  assumes "\<And>n S T. timers (others e n S T) = timers T"
  shows "keeps timers_kept (pg_notify e ch)"
proof (rule keepsI)
  fix t
  have "timers_kept t (snd (exec e (select_stmt (\<lambda>_. ())) t))"
    using keeps_timers_exec [OF assms, of "select_stmt (\<lambda>_. ())"]
    by (auto simp: keeps_def select_stmt_def)
  then show "timers_kept t (snd (pg_notify e ch t))"
    by (auto simp: pg_notify_def timers_kept_def split: prod.splits sum.splits)
qed

lemma appendSQL_timers: "appendSQL e s v cs T sq = (Inr (x, T'), sq') \<Longrightarrow> timers T' = timers T"
  by (erule appendSQL_okD) simp

lemma keeps_timers_Fire:
  assumes "\<And>n S T. timers (others e n S T) = timers T"
  shows "keeps timers_kept (Fire L enc ids e t)"
proof -
  note exec = keeps_timers_exec [OF assms]
  have load: "keeps timers_kept (LoadSeat L e s)" for s
    unfolding LoadSeat_def Load_def
    by (auto intro!: timers_kept.keeps_seq exec simp: select_stmt_def)
  have app: "keeps timers_kept (AppendSeat L e s v evts meta)" for s v evts meta
    unfolding AppendSeat_def Append_def
    by (auto intro!: timers_kept.keeps_seq exec split: sum.split dest: appendSQL_timers)
  have enq: "keeps timers_kept (Enqueue e ms)" for ms
    unfolding Enqueue_def
    by (auto intro!: timers_kept.keeps_seq exec keeps_timers_pg_notify assms simp: enqueueSQL_def
        split: option.split)
  have "keeps timers_kept (let state = fst loaded; origin = snd loaded;
           decision = Expire state (tr_Subject t) (tr_Token t)
       in if out_Events decision = [] then retE ()
          else bindE (AppendSeat L e (tr_Subject t) (ss_Version state) (out_Events decision) (expiry_meta origin)) (\<lambda>_.
            bindE (liftE (outgoing enc ids (Messages decision) (expiry_envelope origin (tr_Subject t)))) (\<lambda>msgs.
            Enqueue e msgs)))" for loaded
    by (auto simp: Let_def intro!: timers_kept.keeps_seq app enq)
  then show ?thesis unfolding Fire_def by (intro timers_kept.keeps_bindE load)
qed

interpretation expirer: firer "Fire L enc ids" for L enc ids
  by unfold_locales (auto intro: keeps_base_Fire keeps_timers_Fire)

lemma alone_Fire [alone_intros]:
  "alone e \<Longrightarrow> succeeds_as (Fire L enc ids e t) (Fire L enc ids (quieten e) t)"
  unfolding Fire_def by (auto simp: Let_def intro!: alone_intros)

section \<open>What firing does to the streams\<close>

lemma Fire_alt:
  "Fire L enc ids e t =
     bindE (LoadSeat L e (tr_Subject t)) (\<lambda>loaded.
     bindE (liftE (Inr (Expire (fst loaded) (tr_Subject t) (tr_Token t)))) (\<lambda>out.
     bindE (AppendSeat L e (tr_Subject t) (ss_Version (fst loaded)) (out_Events out)
              (expiry_meta (snd loaded))) (\<lambda>_.
       if out_Events out = [] then retE ()
       else bindE (liftE (outgoing enc ids (Messages out) (expiry_envelope (snd loaded) (tr_Subject t))))
              (\<lambda>msgs. Enqueue e msgs))))"
  unfolding Fire_def
  by (intro arg_cong2 [where f = bindE] ext refl) (simp add: Let_def AppendSeat_def)

lemma Fire_step:
  assumes "seats_rely L e" "codec_ok L e" "Fire L enc ids e tm t = (r, t')"
  shows "seats_step L (view t) (view t')"
  by (rule load_append_step [OF assms(1,2) assms(3) [unfolded Fire_alt]])
    (use Expire_events_valid in \<open>auto simp: outcome_defs intro!: seats_frame.keeps_seq
      keeps_seats_Enqueue [OF assms(1)] split: if_splits\<close>)

lemma claimAndFire_step:
  assumes "seats_rely L e" "codec_ok L e" "claimAndFire (Fire L enc ids) e tm t = (r, t')"
  shows "seats_step L (view t) (view t')"
proof -
  have mark: "keeps (view_frame (seats_step L)) (MarkFired e i)" for i
    unfolding MarkFired_def
    by (auto intro!: seats_frame.keeps_seq keeps_seats_exec [OF assms(1)]
        simp: update_stmt_def markFiredSQL_def)
  have fire: "keeps (view_frame (seats_step L)) (Fire L enc ids e tm)"
    by (rule keepsI) (metis Fire_step [OF assms(1,2)] prod.collapse view_frame_def)
  have "keeps (view_frame (seats_step L)) (claimAndFire (Fire L enc ids) e tm)"
    unfolding claimAndFire_def
    by (auto intro!: seats_frame.keeps_bindE seats_frame.keeps_retE mark fire split: if_split)
  then show ?thesis using assms(3) by (rule keeps_viewD)
qed

lemma fireOne_step:
  assumes "seats_rely L e" "codec_ok L e" "fireOne (Fire L enc ids) e tm db = (r, db')"
  shows "seats_step L (tbl db) (tbl db')"
  by (rule WithTx_seats_step [OF assms(1) assms(3) [unfolded fireOne_def] expirer.keeps_base_claimAndFire])
    (rule claimAndFire_step [OF assms(1,2)])

section \<open>Properties\<close>

text \<open>
  One pass over the due timers isolates failures: with timer ids unique, every timer the pass
  read is attempted, each one either ends up fired or is reported and stays pending, none is fired
  that was not due, and the count returned is the number that fired.
\<close>

theorem Tick_isolates_failures:
  assumes "\<forall>i. quiet (envs i)" "\<forall>i. \<not> cancelled i" "timers_ok (tbl db)"
  shows "\<exists>due fired logged db'. Due (envs 0) Scheduler_BatchSize db = (Inr due, db) \<and>
    Tick (Fire L enc ids) envs cancelled db = (Inr (fired, logged), db') \<and>
    fired + length logged = length due \<and> fst ` set logged \<subseteq> tr_ID ` set due \<and>
    fired_ids (tbl db') = fired_ids (tbl db) \<union> (tr_ID ` set due - fst ` set logged)"
  using assms by (intro expirer.quiet_Tick) simp_all

theorem Tick_isolates_failures_witness:
  "\<exists>fired logged db'. Tick (Fire demo_lib demo_enc demo_ids) (\<lambda>_. calm_env) (\<lambda>_. False) timers_db
      = (Inr (fired, logged), db') \<and> fired + length logged = 2"
proof -
  have "timers_ok (tbl timers_db)" by (simp add: timers_db_def timers_ok_def demo_timer_def)
  moreover have "Due calm_env Scheduler_BatchSize timers_db = (Inr (map timer_of [demo_timer 1 900, demo_timer 2 950]), timers_db)"
    by (simp add: Due_def wrapE_def quiet_pool_select dueSQL_def timers_db_def demo_timer_def is_due_def
        Scheduler_BatchSize_def) (simp add: calm_env_def)
  ultimately show ?thesis
    using Tick_isolates_failures [of "\<lambda>_. calm_env" "\<lambda>_. False" timers_db demo_lib demo_enc demo_ids] by auto
qed

text \<open>
  Expiring holds never oversells either: a timer fired against any failures and any interleaving
  with sessions that keep the streams in order leaves every stream in order and only extends them.
\<close>

theorem fireOne_never_oversells:
  assumes "seats_rely L e" "codec_ok L e" "seats_ok L (tbl db)"
    and "fireOne (Fire L enc ids) e tm db = (r, db')"
  shows "seats_ok L (tbl db') \<and> extends (tbl db) (tbl db')"
  using fireOne_step [OF assms(1,2,4)] assms(3) by (simp add: seats_step_def)

theorem fireOne_never_oversells_witness:
  "seats_ok demo_lib (tbl (snd (fireOne (Fire demo_lib demo_enc demo_ids) calm_env
     (timer_of (demo_timer 1 900)) timers_db)))"
proof -
  have "seats_ok demo_lib (tbl timers_db)" by (simp add: timers_db_def seats_ok_def log_ok_def empty_tables_def)
  then show ?thesis
    using fireOne_never_oversells [OF seats_rely_quiet [OF quiet_calm_env] codec_ok_demo, of timers_db]
    by (metis prod.collapse)
qed

text \<open>
  C19. A claim and its effect are one commit: whatever fails, firing a timer leaves the database
  either as it was, the timer still pending, or as it would be without failures, with the claim and
  everything the Firer wrote; a caller that is told the timer fired knows the latter.
\<close>

theorem fireOne_all_or_nothing:
  assumes "alone e" and "fireOne (Fire L enc ids) e tm db = (r, db')"
  shows "(\<exists>err. r = Inl err \<and> tbl db' = tbl db \<and> notices db' = notices db) \<or>
    (\<exists>claimed. fireOne (Fire L enc ids) (quieten e) tm db = (Inr claimed, db') \<and>
      (r = Inr claimed \<or> (\<exists>err. r = Inl (Errorf ''commit: '' err []))))"
proof -
  have "succeeds_as (claimAndFire (Fire L enc ids) e tm) (claimAndFire (Fire L enc ids) (quieten e) tm)"
    unfolding claimAndFire_def using assms(1) by (auto intro!: alone_intros)
  from alone_WithTx [OF assms(1) assms(2) [unfolded fireOne_def] expirer.keeps_base_claimAndFire this]
  show ?thesis by (simp add: fireOne_def)
qed

theorem fireOne_all_or_nothing_witness:
  "\<exists>db'. snd (fireOne (Fire demo_lib demo_enc demo_ids) lossy_env (timer_of (demo_timer 1 900)) timers_db) = db' \<and>
    (tbl db' = tbl timers_db \<or>
     snd (fireOne (Fire demo_lib demo_enc demo_ids) (quieten lossy_env) (timer_of (demo_timer 1 900)) timers_db) = db')"
proof -
  have "alone lossy_env" by (simp add: lossy_env_def calm_env_def alone_def)
  then show ?thesis
    using fireOne_all_or_nothing [of lossy_env demo_lib demo_enc demo_ids "timer_of (demo_timer 1 900)" timers_db]
    by (metis prod.collapse snd_conv)
qed

text \<open>
  What a passed deadline leaves behind, table by table: of the timers only the claimed one changes, and
  of it only \<open>fired_at\<close>; the events and messages are appended; the inbox and the view stay as they were.
\<close>

definition hold_expired ::
  "protolib \<Rightarrow> env \<Rightarrow> int \<Rightarrow> string \<Rightarrow> message list \<Rightarrow> Message list \<Rightarrow> tables \<Rightarrow> tables \<Rightarrow> bool" where
  "hold_expired L e i s evts msgs T T' \<longleftrightarrow>
     timers T' = map (\<lambda>x. if tm_id x = i then x\<lparr>tm_fired_at := Some (now e)\<rparr> else x) (timers T) \<and>
     (\<exists>rows. events T' = events T @ rows \<and> length rows = length evts) \<and>
     (\<exists>ms. seat_messages L T s = Inr ms \<and> seat_messages L T' s = Inr (ms @ evts)) \<and>
     (\<forall>s'. s' \<noteq> s \<longrightarrow> stream_rows T' s' = stream_rows T s') \<and>
     (\<exists>n. outbox T' = outbox T @ outbox_rows n msgs) \<and>
     inbox T' = inbox T \<and> seat_availability T' = seat_availability T"

lemma claimed_timers:
  "i \<notin> fired_ids T \<Longrightarrow> timers (snd (markFiredSQL e i T)) =
     map (\<lambda>x. if tm_id x = i then x\<lparr>tm_fired_at := Some (now e)\<rparr> else x) (timers T)"
  by (auto simp: markFiredSQL_def fired_ids_iff)

lemma quiet_Fire:
  assumes q: "quiet e" and na: "\<not> aborted t" and cok: "codec_ok L e" and sok: "log_ok (view t)"
    and ne: "tr_Subject tm \<noteq> []"
    and ms: "seat_messages L (view t) (tr_Subject tm) = Inr ms" "Fold L ms = Inr st"
    and origin: "origin = last_meta (map (recorded (tr_Subject tm)) (stream_rows (view t) (tr_Subject tm)))"
    and out: "out = Expire st (tr_Subject tm) (tr_Token tm)"
    and enc: "encode_all L (tr_Subject tm) (expiry_meta origin) (out_Events out) = Inr stored"
      "storable e (length ms) stored"
    and msgs: "outgoing enc ids (Messages out) (expiry_envelope origin (tr_Subject tm)) = Inr msgs"
      "list_all (\<lambda>m. msg_Payload m \<noteq> []) msgs"
  shows "\<exists>t'. Fire L enc ids e tm t = (Inr (), t') \<and> \<not> aborted t' \<and>
    pending t' = pending t @ (if msgs = [] then [] else [NotifyChannel]) \<and>
    timers (view t') = timers (view t) \<and> inbox (view t') = inbox (view t) \<and>
    seat_availability (view t') = seat_availability (view t) \<and>
    (\<exists>rows. events (view t') = events (view t) @ rows \<and> length rows = length (out_Events out)) \<and>
    seat_messages L (view t') (tr_Subject tm) = Inr (ms @ out_Events out) \<and>
    (\<forall>s'. s' \<noteq> tr_Subject tm \<longrightarrow> stream_rows (view t') s' = stream_rows (view t) s') \<and>
    (\<exists>n. outbox (view t') = outbox (view t) @ outbox_rows n msgs)"
proof (cases "out_Events out = []")
  case True
  have load: "LoadSeat L e (tr_Subject tm) t = (Inr (st, origin), t\<lparr>stmts := Suc (stmts t)\<rparr>)"
    using quiet_LoadSeat [OF q na sok ms] origin by simp
  have "msgs = []"
    using True msgs(1) out by (auto simp: outgoing_def outcome_defs split: if_splits)
  then show ?thesis using True load out ms(1) na
    by (simp add: Fire_def bindE_def Let_def retE_def seat_messages_def stream_rows_def)
next
  case False
  let ?s = "tr_Subject tm" and ?t1 = "t\<lparr>stmts := Suc (stmts t)\<rparr>"
  have load: "LoadSeat L e ?s t = (Inr (st, origin), ?t1)"
    using quiet_LoadSeat [OF q na sok ms] origin by simp
  have len: "length ms = length (stream_rows (view t) ?s)"
    using decode_all_length ms(1) by (fastforce simp: seat_messages_def)
  obtain t2 where t2: "AppendSeat L e ?s (int (length ms)) (out_Events out) (expiry_meta origin) ?t1 = (Inr (), t2)"
    "\<not> aborted t2" "pending t2 = pending t" "view t2 = (view t)\<lparr>events := events (view t) @
       append_rows e ?s (int (length ms)) (events_seq (seqs ?t1)) (event_columns e stored)\<rparr>"
    using quiet_AppendSeat [OF q, of ?t1 L ?s "expiry_meta origin" "out_Events out" stored "length ms"]
      na sok enc len by auto
  have valid: "\<forall>m \<in> set msgs. Validate m = None"
    using outgoing_valid [OF msgs(1) _ msgs(2)] ne by (simp add: expiry_envelope_def)
  obtain t3 where t3: "Enqueue e msgs t2 = (Inr (), t3)" "\<not> aborted t3"
    "pending t3 = pending t2 @ (if msgs = [] then [] else [NotifyChannel])"
    "view t3 = (view t2)\<lparr>outbox := outbox (view t2) @ outbox_rows (outbox_seq (seqs t2)) msgs\<rparr>"
    using quiet_Enqueue [OF q t2(2) valid] t2(2) by (cases "msgs = []") simp_all
  have run: "Fire L enc ids e tm t = (Inr (), t3)"
    using load out False t2(1) t3(1) msgs(1) Fold_version [OF ms(2)]
    by (simp add: Fire_def bindE_def Let_def liftE_def)
  have streams: "stream_rows (view t3) s' = stream_rows (view t) s' @
      (if s' = ?s then append_rows e ?s (int (length ms)) (events_seq (seqs ?t1)) (event_columns e stored) else [])" for s'
    using t3(4) t2(4) by (simp add: stream_rows_def filter_append_rows)
  have "list_all is_seat_event (out_Events out)" using out by (simp add: outcome_defs)
  then have "seat_messages L (view t3) ?s = Inr (ms @ out_Events out)"
    using decode_stored_columns [OF cok _ enc] ms(1) by (simp add: seat_messages_def streams decode_all_append)
  moreover have "length (append_rows e ?s (int (length ms)) (events_seq (seqs ?t1)) (event_columns e stored)) = length (out_Events out)"
    using encode_all_length [OF enc(1)] by (simp add: event_columns_def)
  ultimately show ?thesis using run t3(2-4) t2(3,4) streams by auto
qed

text \<open>
  C20. What a passed deadline does: claiming a pending timer whose token is the live hold appends
  exactly the one expiry event to that seat's stream, enqueues exactly the message announcing it,
  notifies the poller once and sets \<open>fired_at\<close> of that timer; no other stream, timer or outbox row, no
  inbox row and no row of the view changes. When the hold is no longer the live one, the claim is all
  that is written: nothing is appended, enqueued or notified.
\<close>

theorem deadline_effect:
  assumes "quiet e" "codec_ok L e" "seats_ok L (tbl db)" "timers_ok (tbl db)"
    and "tr_ID tm \<in> tm_id ` set (timers (tbl db))" "tr_ID tm \<notin> fired_ids (tbl db)" "tr_Subject tm \<noteq> []"
    and "seat_messages L (tbl db) (tr_Subject tm) = Inr ms" "Fold L ms = Inr st"
    and "origin = last_meta (map (recorded (tr_Subject tm)) (stream_rows (tbl db) (tr_Subject tm)))"
    and "evts = (if live_hold st = Some (tr_Token tm) then [SeatHoldExpiredMsg \<lparr>se_HoldId = tr_Token tm,
           se_BookingId = ss_BookingID st, se_SeatId = tr_Subject tm\<rparr>] else [])"
    and "encode_all L (tr_Subject tm) (expiry_meta origin) evts = Inr stored"
      "storable e (length ms) stored"
    and "outgoing enc ids evts (expiry_envelope origin (tr_Subject tm)) = Inr msgs"
      "list_all (\<lambda>m. msg_Payload m \<noteq> []) msgs"
  shows "\<exists>db'. fireOne (Fire L enc ids) e tm db = (Inr True, db') \<and>
    hold_expired L e (tr_ID tm) (tr_Subject tm) evts msgs (tbl db) (tbl db') \<and>
    (msgs = [] \<longleftrightarrow> live_hold st \<noteq> Some (tr_Token tm)) \<and>
    notices db' = notices db @ (if msgs = [] then [] else [NotifyChannel])"
proof -
  let ?T1 = "snd (markFiredSQL e (tr_ID tm) (tbl db))"
  let ?t1 = "(begin_tx db)\<lparr>stmts := Suc 0, view := ?T1\<rparr>"
  let ?out = "Expire st (tr_Subject tm) (tr_Token tm)"
  have mark: "MarkFired e (tr_ID tm) (begin_tx db) = (Inr True, ?t1)"
    using assms(1,4-6) by (simp add: quiet_MarkFired markFiredSQL_rows)
  have rows1: "stream_rows ?T1 = stream_rows (tbl db)" by (rule stream_rows_same_events) simp
  have out: "out_Events ?out = evts" "Messages ?out = evts"
    using assms(11) by (auto simp: outcome_defs live_hold_def)
  have pre: "\<not> aborted ?t1" "log_ok (view ?t1)"
    "seat_messages L (view ?t1) (tr_Subject tm) = Inr ms"
    "origin = last_meta (map (recorded (tr_Subject tm)) (stream_rows (view ?t1) (tr_Subject tm)))"
    using seats_ok_log [OF assms(3)] assms(8,10)
    by (simp_all add: log_ok_iff versions_ok_def rows1 seat_messages_def)
  obtain t2 n rows where t2: "Fire L enc ids e tm ?t1 = (Inr (), t2)" "\<not> aborted t2"
    "pending t2 = (if msgs = [] then [] else [NotifyChannel])"
    "inbox (view t2) = inbox (view ?t1)" "seat_availability (view t2) = seat_availability (view ?t1)"
    "events (view t2) = events (view ?t1) @ rows" "length rows = length evts"
    "timers (view t2) = timers (view ?t1)" "seat_messages L (view t2) (tr_Subject tm) = Inr (ms @ evts)"
    "\<forall>s'. s' \<noteq> tr_Subject tm \<longrightarrow> stream_rows (view t2) s' = stream_rows (view ?t1) s'"
    "outbox (view t2) = outbox (view ?t1) @ outbox_rows n msgs"
    using quiet_Fire [OF assms(1) pre(1) assms(2) pre(2) assms(7) pre(3) assms(9) pre(4) refl,
        unfolded out, OF assms(12-15)] by auto
  have run: "claimAndFire (Fire L enc ids) e tm (begin_tx db) = (Inr True, t2)"
    using mark t2(1) by (simp add: claimAndFire_def bindE_def retE_def)
  have "hold_expired L e (tr_ID tm) (tr_Subject tm) evts msgs (tbl db) (view t2)"
    using t2(4-11) claimed_timers [OF assms(6), of e] assms(8) unfolding hold_expired_def by (auto simp: rows1)
  moreover have "msgs = [] \<longleftrightarrow> live_hold st \<noteq> Some (tr_Token tm)"
    using outgoing_from_topics [OF assms(14) [unfolded outgoing_def]] assms(11) by (auto split: if_splits)
  moreover have "fireOne (Fire L enc ids) e tm db =
      (Inr True, db\<lparr>tbl := view t2, sqs := seqs t2, notices := notices db @ pending t2\<rparr>)"
    unfolding fireOne_def using assms(1) run t2(2) by (rule quiet_WithTx_ok)
  ultimately show ?thesis using t2(3) by simp
qed

definition held_db :: database where
  "held_db = empty_db\<lparr>tbl := held_tables\<lparr>timers := [demo_timer 1 900]\<rparr>\<rparr>"

lemma held_db_rows: "stream_rows (tbl held_db) = stream_rows held_tables"
  by (rule stream_rows_same_events) (simp add: held_db_def)

lemma held_db_messages: "seat_messages demo_lib (tbl held_db) ''14A'' = Inr [demo_held ''h1'']"
  using held_tables_messages by (simp add: seat_messages_def held_db_rows)

lemma held_db_tables: "timers (tbl held_db) = [demo_timer 1 900]" "outbox (tbl held_db) = []"
  by (simp_all add: held_db_def held_tables_def empty_tables_def)

lemma held_db_ok: "seats_ok demo_lib (tbl held_db)"
  using held_tables_ok seats_step_same_events [of "tbl held_db" held_tables demo_lib]
  by (simp add: seats_step_def held_db_def)

theorem deadline_effect_witness:
  "\<exists>db'. fireOne (Fire demo_lib demo_enc demo_ids) calm_env (timer_of (demo_timer 1 900)) held_db = (Inr True, db') \<and>
    seat_messages demo_lib (tbl db') ''14A'' = Inr [demo_held ''h1'', demo_expired ''h1''] \<and>
    length (outbox (tbl db')) = 1 \<and> timers (tbl db') = [(demo_timer 1 900)\<lparr>tm_fired_at := Some (now calm_env)\<rparr>] \<and>
    inbox (tbl db') = inbox (tbl held_db) \<and> notices db' = [NotifyChannel]"
proof -
  let ?tm = "timer_of (demo_timer 1 900)"
  have tm: "tr_Subject ?tm = ''14A''" "tr_ID ?tm = 1" "tr_Token ?tm = ''h1''"
    by (simp_all add: timer_of_def demo_timer_def)
  let ?ev = "\<lparr>es_Type = FullName (demo_expired ''h1''), es_Data = ''4'', es_Meta = expiry_meta empty_Meta\<rparr>"
  let ?msg = "outgoing_message (demo_ids 0) (expiry_envelope empty_Meta ''14A'') (demo_expired ''h1'')
      (FullName (demo_expired ''h1''))"
  note fold = held_tables_fold
  have meta: "empty_Meta = last_meta (map (recorded ''14A'') (stream_rows (tbl held_db) ''14A''))"
    by (simp add: held_db_rows held_tables_rows held_columns_def last_meta_def recorded_def empty_Meta_def
        Meta_unmarshal_def)
  have evts: "[demo_expired ''h1''] = (if live_hold demo_state = Some ''h1'' then [SeatHoldExpiredMsg
      \<lparr>se_HoldId = ''h1'', se_BookingId = ss_BookingID demo_state, se_SeatId = ''14A''\<rparr>] else [])"
    by (simp add: demo_state_def live_hold_def demo_expired_def)
  have enc: "encode_all demo_lib ''14A'' (expiry_meta empty_Meta) [demo_expired ''h1''] = Inr [?ev]"
    "storable calm_env (length [demo_held ''h1'']) [?ev]"
    "outgoing demo_enc demo_ids [demo_expired ''h1''] (expiry_envelope empty_Meta ''14A'') = Inr [?msg]"
    "list_all (\<lambda>m. msg_Payload m \<noteq> []) [?msg]"
    by (simp_all add: Encode_def TypeName_def demo_lib_def table_lib_def demo_messages storable_def calm_env_def
        outgoing_def demo_enc_def outgoing_message_def Let_def)
  have ok: "timers_ok (tbl held_db)" "1 \<in> tm_id ` set (timers (tbl held_db))" "1 \<notin> fired_ids (tbl held_db)"
    by (simp_all add: timers_ok_def held_db_tables fired_ids_iff demo_timer_def)
  from deadline_effect [OF quiet_calm_env codec_ok_demo held_db_ok ok(1), of ?tm, unfolded tm,
      OF ok(2,3) _ held_db_messages fold meta evts enc]
  obtain db' n where "fireOne (Fire demo_lib demo_enc demo_ids) calm_env ?tm held_db = (Inr True, db')"
    "seat_messages demo_lib (tbl db') ''14A'' = Inr [demo_held ''h1'', demo_expired ''h1'']"
    "outbox (tbl db') = outbox (tbl held_db) @ outbox_rows n [?msg]"
    "timers (tbl db') = [(demo_timer 1 900)\<lparr>tm_fired_at := Some (now calm_env)\<rparr>]"
    "inbox (tbl db') = inbox (tbl held_db)" "notices db' = [NotifyChannel]"
    by (auto simp: hold_expired_def held_db_messages held_db_tables demo_timer_def) (simp add: held_db_def empty_db_def)
  then show ?thesis by (simp add: held_db_tables)
qed

end
