(* ===== verification/Schema.thy ===== *)
theory Schema
  imports Contracts Codec
begin

text \<open>
  \<^verbatim>\<open>internal/platform/schema\<close>, which frames messages under registered schema ids and pins the
  registry's compatibility level, and \<^verbatim>\<open>cmd/schemactl\<close>, the one program that registers schemas.

  The registry client and franz-go's \<^verbatim>\<open>sr.Serde\<close> are third-party: looking a subject up is the
  parameter \<open>SchemaByVersion\<close>, and framing under a list of registrations (schema id and prototype) is
  \<open>srlib\<close>. What the program relies on is the named law \<open>framing_ok\<close>: what was framed for a
  registered type comes back as the same message.
\<close>

section \<open>Serde\<close>

definition Subject :: "string \<Rightarrow> string \<Rightarrow> string" where
  "Subject topic typeName = topic @ ''-'' @ typeName"

type_synonym registrations = "(int \<times> string) list"

text \<open>
  \<^verbatim>\<open>DecodeNew\<close> returns a value of any type: a \<^verbatim>\<open>proto.Message\<close>, or another one, of which the program
  uses only the type's name, as \<^verbatim>\<open>%T\<close> prints it.
\<close>

datatype decoded = ProtoMessage message | OtherValue string

record srlib =
  sr_Encode :: "registrations \<Rightarrow> message \<Rightarrow> error + bytes"
  sr_DecodeNew :: "registrations \<Rightarrow> bytes \<Rightarrow> error + decoded"

record Serde =
  sd_inner :: registrations
  sd_topic :: string

definition register :: "registrations \<Rightarrow> int \<Rightarrow> message \<Rightarrow> registrations" where
  "register inner i prototype = inner @ [(i, FullName prototype)]"

fun register_all ::
  "(string \<Rightarrow> error + int) \<Rightarrow> string \<Rightarrow> registrations \<Rightarrow> message list \<Rightarrow> error + registrations" where
  "register_all SchemaByVersion topic inner [] = Inr inner"
| "register_all SchemaByVersion topic inner (p # ps) =
     (let subject = Subject topic (FullName p) in
      case SchemaByVersion subject of
        Inl err \<Rightarrow> Inl (Errorf2 [] ErrSubjectNotRegistered ('': '' @ subject @ '': '') err)
      | Inr i \<Rightarrow> register_all SchemaByVersion topic (register inner i p) ps)"

definition NewTopicSerde ::
  "(string \<Rightarrow> error + int) \<Rightarrow> string \<Rightarrow> message list \<Rightarrow> error + Serde" where
  "NewTopicSerde SchemaByVersion topic prototypes =
     (if prototypes = [] then Inl (ErrorNew ''schema: NewTopicSerde needs at least one prototype'')
      else
        (case register_all SchemaByVersion topic [] prototypes of
           Inl err \<Rightarrow> Inl err
         | Inr inner \<Rightarrow> Inr \<lparr>sd_inner = inner, sd_topic = topic\<rparr>))"

definition Serde_Encode :: "srlib \<Rightarrow> Serde \<Rightarrow> message \<Rightarrow> error + bytes" where
  "Serde_Encode S s m =
     (case sr_Encode S (sd_inner s) m of
        Inl err \<Rightarrow> Inl (Errorf (''schema: encode '' @ FullName m @ '' for '' @ sd_topic s @ '': '') err [])
      | Inr b \<Rightarrow> Inr b)"

definition Serde_Decode :: "srlib \<Rightarrow> Serde \<Rightarrow> bytes \<Rightarrow> error + message" where
  "Serde_Decode S s b =
     (case sr_DecodeNew S (sd_inner s) b of
        Inl err \<Rightarrow> Inl (Errorf (''schema: decode from '' @ sd_topic s @ '': '') err [])
      | Inr (OtherValue T) \<Rightarrow> Inl (ErrorNew (''schema: decoded '' @ T @ '' is not a proto.Message''))
      | Inr (ProtoMessage m) \<Rightarrow> Inr m)"

definition framing_ok :: "srlib \<Rightarrow> bool" where
  "framing_ok S \<longleftrightarrow>
     (\<forall>regs m b. FullName m \<in> snd ` set regs \<longrightarrow> distinct (map fst regs) \<longrightarrow>
        sr_Encode S regs m = Inr b \<longrightarrow> sr_DecodeNew S regs b = Inr (ProtoMessage m))"

section \<open>Compatibility\<close>

datatype compat_level = LevelUnset | CompatBackward | CompatOther string

fun globalLevel_from :: "compat_level \<Rightarrow> (error + compat_level) list \<Rightarrow> error + compat_level" where
  "globalLevel_from level [] = Inr level"
| "globalLevel_from level (Inl err # rest) = Inl err"
| "globalLevel_from level (Inr l # rest) = globalLevel_from l rest"

definition globalLevel :: "(error + compat_level) list \<Rightarrow> error + compat_level" where
  "globalLevel results = globalLevel_from LevelUnset results"

text \<open>The answers to the write and to the read-back; \<open>level_text\<close> prints a level.\<close>

definition EnsureBackwardCompatibility ::
  "(compat_level \<Rightarrow> string) \<Rightarrow> (error + compat_level) list \<Rightarrow> (error + compat_level) list \<Rightarrow> error option" where
  "EnsureBackwardCompatibility level_text setResult getResult =
     (case globalLevel setResult of
        Inl err \<Rightarrow> Some (Errorf ''schema: set global BACKWARD compatibility: '' err [])
      | Inr _ \<Rightarrow>
          (case globalLevel getResult of
             Inl err \<Rightarrow> Some (Errorf ''schema: read back global compatibility: '' err [])
           | Inr level \<Rightarrow>
               if level \<noteq> CompatBackward
               then Some (ErrorNew (''schema: global compatibility is '' @ level_text level @ '', want BACKWARD''))
               else None))"

section \<open>schemactl\<close>

record binding =
  bd_topic :: string
  bd_file :: string
  bd_msg :: message

definition bindings :: "binding list" where
  "bindings =
     [\<lparr>bd_topic = ''inventory.commands'', bd_file = ''proto/sagaflow/inventory/v1/hold_seat.proto'',
       bd_msg = new_HoldSeat\<rparr>,
      \<lparr>bd_topic = ''inventory.commands'', bd_file = ''proto/sagaflow/inventory/v1/release_seat_hold.proto'',
       bd_msg = new_ReleaseSeatHold\<rparr>,
      \<lparr>bd_topic = ''inventory.events'', bd_file = ''proto/sagaflow/inventory/v1/seat_held.proto'',
       bd_msg = new_SeatHeld\<rparr>,
      \<lparr>bd_topic = ''inventory.events'', bd_file = ''proto/sagaflow/inventory/v1/seat_hold_released.proto'',
       bd_msg = new_SeatHoldReleased\<rparr>,
      \<lparr>bd_topic = ''inventory.events'', bd_file = ''proto/sagaflow/inventory/v1/seat_hold_expired.proto'',
       bd_msg = new_SeatHoldExpired\<rparr>,
      \<lparr>bd_topic = ''inventory.events'', bd_file = ''proto/sagaflow/inventory/v1/seat_unavailable.proto'',
       bd_msg = new_SeatUnavailable\<rparr>]"

text \<open>The registry: what was registered, each subject with its schema text, in order.\<close>

type_synonym registry = "(string \<times> string) list"

definition schemactl_register ::
  "(string \<Rightarrow> error + string) \<Rightarrow> (string \<Rightarrow> error option) \<Rightarrow> binding \<Rightarrow> registry \<Rightarrow> (error + unit) \<times> registry" where
  "schemactl_register ReadFile CreateSchema b reg =
     (case ReadFile (bd_file b) of
        Inl err \<Rightarrow> (Inl (Errorf (''read '' @ bd_file b @ '': '') err []), reg)
      | Inr text \<Rightarrow>
          (let subject = Subject (bd_topic b) (FullName (bd_msg b)) in
           case CreateSchema subject of
             Some err \<Rightarrow> (Inl (Errorf (''register '' @ subject @ '': '') err []), reg)
           | None \<Rightarrow> (Inr (), reg @ [(subject, text)])))"

fun register_bindings ::
  "(string \<Rightarrow> error + string) \<Rightarrow> (string \<Rightarrow> error option) \<Rightarrow> binding list \<Rightarrow> registry \<Rightarrow> (error + unit) \<times> registry" where
  "register_bindings ReadFile CreateSchema [] reg = (Inr (), reg)"
| "register_bindings ReadFile CreateSchema (b # bs) reg =
     bindE (schemactl_register ReadFile CreateSchema b)
       (\<lambda>_. register_bindings ReadFile CreateSchema bs) reg"

definition schemactl_run ::
  "error option \<Rightarrow> error option \<Rightarrow> (string \<Rightarrow> error + string) \<Rightarrow> (string \<Rightarrow> error option) \<Rightarrow> registry \<Rightarrow>
     (error + unit) \<times> registry" where
  "schemactl_run client pinned ReadFile CreateSchema reg =
     (case client of
        Some err \<Rightarrow> (Inl (Errorf ''sr client: '' err []), reg)
      | None \<Rightarrow>
          (case pinned of
             Some err \<Rightarrow> (Inl err, reg)
           | None \<Rightarrow> register_bindings ReadFile CreateSchema bindings reg))"

section \<open>Facts\<close>

lemma register_all_ok:
  "register_all look topic inner ps = Inr regs \<Longrightarrow>
     (\<forall>p \<in> set ps. \<exists>i. look (Subject topic (FullName p)) = Inr i \<and> (i, FullName p) \<in> set regs) \<and> set inner \<subseteq> set regs"
  by (induction ps arbitrary: inner) (fastforce simp: register_def Let_def split: sum.splits)+

lemma register_all_err:
  "register_all look topic inner ps = Inl e \<Longrightarrow>
     errors_Is e ErrSubjectNotRegistered \<and> (\<exists>p \<in> set ps. \<exists>err. look (Subject topic (FullName p)) = Inl err)"
  by (induction ps arbitrary: inner) (auto simp: Let_def split: sum.splits)

lemma register_bindings_all:
  assumes "\<And>f. \<exists>t. ReadFile f = Inr t" "\<And>s. CreateSchema s = None"
  shows "\<exists>reg'. register_bindings ReadFile CreateSchema bs reg = (Inr (), reg') \<and>
    map fst reg' = map fst reg @ map (\<lambda>b. Subject (bd_topic b) (FullName (bd_msg b))) bs"
proof (induction bs arbitrary: reg)
  case (Cons b bs)
  obtain t where "ReadFile (bd_file b) = Inr t" using assms(1) by blast
  then have one: "schemactl_register ReadFile CreateSchema b reg =
      (Inr (), reg @ [(Subject (bd_topic b) (FullName (bd_msg b)), t)])"
    using assms(2) by (simp add: schemactl_register_def Let_def)
  from Cons [of "reg @ [(Subject (bd_topic b) (FullName (bd_msg b)), t)]"] show ?case
    using one by (auto simp: bindE_def)
qed simp

section \<open>Properties\<close>

text \<open>
  Producers fail closed: a serde exists only if every prototype's subject is in the registry, in
  which case each type is registered under the id the registry gave; otherwise the error says which
  kind of failure it is, so a service never starts with a schema nobody registered.
\<close>

theorem NewTopicSerde_fails_closed:
  "case NewTopicSerde look topic ps of
     Inr s \<Rightarrow> sd_topic s = topic \<and> ps \<noteq> [] \<and>
       (\<forall>p \<in> set ps. \<exists>i. look (Subject topic (FullName p)) = Inr i \<and> (i, FullName p) \<in> set (sd_inner s))
   | Inl e \<Rightarrow> ps = [] \<or> errors_Is e ErrSubjectNotRegistered \<and>
       (\<exists>p \<in> set ps. \<exists>err. look (Subject topic (FullName p)) = Inl err)"
  using register_all_ok [of look topic "[]" ps] register_all_err [of look topic "[]" ps]
  by (auto simp: NewTopicSerde_def split: sum.splits)

definition demo_look :: "string \<Rightarrow> error + int" where
  "demo_look s = (if s = ''t-sagaflow.inventory.v1.SeatHeld'' then Inr 7 else Inl (ErrorNew ''not found''))"

theorem NewTopicSerde_fails_closed_witness:
  "\<exists>e. NewTopicSerde demo_look ''t'' [demo_held ''h'', demo_released ''h''] = Inl e \<and>
     errors_Is e ErrSubjectNotRegistered"
proof -
  have "\<exists>e. NewTopicSerde demo_look ''t'' [demo_held ''h'', demo_released ''h''] = Inl e"
    by (simp add: NewTopicSerde_def demo_look_def Subject_def demo_messages register_def Let_def)
  then show ?thesis
    using NewTopicSerde_fails_closed [where look = demo_look and topic = "''t''"
        and ps = "[demo_held ''h'', demo_released ''h'']"] by auto
qed

text \<open>
  Framing round-trips: a message of a type the serde was built for, once encoded, decodes to
  itself, provided the registry gave the types different ids; and the subjects of two types on one
  topic never coincide.
\<close>

theorem Serde_roundtrip:
  assumes "framing_ok S" "NewTopicSerde look topic ps = Inr s" "p \<in> set ps" "FullName m = FullName p"
    and "distinct (map fst (sd_inner s))" "Serde_Encode S s m = Inr b"
  shows "Serde_Decode S s b = Inr m \<and> (Subject topic t = Subject topic t' \<longrightarrow> t = t')"
proof -
  have "FullName m \<in> snd ` set (sd_inner s)"
    using assms(2-4) register_all_ok [of look topic "[]" ps]
    by (force simp: NewTopicSerde_def split: if_splits sum.splits)
  then show ?thesis
    using assms(1,5,6) by (auto simp: Serde_Encode_def Serde_Decode_def framing_ok_def Subject_def split: sum.splits)
qed

definition demo_sr :: srlib where
  "demo_sr = \<lparr>sr_Encode = (\<lambda>regs m. if m = demo_held ''h1'' then Inr ''1'' else Inl (ErrorNew ''no'')),
     sr_DecodeNew = (\<lambda>regs b. if b = ''1'' then Inr (ProtoMessage (demo_held ''h1'')) else Inl (ErrorNew ''no''))\<rparr>"

theorem Serde_roundtrip_witness:
  "Serde_Decode demo_sr \<lparr>sd_inner = [(7, FullName (demo_held ''h1''))], sd_topic = ''t''\<rparr> ''1'' = Inr (demo_held ''h1'')"
  using Serde_roundtrip [of demo_sr demo_look "''t''" "[demo_held ''h1'']"
      "\<lparr>sd_inner = [(7, FullName (demo_held ''h1''))], sd_topic = ''t''\<rparr>" "demo_held ''h1''" "demo_held ''h1''" "''1''"]
  by (simp add: framing_ok_def demo_sr_def NewTopicSerde_def demo_look_def Subject_def demo_held_def register_def
      Serde_Encode_def Let_def)

text \<open>
  The compatibility level is confirmed, not assumed: pinning succeeds exactly when neither call
  failed and the level read back is BACKWARD, whatever the write echoed.
\<close>

theorem EnsureBackwardCompatibility_confirms:
  "(EnsureBackwardCompatibility txt setResult getResult = None) =
     (list_all (\<lambda>r. \<exists>l. r = Inr l) setResult \<and> list_all (\<lambda>r. \<exists>l. r = Inr l) getResult \<and>
      getResult \<noteq> [] \<and> last getResult = Inr CompatBackward)"
proof -
  have ok: "(\<exists>l. globalLevel_from l0 rs = Inr l) = list_all (\<lambda>r. \<exists>l. r = Inr l) rs" for l0 rs
    by (induction l0 rs rule: globalLevel_from.induct) auto
  have val: "list_all (\<lambda>r. \<exists>l. r = Inr l) rs \<Longrightarrow>
      (globalLevel_from l0 rs = Inr l) = (if rs = [] then l = l0 else last rs = Inr l)" for l0 l rs
    by (induction l0 rs rule: globalLevel_from.induct) auto
  have "(EnsureBackwardCompatibility txt setResult getResult = None) =
      ((\<exists>l. globalLevel_from LevelUnset setResult = Inr l) \<and> globalLevel_from LevelUnset getResult = Inr CompatBackward)"
    by (auto simp: EnsureBackwardCompatibility_def globalLevel_def split: sum.splits)
  then show ?thesis using ok [of LevelUnset setResult] ok [of LevelUnset getResult] val [of getResult LevelUnset CompatBackward]
    by (auto split: if_splits)
qed

text \<open>
  Registration covers what the service needs: when compatibility was pinned and every file and
  every creation succeeds, the registry ends with exactly one new subject per binding, in order, and
  nothing is registered before the level is pinned.
\<close>

theorem schemactl_registers_bindings:
  assumes "\<forall>f. \<exists>t. ReadFile f = Inr t" "\<forall>s. CreateSchema s = None"
  shows "\<exists>reg'. schemactl_run None None ReadFile CreateSchema reg = (Inr (), reg') \<and>
    map fst reg' = map fst reg @ map (\<lambda>b. Subject (bd_topic b) (FullName (bd_msg b))) bindings \<and>
    distinct (map (\<lambda>b. Subject (bd_topic b) (FullName (bd_msg b))) bindings) \<and>
    schemactl_run None (Some err) ReadFile CreateSchema reg = (Inl err, reg)"
  using register_bindings_all [of ReadFile CreateSchema bindings reg] assms
  by (auto simp: schemactl_run_def bindings_def Subject_def new_messages)

theorem schemactl_registers_bindings_witness:
  "\<exists>reg'. schemactl_run None None (\<lambda>f. Inr f) (\<lambda>_. None) [] = (Inr (), reg') \<and> length reg' = 6"
proof -
  obtain reg' where "schemactl_run None None (\<lambda>f. Inr f) (\<lambda>_. None) [] = (Inr (), reg')"
    "map fst reg' = map (\<lambda>b. Subject (bd_topic b) (FullName (bd_msg b))) bindings"
    using schemactl_registers_bindings [of "\<lambda>f. Inr f" "\<lambda>_. None" "[]"] by auto
  moreover from this(2) have "length reg' = length bindings" by (metis length_map)
  ultimately show ?thesis by (simp add: bindings_def)
qed

end
