(* ===== verification/Wire.thy ===== *)
theory Wire
  imports Consumers Expiry Schema
begin

text \<open>
  How the service is put together: \<^verbatim>\<open>internal/inventory/wire.go\<close>, the connection helpers of
  \<^verbatim>\<open>internal/platform/pg\<close>, \<^verbatim>\<open>kafka.NewProducer\<close> and \<^verbatim>\<open>cmd/inventory\<close>.

  Everything outside the process that startup talks to is one record, \<open>outside\<close>: the error each
  third-party call returns, if any, what the registry answers for a subject and what the broker
  answers for a topic creation, and the parameters of the components assembled here (the protobuf
  library, the framing library, the environments of each handled record, the fate of each produced
  record). What the process has open is a trace of acquisitions and releases.
\<close>

record Config =
  cf_DSN :: string
  cf_Brokers :: "string list"
  cf_Registry :: string

definition replication :: int where
  "replication = 1"

record outside =
  ou_connect :: "string \<Rightarrow> error option"
  ou_new_migrator :: "error option"
  ou_load_migrations :: "error option"
  ou_migrate :: "error option"
  ou_parse_config :: "string \<Rightarrow> error option"
  ou_new_pool :: "error option"
  ou_ping :: "error option"
  ou_registry_client :: "string \<Rightarrow> error option"
  ou_schema :: "string \<Rightarrow> error + int"
  ou_admin_client :: "string list \<Rightarrow> error option"
  ou_create_topics :: "int \<Rightarrow> int \<Rightarrow> string list \<Rightarrow> error + (string \<times> error option) list"
  ou_producer_client :: "string list \<Rightarrow> error option"
  ou_consumer_client :: "string \<Rightarrow> error option"
  ou_lib :: protolib
  ou_sr :: srlib
  ou_envs :: "nat \<Rightarrow> nat \<Rightarrow> env"
  ou_ids :: "nat \<Rightarrow> nat \<Rightarrow> id_supply"
  ou_projection_envs :: "nat \<Rightarrow> env"
  ou_expiry_ids :: id_supply
  ou_fate :: "nat \<Rightarrow> ack"
  ou_dlq_fate :: "Record \<Rightarrow> nat \<Rightarrow> ack"

datatype resource = MigrationConn | Pool | AdminClient | ProducerClient | ConsumerClient string

type_synonym trace = "resource lifecycle list"

section \<open>Postgres\<close>

definition Migrate :: "outside \<Rightarrow> string \<Rightarrow> trace \<Rightarrow> (error + unit) \<times> trace" where
  "Migrate ou dsn tr =
     (case ou_connect ou dsn of
        Some err \<Rightarrow> (Inl (Errorf ''connect: '' err []), tr)
      | None \<Rightarrow>
          (case ou_new_migrator ou of
             Some err \<Rightarrow> Inl (Errorf ''new migrator: '' err [])
           | None \<Rightarrow>
               (case ou_load_migrations ou of
                  Some err \<Rightarrow> Inl (Errorf ''load migrations: '' err [])
                | None \<Rightarrow>
                    (case ou_migrate ou of
                       Some err \<Rightarrow> Inl (Errorf ''migrate: '' err [])
                     | None \<Rightarrow> Inr ())),
           tr @ [Acquired MigrationConn, Released MigrationConn]))"

record pool_config =
  pc_MaxConns :: int
  pc_MinConns :: int

definition Open :: "outside \<Rightarrow> string \<Rightarrow> trace \<Rightarrow> (error + pool_config) \<times> trace" where
  "Open ou dsn tr =
     (case ou_parse_config ou dsn of
        Some err \<Rightarrow> (Inl (Errorf ''parse dsn: '' err []), tr)
      | None \<Rightarrow>
          (case ou_new_pool ou of
             Some err \<Rightarrow> (Inl (Errorf ''new pool: '' err []), tr)
           | None \<Rightarrow>
               (case ou_ping ou of
                  Some err \<Rightarrow> (Inl (Errorf ''ping: '' err []), tr @ [Acquired Pool, Released Pool])
                | None \<Rightarrow> (Inr \<lparr>pc_MaxConns = 10, pc_MinConns = 2\<rparr>, tr @ [Acquired Pool]))))"

section \<open>Assembling the service\<close>

text \<open>A field is \<open>None\<close> while the pointer is nil. The producer is how it publishes.\<close>

record Service =
  svc_pool :: "pool_config option"
  svc_producer :: "krecord list publish option"
  svc_commands :: "service ConsumerConfig option"
  svc_events :: "service ConsumerConfig option"
  svc_outbox :: "krecord list publish option"
  svc_timers :: "firer option"

text \<open>The types each serde is built for.\<close>

definition command_prototypes :: "message list" where
  "command_prototypes = [new_HoldSeat, new_ReleaseSeatHold]"

definition event_prototypes :: "message list" where
  "event_prototypes = [new_SeatHeld, new_SeatHoldReleased, new_SeatHoldExpired, new_SeatUnavailable]"

definition serdes :: "outside \<Rightarrow> string \<Rightarrow> error + Serde \<times> Serde" where
  "serdes ou registry =
     (case ou_registry_client ou registry of
        Some err \<Rightarrow> Inl (Errorf ''inventory: schema registry client: '' err [])
      | None \<Rightarrow>
          (case NewTopicSerde (ou_schema ou) CommandsTopic command_prototypes of
             Inl err \<Rightarrow> Inl err
           | Inr commands \<Rightarrow>
               (case NewTopicSerde (ou_schema ou) EventsTopic event_prototypes of
                  Inl err \<Rightarrow> Inl err
                | Inr evts \<Rightarrow> Inr (commands, evts))))"

type_synonym wiring = "Service \<times> trace"

definition service_topics :: "string list" where
  "service_topics = [CommandsTopic, CommandsTopic @ ''.dlq'', EventsTopic, EventsTopic @ ''.dlq'']"

definition ensure_topics :: "outside \<Rightarrow> Config \<Rightarrow> wiring \<Rightarrow> (error + unit) \<times> wiring" where
  "ensure_topics ou cfg = (\<lambda>(s, tr).
     (case EnsureTopics (ou_admin_client ou (cf_Brokers cfg))
             (ou_create_topics ou Partitions replication service_topics) of
        Some err \<Rightarrow> Inl err
      | None \<Rightarrow> Inr (),
      s, case ou_admin_client ou (cf_Brokers cfg) of
           None \<Rightarrow> tr @ [Acquired AdminClient, Released AdminClient]
         | Some _ \<Rightarrow> tr))"

definition NewProducer :: "outside \<Rightarrow> string list \<Rightarrow> wiring \<Rightarrow> (error + unit) \<times> wiring" where
  "NewProducer ou brokers = (\<lambda>(s, tr).
     case ou_producer_client ou brokers of
       Some err \<Rightarrow> (Inl (Errorf ''kafka: new producer: '' err []), s, tr)
     | None \<Rightarrow> (Inr (), s\<lparr>svc_producer := Some (Publish (ou_fate ou))\<rparr>, tr @ [Acquired ProducerClient]))"

definition open_consumer ::
  "outside \<Rightarrow> service ConsumerConfig \<Rightarrow> (service ConsumerConfig \<Rightarrow> Service \<Rightarrow> Service) \<Rightarrow> wiring \<Rightarrow>
     (error + unit) \<times> wiring" where
  "open_consumer ou cfg store = (\<lambda>(s, tr).
     case NewConsumer (ou_consumer_client ou (cfg_Group cfg)) cfg of
       Inl err \<Rightarrow> (Inl err, s, tr)
     | Inr c \<Rightarrow> (Inr (), store c s, tr @ [Acquired (ConsumerClient (cfg_Group cfg))]))"

definition commands_config :: "outside \<Rightarrow> Config \<Rightarrow> Serde \<Rightarrow> Serde \<Rightarrow> service ConsumerConfig" where
  "commands_config ou cfg commandSerde eventSerde =
     \<lparr>cfg_Brokers = cf_Brokers cfg, cfg_Group = Consumer, cfg_Topics = [CommandsTopic],
      cfg_Handler = Some (Commands_handler (ou_lib ou) (Serde_Encode (ou_sr ou) eventSerde)
        (Serde_Decode (ou_sr ou) commandSerde) (ou_envs ou) (ou_ids ou)),
      cfg_DLQ = Some (ou_dlq_fate ou), cfg_MaxAttempts = 0, cfg_BaseBackoff = 0\<rparr>"

definition events_config :: "outside \<Rightarrow> Config \<Rightarrow> service ConsumerConfig" where
  "events_config ou cfg =
     \<lparr>cfg_Brokers = cf_Brokers cfg, cfg_Group = ProjectionConsumer, cfg_Topics = [EventsTopic],
      cfg_Handler = Some (Projections_handler (ou_lib ou) (ou_projection_envs ou)),
      cfg_DLQ = Some (ou_dlq_fate ou), cfg_MaxAttempts = 0, cfg_BaseBackoff = 0\<rparr>"

definition connect :: "outside \<Rightarrow> Config \<Rightarrow> wiring \<Rightarrow> (error + unit) \<times> wiring" where
  "connect ou cfg =
     bindE (liftE (serdes ou (cf_Registry cfg))) (\<lambda>(commandSerde, eventSerde).
     bindE (ensure_topics ou cfg) (\<lambda>_.
     bindE (NewProducer ou (cf_Brokers cfg)) (\<lambda>_.
     bindE (open_consumer ou (commands_config ou cfg commandSerde eventSerde) (\<lambda>c s. s\<lparr>svc_commands := Some c\<rparr>)) (\<lambda>_.
     bindE (open_consumer ou (events_config ou cfg) (\<lambda>c s. s\<lparr>svc_events := Some c\<rparr>)) (\<lambda>_.
     \<lambda>(s, tr).
       (Inr (),
        s\<lparr>svc_outbox := svc_producer s,
          svc_timers := Some (Fire (ou_lib ou) (Serde_Encode (ou_sr ou) eventSerde) (ou_expiry_ids ou))\<rparr>,
        tr))))))"

text \<open>The releases, in the order \<open>Close\<close> makes them.\<close>

definition Close :: "Service \<Rightarrow> trace" where
  "Close s =
     concat (map (\<lambda>c. case c of None \<Rightarrow> [] | Some cfg \<Rightarrow> [Released (ConsumerClient (cfg_Group cfg))])
       [svc_commands s, svc_events s])
     @ (case svc_producer s of None \<Rightarrow> [] | Some _ \<Rightarrow> [Released ProducerClient])
     @ (case svc_pool s of None \<Rightarrow> [] | Some _ \<Rightarrow> [Released Pool])"

definition New :: "outside \<Rightarrow> Config \<Rightarrow> trace \<Rightarrow> (error + Service) \<times> trace" where
  "New ou cfg =
     bindE (Migrate ou (cf_DSN cfg)) (\<lambda>_.
     bindE (Open ou (cf_DSN cfg)) (\<lambda>pool tr.
       (case connect ou cfg
               (\<lparr>svc_pool = Some pool, svc_producer = None, svc_commands = None, svc_events = None,
                 svc_outbox = None, svc_timers = None\<rparr>, tr) of
          (Inl err, s, tr') \<Rightarrow> (Inl err, tr' @ Close s)
        | (Inr _, s, tr') \<Rightarrow> (Inr s, tr'))))"

section \<open>Running\<close>

definition loop_names :: "string list" where
  "loop_names = [''commands consumer'', ''events consumer'', ''outbox poller'', ''timer scheduler'']"

text \<open>
  The four goroutines: which are still running, whether the shared context is cancelled, and the
  channel of failures, whose capacity is the number of loops.
\<close>

record running =
  rn_waiting :: "string list"
  rn_cancelled :: bool
  rn_failures :: "error list"

definition started :: running where
  "started = \<lparr>rn_waiting = loop_names, rn_cancelled = False, rn_failures = []\<rparr>"

fun loop_done :: "string \<times> error option \<Rightarrow> running \<Rightarrow> running" where
  "loop_done (name, None) s = s\<lparr>rn_waiting := remove1 name (rn_waiting s)\<rparr>"
| "loop_done (name, Some err) s =
     (if errors_Is err Canceled then s\<lparr>rn_waiting := remove1 name (rn_waiting s)\<rparr>
      else s\<lparr>rn_waiting := remove1 name (rn_waiting s), rn_cancelled := True,
             rn_failures := rn_failures s @ [Errorf (''inventory: '' @ name @ '': '') err []]\<rparr>)"

text \<open>
  \<open>Run\<close> along the order in which the loops end, each with the error its own \<open>Run\<close> returned; \<open>None\<close>
  while the wait group is not empty.
\<close>

definition Service_Run :: "(string \<times> error option) list \<Rightarrow> error option option" where
  "Service_Run ends =
     (let s = fold loop_done ends started in
      if rn_waiting s \<noteq> [] then None
      else Some (case rn_failures s of [] \<Rightarrow> None | err # _ \<Rightarrow> Some err))"

definition inventory_run ::
  "outside \<Rightarrow> Config \<Rightarrow> (string \<times> error option) list \<Rightarrow> trace \<Rightarrow> error option option \<times> trace" where
  "inventory_run ou cfg ends tr =
     (case New ou cfg tr of
        (Inl err, tr') \<Rightarrow> (Some (Some err), tr')
      | (Inr s, tr') \<Rightarrow>
          (case Service_Run ends of
             None \<Rightarrow> (None, tr')
           | Some res \<Rightarrow> (Some res, tr' @ Close s)))"

section \<open>Facts\<close>

lemma group_names [simp]: "Consumer \<noteq> []" "ProjectionConsumer \<noteq> []" "Consumer \<noteq> ProjectionConsumer"
  "ProjectionConsumer \<noteq> Consumer"
  by (simp_all add: Consumer_def ProjectionConsumer_def)

lemma NewConsumer_configs:
  "NewConsumer c (commands_config ou cfg cs es) =
     (case c of Some err \<Rightarrow> Inl (Errorf ''kafka: new consumer: '' err [])
      | None \<Rightarrow> Inr (commands_config ou cfg cs es\<lparr>cfg_MaxAttempts := DefaultMaxAttempts, cfg_BaseBackoff := DefaultBaseBackoff\<rparr>))"
  "NewConsumer c (events_config ou cfg) =
     (case c of Some err \<Rightarrow> Inl (Errorf ''kafka: new consumer: '' err [])
      | None \<Rightarrow> Inr (events_config ou cfg\<lparr>cfg_MaxAttempts := DefaultMaxAttempts, cfg_BaseBackoff := DefaultBaseBackoff\<rparr>))"
  by (simp_all add: NewConsumer_def commands_config_def events_config_def Let_def split: option.split)

lemma config_fields [simp]:
  "cfg_Group (commands_config ou cfg cs es) = Consumer" "cfg_Group (events_config ou cfg) = ProjectionConsumer"
  "cfg_DLQ (commands_config ou cfg cs es) = Some (ou_dlq_fate ou)" "cfg_DLQ (events_config ou cfg) = Some (ou_dlq_fate ou)"
  "cfg_Topics (commands_config ou cfg cs es) = [CommandsTopic]" "cfg_Topics (events_config ou cfg) = [EventsTopic]"
  by (simp_all add: commands_config_def events_config_def)

definition service_resources :: "resource list" where
  "service_resources = [Pool, ProducerClient, ConsumerClient Consumer, ConsumerClient ProjectionConsumer]"

lemmas wiring_defs = connect_def ensure_topics_def NewProducer_def open_consumer_def bindE_def liftE_def
  NewConsumer_configs Close_def

text \<open>Whatever \<open>connect\<close> got open is in the fields \<open>Close\<close> looks at.\<close>

lemma connect_accounts:
  assumes "connect ou cfg
    (\<lparr>svc_pool = Some p, svc_producer = None, svc_commands = None, svc_events = None, svc_outbox = None,
      svc_timers = None\<rparr>, tr) = (r, s, tr')" "still_open [] tr = [Pool]"
  shows "still_open [] (tr' @ Close s) = [] \<and> (r = Inr () \<longrightarrow> still_open [] tr' = service_resources)"
  using assms
  by (auto simp: wiring_defs still_open_append service_resources_def
      split: sum.splits option.splits prod.splits)


lemma Migrate_Open_accounts:
  assumes "Migrate ou dsn [] = (Inr (), tr)" "Open ou dsn tr = (r, tr')"
  shows "still_open [] tr' = (case r of Inl _ \<Rightarrow> [] | Inr _ \<Rightarrow> [Pool])"
  using assms by (auto simp: Migrate_def Open_def split: option.splits)

lemma Migrate_closes: "Migrate ou dsn [] = (r, tr) \<Longrightarrow> still_open [] tr = []"
  by (auto simp: Migrate_def split: option.splits)

lemma New_accounts:
  assumes "New ou cfg [] = (r, tr)"
  shows "case r of
     Inl err \<Rightarrow> still_open [] tr = []
   | Inr s \<Rightarrow> still_open [] tr = service_resources \<and> still_open [] (tr @ Close s) = []"
  using assms [unfolded New_def]
proof (cases rule: bindE_cases)
  case (err e0)
  then show ?thesis using Migrate_closes by auto
next
  case (ok x tr1)
  from ok(2) show ?thesis
  proof (cases rule: bindE_cases)
    case (err e0)
    then show ?thesis using Migrate_Open_accounts ok(1) by fastforce
  next
    case opened: (ok p tr2)
    obtain r3 s3 tr3 where con: "connect ou cfg (\<lparr>svc_pool = Some p, svc_producer = None, svc_commands = None,
        svc_events = None, svc_outbox = None, svc_timers = None\<rparr>, tr2) = (r3, s3, tr3)"
      by (metis prod.collapse)
    have "still_open [] tr2 = [Pool]" using Migrate_Open_accounts [of ou "cf_DSN cfg"] ok(1) opened(1) by fastforce
    from connect_accounts [OF con this] show ?thesis
      using opened(2) con by (auto split: sum.splits)
  qed
qed

lemma register_all_total:
  "(\<exists>regs. register_all look topic inner ps = Inr regs) \<longleftrightarrow>
     (\<forall>p \<in> set ps. \<exists>i. look (Subject topic (FullName p)) = Inr i)"
  by (induction ps arbitrary: inner) (auto simp: Let_def split: sum.splits)

lemma NewTopicSerde_total:
  "ps \<noteq> [] \<Longrightarrow> (\<exists>s. NewTopicSerde look topic ps = Inr s) \<longleftrightarrow>
     (\<forall>p \<in> set ps. \<exists>i. look (Subject topic (FullName p)) = Inr i)"
  using register_all_total [of look topic "[]" ps] by (auto simp: NewTopicSerde_def split: sum.splits)

lemma prototypes_nonempty [simp]: "command_prototypes \<noteq> []" "event_prototypes \<noteq> []"
  by (simp_all add: command_prototypes_def event_prototypes_def)

lemma all_bindings_iff:
  "(\<forall>b \<in> set bindings. P (Subject (bd_topic b) (FullName (bd_msg b)))) \<longleftrightarrow>
     (\<forall>p \<in> set command_prototypes. P (Subject CommandsTopic (FullName p))) \<and>
     (\<forall>p \<in> set event_prototypes. P (Subject EventsTopic (FullName p)))"
  by (simp add: bindings_def command_prototypes_def event_prototypes_def CommandsTopic_def EventsTopic_def
      new_messages conj_assoc)

lemma serdes_ok_iff:
  "(\<exists>p. serdes ou registry = Inr p) \<longleftrightarrow>
     ou_registry_client ou registry = None \<and>
     (\<forall>b \<in> set bindings. \<exists>i. ou_schema ou (Subject (bd_topic b) (FullName (bd_msg b))) = Inr i)"
  unfolding all_bindings_iff [where P = "\<lambda>s. \<exists>i. ou_schema ou s = Inr i"]
  using NewTopicSerde_total [of command_prototypes "ou_schema ou" CommandsTopic]
    NewTopicSerde_total [of event_prototypes "ou_schema ou" EventsTopic]
  by (auto simp: serdes_def split: option.splits sum.splits)

lemma serdes_missing:
  assumes "ou_registry_client ou registry = None" "serdes ou registry = Inl err"
  shows "errors_Is err ErrSubjectNotRegistered"
  using assms register_all_err by (auto simp: serdes_def NewTopicSerde_def split: sum.splits)

section \<open>Properties\<close>

text \<open>
  C33. Nothing leaks: whatever fails on the way up (the database, the migrations, a schema nobody
  registered, the broker), a process that returns, with or without having served, has released every
  connection, pool and client it acquired; while it serves, exactly the pool, the producer and the
  two consumers are open.
\<close>

theorem inventory_run_releases_everything:
  assumes "inventory_run ou cfg ends [] = (res, tr)"
  shows "still_open [] tr = (if res = None then service_resources else [])"
proof (cases "New ou cfg []")
  case (Pair r tr1)
  then show ?thesis using assms New_accounts [OF Pair]
    by (auto simp: inventory_run_def split: sum.splits option.splits)
qed

definition demo_outside :: outside where
  "demo_outside =
     \<lparr>ou_connect = (\<lambda>_. None), ou_new_migrator = None, ou_load_migrations = None, ou_migrate = None,
      ou_parse_config = (\<lambda>_. None), ou_new_pool = None, ou_ping = None, ou_registry_client = (\<lambda>_. None),
      ou_schema = (\<lambda>s. Inr (int (length s))), ou_admin_client = (\<lambda>_. None),
      ou_create_topics = (\<lambda>_ _ ts. Inr (map (\<lambda>t. (t, None)) ts)), ou_producer_client = (\<lambda>_. None),
      ou_consumer_client = (\<lambda>g. if g = Consumer then None else Some (ErrorNew ''no broker'')),
      ou_lib = demo_lib, ou_sr = demo_sr, ou_envs = (\<lambda>_ _. calm_env), ou_ids = (\<lambda>_ _. demo_ids),
      ou_projection_envs = (\<lambda>_. calm_env), ou_expiry_ids = demo_ids, ou_fate = (\<lambda>_. Acked),
      ou_dlq_fate = (\<lambda>_ _. Acked)\<rparr>"

definition demo_config :: Config where
  "demo_config = \<lparr>cf_DSN = ''dsn'', cf_Brokers = [''b''], cf_Registry = ''r''\<rparr>"

theorem inventory_run_releases_everything_witness:
  "\<exists>err tr. inventory_run demo_outside demo_config [] [] = (Some (Some err), tr) \<and> Acquired Pool \<in> set tr \<and>
     still_open [] tr = []"
proof -
  have "case inventory_run demo_outside demo_config [] [] of
      (Some (Some _), tr) \<Rightarrow> Acquired Pool \<in> set tr | _ \<Rightarrow> False"
    by code_simp
  then obtain err tr where run: "inventory_run demo_outside demo_config [] [] = (Some (Some err), tr)"
    "Acquired Pool \<in> set tr" by (auto split: prod.splits option.splits)
  with inventory_run_releases_everything [OF run(1)] show ?thesis by simp
qed

text \<open>The database is reached before the registry; nothing else is, until the serdes are resolved.\<close>

definition database_ready :: "outside \<Rightarrow> Config \<Rightarrow> bool" where
  "database_ready ou cfg \<longleftrightarrow>
     ou_connect ou (cf_DSN cfg) = None \<and> ou_new_migrator ou = None \<and> ou_load_migrations ou = None \<and>
     ou_migrate ou = None \<and> ou_parse_config ou (cf_DSN cfg) = None \<and> ou_new_pool ou = None \<and> ou_ping ou = None"

lemma New_without_serdes:
  assumes "serdes ou (cf_Registry cfg) = Inl err"
  shows "\<exists>err' more. New ou cfg tr = (Inl err', tr @ more) \<and> still_open [] more = [] \<and>
    set more \<subseteq> {Acquired MigrationConn, Released MigrationConn, Acquired Pool, Released Pool} \<and>
    (database_ready ou cfg \<longrightarrow> err' = err)"
  using assms
  by (auto simp: New_def Migrate_def Open_def connect_def bindE_def liftE_def failE_def Close_def database_ready_def
      split: option.split)

text \<open>
  C31. Schemas fail closed: \<open>New\<close> returns a service only if the registry client could be built and
  every subject \<^verbatim>\<open>schemactl\<close> registers is there. When a subject is missing, \<open>New\<close> returns an error, has
  touched nothing but the database, whose connections it has given back, and has made no client of the
  broker; the error is \<^verbatim>\<open>ErrSubjectNotRegistered\<close> when the database and the registry client, which are
  tried first, were fine.
\<close>

theorem New_fails_closed_on_schemas:
  assumes "New ou cfg tr = (r, tr')"
  shows "(\<forall>s. r = Inr s \<longrightarrow> ou_registry_client ou (cf_Registry cfg) = None \<and>
       (\<forall>b \<in> set bindings. \<exists>i. ou_schema ou (Subject (bd_topic b) (FullName (bd_msg b))) = Inr i)) \<and>
    (\<forall>b \<in> set bindings. (\<forall>i. ou_schema ou (Subject (bd_topic b) (FullName (bd_msg b))) \<noteq> Inr i) \<longrightarrow>
       (\<exists>err more. r = Inl err \<and> tr' = tr @ more \<and> still_open [] more = [] \<and>
          set more \<subseteq> {Acquired MigrationConn, Released MigrationConn, Acquired Pool, Released Pool} \<and>
          (database_ready ou cfg \<and> ou_registry_client ou (cf_Registry cfg) = None \<longrightarrow>
             errors_Is err ErrSubjectNotRegistered)))"
proof (cases "serdes ou (cf_Registry cfg)")
  case (Inl err)
  have "\<not> (\<exists>p. serdes ou (cf_Registry cfg) = Inr p)" using Inl by simp
  obtain err' more where new: "New ou cfg tr = (Inl err', tr @ more)" "still_open [] more = []"
    "set more \<subseteq> {Acquired MigrationConn, Released MigrationConn, Acquired Pool, Released Pool}"
    "database_ready ou cfg \<longrightarrow> err' = err"
    using New_without_serdes [OF Inl] by blast
  moreover have "errors_Is err ErrSubjectNotRegistered" if "ou_registry_client ou (cf_Registry cfg) = None"
    using serdes_missing [OF that Inl] .
  ultimately show ?thesis using assms by auto
next
  case (Inr p)
  then have "\<exists>p. serdes ou (cf_Registry cfg) = Inr p" by blast
  then show ?thesis unfolding serdes_ok_iff by blast
qed

theorem New_fails_closed_on_schemas_witness:
  "\<exists>err. fst (New (demo_outside\<lparr>ou_schema := (\<lambda>s. Inl Canceled)\<rparr>) demo_config []) = Inl err \<and>
     errors_Is err ErrSubjectNotRegistered"
proof -
  let ?ou = "demo_outside\<lparr>ou_schema := (\<lambda>s. Inl Canceled)\<rparr>"
  obtain r tr' where run: "New ?ou demo_config [] = (r, tr')" by (cases "New ?ou demo_config []")
  have "hd bindings \<in> set bindings" by (simp add: bindings_def)
  moreover have "database_ready ?ou demo_config" "ou_registry_client ?ou (cf_Registry demo_config) = None"
    by (simp_all add: database_ready_def demo_outside_def)
  ultimately show ?thesis using New_fails_closed_on_schemas [OF run] run by fastforce
qed

text \<open>
  A service that started is complete: both consumers exist, in different groups, with the
  default attempt budget and a dead-letter producer, so a record that cannot be handled is always
  settled somewhere; the topics they dead-letter to were created with the topics they read; the
  poller publishes through the producer and the scheduler fires through the expirer.
\<close>

theorem New_ready:
  assumes "New ou cfg tr = (Inr s, tr')"
  shows "(\<exists>c e. svc_commands s = Some c \<and> svc_events s = Some e \<and> cfg_Group c \<noteq> cfg_Group e \<and>
      cfg_DLQ c \<noteq> None \<and> cfg_DLQ e \<noteq> None \<and>
      cfg_MaxAttempts c = DefaultMaxAttempts \<and> cfg_MaxAttempts e = DefaultMaxAttempts \<and>
      cfg_BaseBackoff c = DefaultBaseBackoff \<and> cfg_BaseBackoff e = DefaultBaseBackoff \<and>
      (\<forall>t \<in> set (cfg_Topics c @ cfg_Topics e). {t, t @ ''.dlq''} \<subseteq> set service_topics)) \<and>
    svc_outbox s = Some (Publish (ou_fate ou)) \<and> svc_producer s = Some (Publish (ou_fate ou)) \<and>
    (\<exists>es. svc_timers s = Some (Fire (ou_lib ou) (Serde_Encode (ou_sr ou) es) (ou_expiry_ids ou))) \<and>
    EnsureTopics (ou_admin_client ou (cf_Brokers cfg)) (ou_create_topics ou Partitions replication service_topics) = None"
proof -
  obtain p tr2 where new: "(case connect ou cfg (\<lparr>svc_pool = Some p, svc_producer = None, svc_commands = None,
        svc_events = None, svc_outbox = None, svc_timers = None\<rparr>, tr2) of
      (Inl err, s, tr') \<Rightarrow> (Inl err, tr' @ Close s) | (Inr _, s, tr') \<Rightarrow> (Inr s, tr')) = (Inr s, tr')"
    using assms unfolding New_def bindE_eq_Inr_iff by blast
  obtain r s2 tr3 where con: "connect ou cfg (\<lparr>svc_pool = Some p, svc_producer = None, svc_commands = None,
        svc_events = None, svc_outbox = None, svc_timers = None\<rparr>, tr2) = (r, s2, tr3)"
    by (metis prod.collapse)
  then have "r = Inr ()" "s2 = s" using new by (auto split: sum.splits)
  with con have "connect ou cfg (\<lparr>svc_pool = Some p, svc_producer = None, svc_commands = None,
        svc_events = None, svc_outbox = None, svc_timers = None\<rparr>, tr2) = (Inr (), s, tr3)"
    by simp
  then show ?thesis
    by (auto simp: wiring_defs service_topics_def
        split: sum.splits option.splits prod.splits)
qed

theorem New_ready_witness:
  "\<exists>s tr'. New (demo_outside\<lparr>ou_consumer_client := \<lambda>_. None\<rparr>) demo_config [] = (Inr s, tr') \<and>
     svc_outbox s = Some (Publish (\<lambda>_. Acked))"
proof -
  let ?ou = "demo_outside\<lparr>ou_consumer_client := \<lambda>_. None\<rparr>"
  obtain cs es where "serdes ?ou (cf_Registry demo_config) = Inr (cs, es)"
    using serdes_ok_iff [of ?ou "cf_Registry demo_config"] by (auto simp: demo_outside_def)
  then obtain s tr' where run: "New ?ou demo_config [] = (Inr s, tr')"
    by (auto simp: New_def Migrate_def Open_def wiring_defs demo_outside_def EnsureTopics_def service_topics_def)
  from New_ready [OF this] show ?thesis using run by (simp add: demo_outside_def)
qed

definition loop_failed :: "string \<times> error option \<Rightarrow> bool" where
  "loop_failed l = (case snd l of None \<Rightarrow> False | Some err \<Rightarrow> \<not> errors_Is err Canceled)"

lemma fold_loop_done:
  "rn_waiting (fold loop_done ends s) = fold (\<lambda>l. remove1 (fst l)) ends (rn_waiting s) \<and>
   rn_failures (fold loop_done ends s) = rn_failures s @
     map (\<lambda>l. Errorf (''inventory: '' @ fst l @ '': '') (the (snd l)) []) (filter loop_failed ends) \<and>
   rn_cancelled (fold loop_done ends s) = (rn_cancelled s \<or> list_ex loop_failed ends)"
proof (induction ends arbitrary: s)
  case (Cons l ends)
  then show ?case by (cases l; cases "snd l") (auto simp: loop_failed_def)
qed simp

lemma fold_remove1_subset: "set (fold (\<lambda>l. remove1 (fst l)) ends ws) \<subseteq> set ws"
  by (induction ends arbitrary: ws) (auto dest: subsetD [OF set_remove1_subset])

lemma fold_remove1_set:
  "distinct ws \<Longrightarrow> set (fold (\<lambda>l. remove1 (fst l)) ends ws) = set ws - fst ` set ends"
  by (induction ends arbitrary: ws) auto

text \<open>
  \<open>Run\<close> reports the failure that came first: when each of the four loops has ended once, in any
  order, it returns nil exactly if no loop ended with an error other than cancellation, and otherwise
  the first such error under its loop's name; from that failure on the shared context is cancelled;
  while a loop is still running it does not return; and no more failures are ever sent than the
  channel holds, so no loop blocks on reporting one.
\<close>

theorem Run_reports_first_failure:
  assumes "distinct (map fst ends)" "fst ` set ends \<subseteq> set loop_names"
  shows "Service_Run ends =
      (if fst ` set ends = set loop_names
       then Some (case filter loop_failed ends of
                    [] \<Rightarrow> None
                  | l # _ \<Rightarrow> Some (Errorf (''inventory: '' @ fst l @ '': '') (the (snd l)) []))
       else None) \<and>
    (rn_cancelled (fold loop_done ends started) = list_ex loop_failed ends) \<and>
    length (rn_failures (fold loop_done ends started)) \<le> length loop_names"
proof -
  have "distinct loop_names" by (simp add: loop_names_def)
  then have w: "(rn_waiting (fold loop_done ends started) = []) = (fst ` set ends = set loop_names)"
    using fold_loop_done [of ends started] fold_remove1_set [of loop_names ends] assms(2)
    by (auto simp: started_def simp flip: set_empty)
  have "length (filter loop_failed ends) \<le> length ends" by simp
  also have "length ends = card (fst ` set ends)" using assms(1) by (metis distinct_card length_map set_map)
  also have "\<dots> \<le> card (set loop_names)" using assms(2) by (intro card_mono) simp_all
  also have "\<dots> \<le> length loop_names" by (rule card_length)
  finally show ?thesis
    using w fold_loop_done [of ends started]
    by (auto simp: Service_Run_def Let_def started_def split: list.split)
qed

theorem Run_reports_first_failure_witness:
  "Service_Run [(''timer scheduler'', None), (''outbox poller'', Some (ErrorNew ''x'')),
      (''events consumer'', Some Canceled), (''commands consumer'', Some (ErrorNew ''y''))] =
     Some (Some (Errorf ''inventory: outbox poller: '' (ErrorNew ''x'') []))"
  using Run_reports_first_failure [of "[(''timer scheduler'', None), (''outbox poller'', Some (ErrorNew ''x'')),
      (''events consumer'', Some Canceled), (''commands consumer'', Some (ErrorNew ''y''))]"]
  by (auto simp: loop_names_def loop_failed_def)

end
