(* ===== verification/System.thy ===== *)
theory System
  imports Laws Wire
begin

text \<open>
  The service as a whole: any number of instances, each running its commands consumer, its timer
  scheduler, its outbox poller and its projection over one shared database and one broker.

  \<open>service_step\<close> is one operation of one session, from the state it found to the state it left; while
  it runs, what the other sessions commit between two of its statements is itself a sequence of such
  steps (\<open>service_steps\<close>). The two relations are defined together, so every law proved of them by rule
  induction holds for all interleavings, without any assumption about the sessions that run beside
  the one looked at. The parameters are what all sessions share: the protobuf library, the wire
  encoder, the precision of the server's timestamps, \<open>B\<close>, everything the broker has accepted by the
  end of the run, and \<open>rb\<close>, whether anybody rebuilds the view during the run.

  The locale \<open>service_law\<close> is the interface between an invariant and this relation: it asks for the law
  at the one point where each transaction's own writes are applied, where both the law itself and the
  step relation may be relied on of the others, and gives it for every run.
\<close>

section \<open>The step relation\<close>

definition server :: "protolib \<Rightarrow> (time \<Rightarrow> time) \<Rightarrow> env \<Rightarrow> bool" where
  "server L tz e \<longleftrightarrow> codec_ok L e \<and> tstz e = tz"

lemma rely_mono_rule [mono]: "(\<And>x y. R x y \<longrightarrow> Q x y) \<Longrightarrow> rely R e \<longrightarrow> rely Q e"
  by (simp add: rely_def)

inductive service_step ::
    "protolib \<Rightarrow> encoder \<Rightarrow> (time \<Rightarrow> time) \<Rightarrow> krecord set \<Rightarrow> bool \<Rightarrow> state \<Rightarrow> state \<Rightarrow> bool"
  and service_steps ::
    "protolib \<Rightarrow> encoder \<Rightarrow> (time \<Rightarrow> time) \<Rightarrow> krecord set \<Rightarrow> bool \<Rightarrow> state \<Rightarrow> state \<Rightarrow> bool"
  for L enc tz B rb where
  command: "service_step L enc tz B rb (state_of db) (state_of db')"
    if "\<And>i. rely (service_steps L enc tz B rb) (envs i)" "\<And>i. server L tz (envs i)"
      "Handle L enc envs ids inc cmd db = (r, k, db')"
| deadlines: "service_step L enc tz B rb (state_of db) (state_of db')"
    if "\<And>i. rely (service_steps L enc tz B rb) (envs i)" "\<And>i. server L tz (envs i)"
      "Tick (Fire L enc ids) envs cancelled db = (res, db')"
| drain: "service_step L enc tz B rb (state_of db) (state_of db')"
    if "rely (service_steps L enc tz B rb) e" "server L tz e"
      "Drain (Publish fate) e locked (db, log) = (drained, db', log')" "set log' \<subseteq> B"
| project: "service_step L enc tz B rb (state_of db) (state_of db')"
    if "rely (service_steps L enc tz B rb) e" "server L tz e" "Project L e s db = (r, db')"
| rebuild: "service_step L enc tz B rb (state_of db) (state_of db')"
    if "rely (service_steps L enc tz B rb) e" "server L tz e" "Rebuild L e db = (r, db')" rb
| prune_outbox: "service_step L enc tz B rb (state_of db) (state_of db')"
    if "rely (service_steps L enc tz B rb) e" "outbox_Prune e d db = (pruned, db')"
| prune_timers: "service_step L enc tz B rb (state_of db) (state_of db')"
    if "rely (service_steps L enc tz B rb) e" "timers_Prune e d db = (pruned, db')"
| prune_inbox: "service_step L enc tz B rb (state_of db) (state_of db')"
    if "rely (service_steps L enc tz B rb) e" "inbox_Prune e d db = (pruned, db')"
| drawn: "service_step L enc tz B rb (T, S) (T, S')" if "seqs_le S S'"
| idle: "service_steps L enc tz B rb x x"
| more: "service_steps L enc tz B rb x z" if "service_steps L enc tz B rb x y" "service_step L enc tz B rb y z"

lemmas service_intros = service_step_service_steps.intros
lemmas service_induct = service_step_service_steps.inducts

lemma service_steps_trans:
  assumes "service_steps L enc tz B rb y z" "service_steps L enc tz B rb x y"
  shows "service_steps L enc tz B rb x z"
  using assms
  by (induction rule: service_induct(2) [where ?P1.0 = "\<lambda>_ _. True"]) (auto intro: service_intros)

lemma service_steps_one: "service_step L enc tz B rb x y \<Longrightarrow> service_steps L enc tz B rb x y"
  by (rule more [OF idle])

text \<open>What the service can reach from the migrated, empty database.\<close>

definition reachable ::
  "protolib \<Rightarrow> encoder \<Rightarrow> (time \<Rightarrow> time) \<Rightarrow> krecord set \<Rightarrow> bool \<Rightarrow> state \<Rightarrow> bool" where
  "reachable L enc tz B rb x \<longleftrightarrow> service_steps L enc tz B rb (state_of empty_db) x"

lemma reachable_start: "reachable L enc tz B rb (state_of empty_db)"
  by (simp add: reachable_def service_intros)

lemma reachable_steps: "reachable L enc tz B rb x \<Longrightarrow> service_steps L enc tz B rb x y \<Longrightarrow> reachable L enc tz B rb y"
  unfolding reachable_def by (rule service_steps_trans)

interpretation runs: table_law "service_steps L enc tz B rb" for L enc tz B rb
  by unfold_locales (auto intro: service_intros service_steps_trans service_steps_one)

section \<open>From a law of the writes to a law of the service\<close>

context table_law
begin

lemma marked_law:
  assumes "rely R e" "claim e locked (begin_tx db) = (Inr batch, t1)"
    and "exec e (update_stmt (markSQL e (ids_of batch))) t1 = (Inr (), t)"
    and "\<And>is T S. R (T, S) (snd (markSQL e is T), S)"
  shows "R (state_of db) (view t, seqs t)"
proof -
  have "keeps (state_frame R) (claim e locked)"
    unfolding claim_def by (intro in_tx.keeps_wrapE keeps_select assms(1))
  then have "R (state_of db) (view t1, seqs t1)" using assms(2) by (auto dest: keeps_stateD)
  moreover have "R (view t1, seqs t1) (view t, seqs t)"
    using keeps_stateD [OF keeps_update [OF assms(1,4)] assms(3)] .
  ultimately show ?thesis by (rule law_trans)
qed

end

locale service_law = table_law R
  for R :: "state \<Rightarrow> state \<Rightarrow> bool" +
  fixes L :: protolib and enc :: encoder and tz :: "time \<Rightarrow> time" and B :: "krecord set"
    and rb :: bool
  assumes command_law: "rely (service_steps L enc tz B rb) e \<Longrightarrow> rely R e \<Longrightarrow> server L tz e \<Longrightarrow>
      SeatID cmd = Inr s \<Longrightarrow> applyCommand L enc e ids inc cmd s (begin_tx db) = (Inr (), t) \<Longrightarrow>
      R (state_of db) (view t, seqs t)"
    and deadline_law: "rely (service_steps L enc tz B rb) e \<Longrightarrow> rely R e \<Longrightarrow> server L tz e \<Longrightarrow>
      row \<in> set (timers T0) \<Longrightarrow> R (T0, S0) (state_of db) \<Longrightarrow>
      claimAndFire (Fire L enc ids) e (timer_of row) (begin_tx db) = (Inr claimed, t) \<Longrightarrow>
      R (T0, S0) (view t, seqs t)"
    and drain_law: "rely (service_steps L enc tz B rb) e \<Longrightarrow> rely R e \<Longrightarrow> server L tz e \<Longrightarrow>
      claim e locked (begin_tx db) = (Inr batch, t1) \<Longrightarrow> record_of ` set (messages_of batch) \<subseteq> B \<Longrightarrow>
      exec e (update_stmt (markSQL e (ids_of batch))) t1 = (Inr (), t) \<Longrightarrow>
      R (state_of db) (view t, seqs t)"
    and project_law: "rely (service_steps L enc tz B rb) e \<Longrightarrow> rely R e \<Longrightarrow> server L tz e \<Longrightarrow>
      project L e s t0 = (Inr (), t) \<Longrightarrow> R (view t0, seqs t0) (view t, seqs t)"
    and clear_law: "rb \<Longrightarrow> R (T, S) (snd (clearSQL T), S)"
    and prune_outbox_law: "R (T, S) (snd (outbox_pruneSQL e d T), S)"
    and prune_timers_law: "R (T, S) (snd (timers_pruneSQL e d T), S)"
    and prune_inbox_law: "R (T, S) (snd (inbox_pruneSQL e d T), S)"
begin

lemma attempt_law:
  assumes "rely (service_steps L enc tz B rb) e" "rely R e" "server L tz e"
    and "applyInOneTransaction L enc e ids inc cmd db = (r, db')"
  shows "R (state_of db) (state_of db')"
proof (cases "SeatID cmd")
  case (Inl err)
  then show ?thesis using assms(4) by (simp add: applyInOneTransaction_def law_refl)
next
  case (Inr s)
  then have "WithTx e (applyCommand L enc e ids inc cmd s) db = (r, db')"
    using assms(4) by (simp add: applyInOneTransaction_def)
  then show ?thesis
    using command_law [OF assms(1-3) Inr]
    by (rule WithTx_law [OF assms(2) _ keeps_base_applyCommand law_refl]) simp
qed

lemma attempts_law:
  assumes "\<And>i. rely (service_steps L enc tz B rb) (envs i)" "\<And>i. rely R (envs i)" "\<And>i. server L tz (envs i)"
    and "attempts L enc envs ids inc cmd i n err db = (r, k, db')"
  shows "R (state_of db) (state_of db')"
  using assms(4)
proof (induction n arbitrary: i err db)
  case 0
  then show ?case by (simp add: law_refl)
next
  case (Suc n)
  obtain r1 db1 where run: "applyInOneTransaction L enc (envs i) (ids i) inc cmd db = (r1, db1)"
    by (cases "applyInOneTransaction L enc (envs i) (ids i) inc cmd db")
  have "R (state_of db) (state_of db1)" using attempt_law [OF assms(1-3) run] .
  moreover have "R (state_of db1) (state_of db')"
    using Suc run by (auto split: sum.splits if_splits simp: law_refl)
  ultimately show ?case by (rule law_trans)
qed

lemma fireEach_law:
  assumes "\<And>i. rely (service_steps L enc tz B rb) (envs i)" "\<And>i. rely R (envs i)" "\<And>i. server L tz (envs i)"
    and "R (T0, S0) (state_of db)" "set ts \<subseteq> timer_of ` set (timers T0)"
    and "fireEach (Fire L enc ids) envs cancelled i ts db = (res, db')"
  shows "R (T0, S0) (state_of db')"
  using assms(4-)
proof (induction ts arbitrary: i db res)
  case Nil
  then show ?case by simp
next
  case (Cons tm ts)
  obtain r1 db1 where one: "fireOne (Fire L enc ids) (envs i) tm db = (r1, db1)"
    by (cases "fireOne (Fire L enc ids) (envs i) tm db")
  obtain row where row: "row \<in> set (timers T0)" "tm = timer_of row" using Cons.prems(2) by auto
  have "R (T0, S0) (state_of db1)"
    using one [unfolded fireOne_def row(2)] expirer.keeps_base_claimAndFire Cons.prems(1)
    by (rule WithTx_law [OF assms(2)]) (rule deadline_law [OF assms(1-3) row(1) Cons.prems(1)])
  then show ?case using Cons one by (auto split: prod.splits sum.splits)
qed

lemma Tick_law:
  assumes "\<And>i. rely (service_steps L enc tz B rb) (envs i)" "\<And>i. rely R (envs i)" "\<And>i. server L tz (envs i)"
    and "Tick (Fire L enc ids) envs cancelled db = (res, db')"
  shows "R (state_of db) (state_of db')"
proof -
  obtain r1 db1 where due: "Due (envs 0) Scheduler_BatchSize db = (r1, db1)"
    by (cases "Due (envs 0) Scheduler_BatchSize db")
  then obtain r0 where read: "pool_exec (envs 0) (select_stmt (\<lambda>T. map timer_of (dueSQL (envs 0) Scheduler_BatchSize T))) db
      = (r0, db1)" "r0 = r1 \<or> (\<exists>err. r1 = Inl err)"
    by (auto simp: Due_def wrapE_def split: prod.splits sum.splits)
  show ?thesis
  proof (cases r1)
    case (Inl err)
    then have "db' = db1" using assms(4) due by (simp add: Tick_def)
    moreover have "R (state_of db) (state_of db1)"
      by (rule pool_exec_law [OF assms(2) read(1) draws_select]) (auto simp: select_stmt_def law_refl)
    ultimately show ?thesis by simp
  next
    case (Inr ts)
    then have "pool_exec (envs 0) (select_stmt (\<lambda>T. map timer_of (dueSQL (envs 0) Scheduler_BatchSize T))) db = (Inr ts, db1)"
      using read by auto
    from assms(2) this obtain T0 S0 where T0: "ts = map timer_of (dueSQL (envs 0) Scheduler_BatchSize T0)"
        "R (state_of db) (T0, S0)" "R (T0, S0) (state_of db1)"
      by (rule pool_select_law)
    have "set ts \<subseteq> timer_of ` set (timers T0)" unfolding T0(1) dueSQL_def by (auto dest!: in_set_takeD)
    moreover obtain res1 where "fireEach (Fire L enc ids) envs cancelled 1 ts db1 = (res1, db')"
      using assms(4) due Inr by (auto simp: Tick_def split: prod.splits)
    ultimately have "R (T0, S0) (state_of db')"
      using fireEach_law [where envs = envs, OF assms(1-3) T0(3)] by blast
    then show ?thesis using T0(2) by (rule law_trans [rotated])
  qed
qed

lemma Drain_law:
  assumes "rely (service_steps L enc tz B rb) e" "rely R e" "server L tz e"
    and "Drain (Publish fate) e locked (db, log) = (r, db', log')" "set log' \<subseteq> B"
  shows "R (state_of db) (state_of db')"
  using assms(4)
proof (cases rule: Drain_cases)
  case rolled
  then show ?thesis using meanwhile_law assms(2) by simp
next
  case (marked batch t1 t2)
  have "record_of ` set (messages_of batch) \<subseteq> B" using Publish_ok [OF marked(3)] assms(5) by auto
  then show ?thesis using applied_law [OF assms(2) drain_law [OF assms(1-3) marked(1) _ marked(4)]] marked(5) by simp
qed

lemma Project_law:
  assumes "rely (service_steps L enc tz B rb) e" "rely R e" "server L tz e" "Project L e s db = (r, db')"
  shows "R (state_of db) (state_of db')"
  using project_law [OF assms(1-3), of s "begin_tx db"] assms(4) unfolding Project_def
  by (intro WithTx_law [OF assms(2) _ keeps_base_project law_refl]) simp_all

lemma project_all_law:
  assumes "rely (service_steps L enc tz B rb) e" "rely R e" "server L tz e" "project_all L e ss t0 = (Inr (), t)"
  shows "R (view t0, seqs t0) (view t, seqs t)"
  using assms(4)
proof (induction ss arbitrary: t0)
  case Nil
  then show ?case by (simp add: law_refl)
next
  case (Cons s ss)
  then obtain t1 where "project L e s t0 = (Inr (), t1)" "project_all L e ss t1 = (Inr (), t)"
    by (auto simp: bindE_eq_Inr_iff)
  then show ?case using Cons.IH project_law [OF assms(1-3)] by (blast intro: law_trans)
qed

lemma Rebuild_law:
  assumes "rely (service_steps L enc tz B rb) e" "rely R e" "server L tz e" "Rebuild L e db = (r, db')" rb
  shows "R (state_of db) (state_of db')"
proof (rule WithTx_law [OF assms(2) assms(4) [unfolded Rebuild_def] keeps_base_rebuild law_refl])
  fix x t
  assume run: "rebuild L e (begin_tx db) = (Inr x, t)"
  obtain ids t1 t2 where st: "Streams e (begin_tx db) = (Inr ids, t1)"
    "exec e (update_stmt clearSQL) t1 = (Inr (), t2)" "project_all L e ids t2 = (Inr (), t)"
    using run by (auto simp: rebuild_def bindE_eq_Inr_iff)
  have "keeps (state_frame R) (Streams e)"
    unfolding Streams_def by (intro in_tx.keeps_wrapE keeps_select assms(2))
  from keeps_stateD [OF this st(1)] have "R (state_of db) (view t1, seqs t1)" by simp
  moreover have "R (view t1, seqs t1) (view t2, seqs t2)"
    using keeps_stateD [OF keeps_update [OF assms(2) clear_law [OF assms(5)]] st(2)] .
  moreover have "R (view t2, seqs t2) (view t, seqs t)" using project_all_law [OF assms(1-3) st(3)] .
  ultimately show "R (state_of db) (view t, seqs t)" by (blast intro: law_trans)
qed

lemma rely_both:
  assumes "rely (\<lambda>x y. service_steps L enc tz B rb x y \<and> R x y) e"
  shows "rely (service_steps L enc tz B rb) e" "rely R e"
  using assms by (auto simp: rely_def)

text \<open>Every step and every run of the service obeys the law.\<close>

lemma service_obeys:
  "service_step L enc tz B rb x y \<Longrightarrow> R x y"
  "service_steps L enc tz B rb x y \<Longrightarrow> R x y"
proof (induction rule: service_induct)
  case (command envs ids inc cmd db r k db')
  then show ?case using rely_both attempts_law [of envs, OF _ _ _ command(3) [unfolded Handle_def]] by blast
next
  case (deadlines envs ids cancelled db res db')
  then show ?case using rely_both Tick_law [of envs, OF _ _ _ deadlines(3)] by blast
next
  case (drain e fate locked db log drained db' log')
  from rely_both [OF drain(1)] drain(2,4,3) show ?case by (rule Drain_law)
next
  case (project e s db r db')
  from rely_both [OF project(1)] project(2,3) show ?case by (rule Project_law)
next
  case (rebuild e db r db')
  from rely_both [OF rebuild(1)] rebuild(2,3,4) show ?case by (rule Rebuild_law)
next
  case (prune_outbox e d db pruned db')
  from rely_both(2) [OF prune_outbox(1)] prune_outbox(2) [unfolded outbox_Prune_def] prune_outbox_law
  show ?case by (rule prune_law)
next
  case (prune_timers e d db pruned db')
  from rely_both(2) [OF prune_timers(1)] prune_timers(2) [unfolded timers_Prune_def] prune_timers_law
  show ?case by (rule prune_law)
next
  case (prune_inbox e d db pruned db')
  from rely_both(2) [OF prune_inbox(1)] prune_inbox(2) [unfolded inbox_Prune_def] prune_inbox_law
  show ?case by (rule prune_law)
next
  case (drawn S S' T)
  then show ?case by (rule law_drawn)
next
  case (idle x)
  then show ?case by (rule law_refl)
next
  case (more x y z)
  then show ?case by (blast intro: law_trans)
qed

end

section \<open>Runs of the two transactions, call by call\<close>

lemma applyCommand_ok_cases:
  assumes "applyCommand L enc e ids inc cmd s t0 = (Inr (), t)"
  obtains (again) "MarkConsumed e Consumer (env_Source inc) (env_ID inc) t0 = (Inr False, t)"
    | (applied) st m out msgs t1 t2 t3 t4
      where "MarkConsumed e Consumer (env_Source inc) (env_ID inc) t0 = (Inr True, t1)"
        and "LoadSeat L e s t1 = (Inr (st, m), t2)" and "Decide L st cmd = Inr out"
        and "AppendSeat L e s (ss_Version st) (out_Events out) (command_meta inc) t2 = (Inr (), t3)"
        and "scheduleTimers e s (out_Timers out) t3 = (Inr (), t4)"
        and "outgoing enc ids (Messages out) (reply_envelope inc s) = Inr msgs"
        and "Enqueue e msgs t4 = (Inr (), t)"
proof -
  from assms obtain first t1 where mark: "MarkConsumed e Consumer (env_Source inc) (env_ID inc) t0 = (Inr first, t1)"
    and rest: "(if \<not> first then retE () else bindE (LoadSeat L e s) (\<lambda>loaded.
       bindE (liftE (Decide L (fst loaded) cmd)) (\<lambda>decision.
       bindE (AppendSeat L e s (ss_Version (fst loaded)) (out_Events decision) (command_meta inc)) (\<lambda>_.
       bindE (scheduleTimers e s (out_Timers decision)) (\<lambda>_.
       bindE (liftE (outgoing enc ids (Messages decision) (reply_envelope inc s))) (\<lambda>msgs.
       Enqueue e msgs)))))) t1 = (Inr (), t)"
    unfolding applyCommand_def bindE_eq_Inr_iff by blast
  show ?thesis
  proof (cases first)
    case False
    then show ?thesis using mark rest again by simp
  next
    case True
    then obtain st m out msgs t2 t3 t4 where "LoadSeat L e s t1 = (Inr (st, m), t2)" "Inr out = Decide L st cmd"
      "AppendSeat L e s (ss_Version st) (out_Events out) (command_meta inc) t2 = (Inr (), t3)"
      "scheduleTimers e s (out_Timers out) t3 = (Inr (), t4)"
      "Inr msgs = outgoing enc ids (Messages out) (reply_envelope inc s)" "Enqueue e msgs t4 = (Inr (), t)"
      using rest by (auto simp: bindE_eq_Inr_iff)
    then show ?thesis using mark True by (intro applied) auto
  qed
qed

lemma claimAndFire_ok_cases:
  assumes "claimAndFire (Fire L enc ids) e tm t0 = (Inr claimed, t)"
  obtains (lost) "MarkFired e (tr_ID tm) t0 = (Inr False, t)"
    | (stale) st m t1 where "MarkFired e (tr_ID tm) t0 = (Inr True, t1)"
        and "LoadSeat L e (tr_Subject tm) t1 = (Inr (st, m), t)"
        and "live_hold st \<noteq> Some (tr_Token tm)"
    | (expired) st m out msgs t1 t2 t3 where "MarkFired e (tr_ID tm) t0 = (Inr True, t1)"
        and "LoadSeat L e (tr_Subject tm) t1 = (Inr (st, m), t2)"
        and "out = Expire st (tr_Subject tm) (tr_Token tm)" and "live_hold st = Some (tr_Token tm)"
        and "AppendSeat L e (tr_Subject tm) (ss_Version st) (out_Events out) (expiry_meta m) t2 = (Inr (), t3)"
        and "outgoing enc ids (Messages out) (expiry_envelope m (tr_Subject tm)) = Inr msgs"
        and "Enqueue e msgs t3 = (Inr (), t)"
proof -
  from assms obtain got t1 where mark: "MarkFired e (tr_ID tm) t0 = (Inr got, t1)"
    and rest: "(if \<not> got then retE False else bindE (Fire L enc ids e tm) (\<lambda>_. retE True)) t1 = (Inr claimed, t)"
    unfolding claimAndFire_def bindE_eq_Inr_iff by blast
  show ?thesis
  proof (cases got)
    case False
    then show ?thesis using mark rest lost by simp
  next
    case True
    then have "Fire L enc ids e tm t1 = (Inr (), t)" using rest by (auto simp: bindE_eq_Inr_iff)
    then obtain st m t2 t3 where load: "LoadSeat L e (tr_Subject tm) t1 = (Inr (st, m), t2)"
      and app: "AppendSeat L e (tr_Subject tm) (ss_Version st)
          (out_Events (Expire st (tr_Subject tm) (tr_Token tm))) (expiry_meta m) t2 = (Inr (), t3)"
      and rest: "(if out_Events (Expire st (tr_Subject tm) (tr_Token tm)) = [] then retE ()
          else bindE (liftE (outgoing enc ids (Messages (Expire st (tr_Subject tm) (tr_Token tm)))
              (expiry_envelope m (tr_Subject tm)))) (\<lambda>msgs. Enqueue e msgs)) t3 = (Inr (), t)"
      unfolding Fire_alt by (auto simp: bindE_eq_Inr_iff cong: if_cong)
    show ?thesis
    proof (cases "live_hold st = Some (tr_Token tm)")
      case live: True
      then have "out_Events (Expire st (tr_Subject tm) (tr_Token tm)) \<noteq> []"
        by (auto simp: live_hold_def outcome_defs split: if_splits)
      with rest obtain msgs where "Inr msgs = outgoing enc ids (Messages (Expire st (tr_Subject tm) (tr_Token tm)))
          (expiry_envelope m (tr_Subject tm))" "Enqueue e msgs t3 = (Inr (), t)"
        by (auto simp: bindE_eq_Inr_iff)
      then show ?thesis using mark True load app live by (intro expired) auto
    next
      case False
      then have "out_Events (Expire st (tr_Subject tm) (tr_Token tm)) = []"
        by (auto simp: live_hold_def outcome_defs split: if_splits)
      then have "t = t2" using app rest by (simp add: AppendSeat_def)
      then show ?thesis using mark True load False by (intro stale) auto
    qed
  qed
qed

section \<open>Laws that hold of every statement\<close>

text \<open>The calls of the two transactions, for a law their statements obey.\<close>

context table_law
begin

lemma keeps_LoadSeat: "rely R e \<Longrightarrow> keeps (state_frame R) (LoadSeat L e s)"
  unfolding LoadSeat_def Load_def by (auto intro!: in_tx.keeps_seq keeps_select)

lemma keeps_AppendSeat:
  assumes "rely R e"
    and "\<And>evs cs T S x T' S'. append_columns 0 evs = Inr cs \<Longrightarrow> appendSQL e s v cs T S = (Inr (x, T'), S') \<Longrightarrow>
      R (T, S) (T', S')"
  shows "keeps (state_frame R) (AppendSeat L e s v evts meta)"
  unfolding AppendSeat_def Append_def using assms
  by (auto intro!: in_tx.keeps_seq keeps_exec draws_appendSQL split: sum.split)

lemma keeps_MarkFired:
  assumes "rely R e" "\<And>T S. R (T, S) (snd (markFiredSQL e i T), S)"
  shows "keeps (state_frame R) (MarkFired e i)"
  unfolding MarkFired_def using assms by (auto intro!: in_tx.keeps_seq keeps_update)

lemma keeps_project:
  assumes "rely R e" "\<And>new T S. R (T, S) (snd (upsertAvailabilitySQL new T), S)"
  shows "keeps (state_frame R) (project L e s)"
  unfolding project_def using assms by (auto intro!: in_tx.keeps_seq keeps_LoadSeat keeps_update)

lemma keeps_scheduleTimers_if:
  assumes "rely R e" "\<And>fa k x T S T' S'. scheduleSQL e fa s k T S = (Inr (x, T'), S') \<Longrightarrow> R (T, S) (T', S')"
  shows "keeps (state_frame R) (scheduleTimers e s ts)"
proof (induction ts)
  case (Cons tm ts)
  have "keeps (state_frame R) (Schedule e fa s k)" for fa k
    unfolding Schedule_def by (intro in_tx.keeps_wrapE keeps_exec draws_scheduleSQL assms)
  then show ?case using Cons by (auto intro!: in_tx.keeps_seq)
qed (auto intro!: in_tx.keeps_seq)

lemma keeps_Enqueue_if:
  assumes "rely R e" "\<And>x T S T' S'. validate_messages 0 ms = None \<Longrightarrow> enqueueSQL ms T S = (Inr (x, T'), S') \<Longrightarrow> R (T, S) (T', S')"
  shows "keeps (state_frame R) (Enqueue e ms)"
  unfolding Enqueue_def using assms
  by (auto intro!: in_tx.keeps_seq keeps_exec keeps_pg_notify draws_enqueueSQL split: option.split)

lemma loaded_law: "LoadSeat L e s t = (r, t') \<Longrightarrow> rely R e \<Longrightarrow> R (view t, seqs t) (view t', seqs t')"
  by (rule keeps_stateD [OF keeps_LoadSeat])

end

text \<open>
  What most laws have in common: consuming and scheduling obey them wherever they happen
  (\<open>bookkeeping_law\<close>), and often enqueueing does too (\<open>statement_law\<close>). The statements that only some
  laws allow at any point (the append, the claim of a timer) are premises of the lemmas about the
  calls that make them.
\<close>

locale bookkeeping_law = table_law R
  for R :: "state \<Rightarrow> state \<Rightarrow> bool" +
  assumes consume_stmt: "c \<noteq> [] \<Longrightarrow> s \<noteq> [] \<Longrightarrow> i \<noteq> [] \<Longrightarrow> R (T, S) (snd (inbox_markSQL e c s i T), S)"
    and schedule_stmt: "scheduleSQL e fa s k T S = (Inr (x, T'), S') \<Longrightarrow> R (T, S) (T', S')"
begin

lemma keeps_MarkConsumed: "rely R e \<Longrightarrow> keeps (state_frame R) (MarkConsumed e c s i)"
  unfolding MarkConsumed_def
  by (auto intro!: in_tx.keeps_seq keeps_update consume_stmt)

lemma keeps_Schedule: "rely R e \<Longrightarrow> keeps (state_frame R) (Schedule e fa s k)"
  unfolding Schedule_def
  by (intro in_tx.keeps_wrapE keeps_exec draws_scheduleSQL) (auto intro: schedule_stmt)

lemma keeps_scheduleTimers: "rely R e \<Longrightarrow> keeps (state_frame R) (scheduleTimers e s ts)"
  by (rule keeps_scheduleTimers_if [OF _ schedule_stmt])

lemma consumed_law: "MarkConsumed e c s i t = (r, t') \<Longrightarrow> rely R e \<Longrightarrow> R (view t, seqs t) (view t', seqs t')"
  by (rule keeps_stateD [OF keeps_MarkConsumed])

lemma scheduled_law: "scheduleTimers e s ts t = (r, t') \<Longrightarrow> rely R e \<Longrightarrow> R (view t, seqs t) (view t', seqs t')"
  by (rule keeps_stateD [OF keeps_scheduleTimers])

end

locale statement_law = bookkeeping_law R
  for R :: "state \<Rightarrow> state \<Rightarrow> bool" +
  assumes enqueue_stmt: "validate_messages 0 ms = None \<Longrightarrow> enqueueSQL ms T S = (Inr (x, T'), S') \<Longrightarrow> R (T, S) (T', S')"
begin

lemma keeps_Enqueue: "rely R e \<Longrightarrow> keeps (state_frame R) (Enqueue e ms)"
  by (rule keeps_Enqueue_if [OF _ enqueue_stmt])

lemma enqueued_law: "Enqueue e ms t = (r, t') \<Longrightarrow> rely R e \<Longrightarrow> R (view t, seqs t) (view t', seqs t')"
  by (rule keeps_stateD [OF keeps_Enqueue])

text \<open>The two transactions, for a law the append obeys at that point.\<close>

lemma applyCommand_law:
  assumes "rely R e" "applyCommand L enc e ids inc cmd s t0 = (Inr (), t)"
    and "\<And>st m out t1 t2 t3. MarkConsumed e Consumer (env_Source inc) (env_ID inc) t0 = (Inr True, t1) \<Longrightarrow>
      LoadSeat L e s t1 = (Inr (st, m), t2) \<Longrightarrow> Decide L st cmd = Inr out \<Longrightarrow>
      AppendSeat L e s (ss_Version st) (out_Events out) (command_meta inc) t2 = (Inr (), t3) \<Longrightarrow>
      R (view t2, seqs t2) (view t3, seqs t3)"
  shows "R (view t0, seqs t0) (view t, seqs t)"
  using assms(2)
proof (cases rule: applyCommand_ok_cases)
  case again
  then show ?thesis using consumed_law assms(1) by blast
next
  case (applied st m out msgs t1 t2 t3 t4)
  have "R (view t0, seqs t0) (view t2, seqs t2)"
    using consumed_law [OF applied(1) assms(1)] loaded_law [OF applied(2) assms(1)] by (rule law_trans)
  moreover have "R (view t2, seqs t2) (view t3, seqs t3)" using assms(3) applied(1-4) .
  moreover have "R (view t3, seqs t3) (view t, seqs t)"
    using scheduled_law [OF applied(5) assms(1)] enqueued_law [OF applied(7) assms(1)] by (rule law_trans)
  ultimately show ?thesis by (blast intro: law_trans)
qed

lemma claimAndFire_law:
  assumes "rely R e" "claimAndFire (Fire L enc ids) e tm t0 = (Inr claimed, t)"
    and "\<And>T S. R (T, S) (snd (markFiredSQL e (tr_ID tm) T), S)"
    and "\<And>st m out t1 t2 t3. LoadSeat L e (tr_Subject tm) t1 = (Inr (st, m), t2) \<Longrightarrow>
      out = Expire st (tr_Subject tm) (tr_Token tm) \<Longrightarrow>
      AppendSeat L e (tr_Subject tm) (ss_Version st) (out_Events out) (expiry_meta m) t2 = (Inr (), t3) \<Longrightarrow>
      R (view t2, seqs t2) (view t3, seqs t3)"
  shows "R (view t0, seqs t0) (view t, seqs t)"
proof -
  have mark: "R (view t0, seqs t0) (view t1, seqs t1)" if "MarkFired e (tr_ID tm) t0 = (r, t1)" for r t1
    using keeps_stateD [OF keeps_MarkFired [OF assms(1,3)] that] .
  show ?thesis
    using assms(2)
  proof (cases rule: claimAndFire_ok_cases)
    case lost
    then show ?thesis by (rule mark)
  next
    case (stale st m t1)
    then show ?thesis using mark loaded_law assms(1) by (blast intro: law_trans)
  next
    case (expired st m out msgs t1 t2 t3)
    have "R (view t0, seqs t0) (view t2, seqs t2)"
      using mark [OF expired(1)] loaded_law [OF expired(2) assms(1)] by (rule law_trans)
    moreover have "R (view t2, seqs t2) (view t3, seqs t3)" using assms(4) expired(2,3,5) .
    moreover have "R (view t3, seqs t3) (view t, seqs t)" using enqueued_law [OF expired(7) assms(1)] .
    ultimately show ?thesis by (blast intro: law_trans)
  qed
qed

end

end
