(* ===== verification/Integrity.thy ===== *)
theory Integrity
  imports System
begin

text \<open>
  The tables in every run of the service: the streams (the invariant of \<open>SeatStore\<close>, as a law of the
  whole service) and the constraints of \<^verbatim>\<open>internal/inventory/migrations\<close>, table by table and statement
  by statement.
\<close>

section \<open>The streams\<close>

definition streams_law :: "protolib \<Rightarrow> state \<Rightarrow> state \<Rightarrow> bool" where
  "streams_law L x y \<longleftrightarrow> seats_step L (fst x) (fst y)"

lemma rely_streams: "rely (streams_law L) e \<longleftrightarrow> seats_rely L e"
  by (simp add: streams_law_def seats_rely_def others_keep_def rely_def)

lemma streams_law_same: "events T' = events T \<Longrightarrow> streams_law L (T, S) (T', S')"
  by (simp add: streams_law_def seats_step_same_events)

interpretation streams: statement_law "streams_law L" for L
proof unfold_locales
  fix x y z
  assume "streams_law L x y" "streams_law L y z"
  then show "streams_law L x z" unfolding streams_law_def by (rule seats_step_trans)
qed (auto simp: streams_law_def inbox_markSQL_frame [OF refl] scheduleSQL_def enqueueSQL_def
    intro!: seats_step_same_events)

interpretation streams_service: service_law "streams_law L" L enc tz B rb for L enc tz B rb
proof (unfold_locales, goal_cases)
  case (1 e cmd s ids inc db t)
  then show ?case using applyCommand_step by (fastforce simp: streams_law_def rely_streams server_def)
next
  case (2 e row T0 S0 db ids claimed t)
  have "seats_step L (view (begin_tx db)) (view t)"
    using 2(2,3,6) by (intro claimAndFire_step) (simp_all add: rely_streams server_def)
  then show ?case using 2(5) by (auto simp: streams_law_def intro: seats_step_trans)
next
  case (3 e locked db batch t1 t)
  show ?case by (rule streams.marked_law [OF 3(2,4,6)]) (simp add: markSQL_def streams_law_same)
next
  case (4 e s t0 t)
  have "keeps (state_frame (streams_law L)) (project L e s)"
    by (rule streams.keeps_project [OF 4(2)]) (simp add: streams_law_same)
  then show ?case using 4(4) by (rule keeps_stateD)
qed (simp_all add: streams_law_same clearSQL_def outbox_pruneSQL_def timers_pruneSQL_def inbox_pruneSQL_def)

lemma service_rely_streams: "rely (service_steps L enc tz B rb) e \<Longrightarrow> rely (streams_law L) e"
  by (erule rely_mono) (rule streams_service.service_obeys(2))

lemma service_rely_seats: "rely (service_steps L enc tz B rb) e \<Longrightarrow> seats_rely L e"
  using service_rely_streams by (simp add: rely_streams)

section \<open>The constraints of the schema\<close>

text \<open>
  Every table as its migration declares it: primary keys and unique constraints, no generated id past
  its sequence, versions that fit the column, and the text the packages refuse to write empty.
\<close>

definition events_wf :: "state \<Rightarrow> bool" where
  "events_wf x \<longleftrightarrow>
     distinct (map ev_global_seq (events (fst x))) \<and> distinct (map event_key (events (fst x))) \<and>
     list_all (\<lambda>r. ev_global_seq r \<le> events_seq (snd x) \<and> int4_ok (ev_version r) \<and> ev_type r \<noteq> [])
       (events (fst x))"

definition outbox_wf :: "state \<Rightarrow> bool" where
  "outbox_wf x \<longleftrightarrow>
     distinct (outbox_ids (fst x)) \<and>
     list_all (\<lambda>r. ob_id r \<le> outbox_seq (snd x) \<and> Validate (row_message r) = None) (outbox (fst x))"

definition inbox_wf :: "state \<Rightarrow> bool" where
  "inbox_wf x \<longleftrightarrow>
     distinct (map inbox_key (inbox (fst x))) \<and>
     list_all (\<lambda>r. ib_consumer r \<noteq> [] \<and> ib_source r \<noteq> [] \<and> ib_event_id r \<noteq> []) (inbox (fst x))"

definition timers_wf :: "state \<Rightarrow> bool" where
  "timers_wf x \<longleftrightarrow>
     timers_ok (fst x) \<and> list_all (\<lambda>r. tm_id r \<le> timers_seq (snd x)) (timers (fst x))"

definition schema_ok :: "state \<Rightarrow> bool" where
  "schema_ok x \<longleftrightarrow>
     events_wf x \<and> outbox_wf x \<and> inbox_wf x \<and> timers_wf x \<and> distinct (view_ids (fst x))"

text \<open>
  What a step keeps of the rows: an event stays as it is for good; an id that has been handed out
  never comes to stand for another message or another timer.
\<close>

definition rows_kept :: "state \<Rightarrow> state \<Rightarrow> bool" where
  "rows_kept x y \<longleftrightarrow>
     seqs_le (snd x) (snd y) \<and> set (events (fst x)) \<subseteq> set (events (fst y)) \<and>
     (\<forall>r' \<in> set (outbox (fst y)). ob_id r' \<le> outbox_seq (snd x) \<longrightarrow>
        (\<exists>r \<in> set (outbox (fst x)). ob_id r = ob_id r' \<and> row_message r = row_message r')) \<and>
     (\<forall>r' \<in> set (timers (fst y)). tm_id r' \<le> timers_seq (snd x) \<longrightarrow>
        (\<exists>r \<in> set (timers (fst x)). timer_of r = timer_of r'))"

definition schema_law :: "state \<Rightarrow> state \<Rightarrow> bool" where
  "schema_law x y \<longleftrightarrow> (schema_ok x \<longrightarrow> schema_ok y \<and> rows_kept x y)"

lemma rows_kept_refl: "rows_kept x x"
  by (auto simp: rows_kept_def)

lemma timer_of_id: "timer_of r = timer_of r' \<Longrightarrow> tm_id r = tm_id r'"
  by (simp add: timer_of_def)

lemma rows_kept_outboxD:
  assumes "rows_kept x y" "r' \<in> set (outbox (fst y))" "ob_id r' \<le> outbox_seq (snd x)"
  obtains r where "r \<in> set (outbox (fst x))" "ob_id r = ob_id r'" "row_message r = row_message r'"
  using assms unfolding rows_kept_def by blast

lemma rows_kept_timersD:
  assumes "rows_kept x y" "r' \<in> set (timers (fst y))" "tm_id r' \<le> timers_seq (snd x)"
  obtains r where "r \<in> set (timers (fst x))" "timer_of r = timer_of r'" "tm_id r = tm_id r'"
  using assms timer_of_id unfolding rows_kept_def by blast

lemma rows_kept_trans:
  assumes "rows_kept x y" "rows_kept y z"
  shows "rows_kept x z"
proof -
  have le: "outbox_seq (snd x) \<le> outbox_seq (snd y)" "timers_seq (snd x) \<le> timers_seq (snd y)"
    using assms(1) by (auto simp: rows_kept_def seqs_le_def)
  have "\<exists>r \<in> set (outbox (fst x)). ob_id r = ob_id r' \<and> row_message r = row_message r'"
    if r': "r' \<in> set (outbox (fst z))" "ob_id r' \<le> outbox_seq (snd x)" for r'
  proof -
    from assms(2) r'(1) order_trans [OF r'(2) le(1)] obtain r1 where
      "r1 \<in> set (outbox (fst y))" "ob_id r1 = ob_id r'" "row_message r1 = row_message r'"
      by (rule rows_kept_outboxD)
    then show ?thesis using rows_kept_outboxD [OF assms(1), of r1] r'(2) by metis
  qed
  moreover have "\<exists>r \<in> set (timers (fst x)). timer_of r = timer_of r'"
    if r': "r' \<in> set (timers (fst z))" "tm_id r' \<le> timers_seq (snd x)" for r'
  proof -
    from assms(2) r'(1) order_trans [OF r'(2) le(2)] obtain r1 where
      "r1 \<in> set (timers (fst y))" "timer_of r1 = timer_of r'" "tm_id r1 = tm_id r'"
      by (rule rows_kept_timersD)
    then show ?thesis using rows_kept_timersD [OF assms(1), of r1] r'(2) by metis
  qed
  moreover have "seqs_le (snd x) (snd z)" "set (events (fst x)) \<subseteq> set (events (fst z))"
    using assms seqs_le_trans unfolding rows_kept_def by blast+
  ultimately show ?thesis unfolding rows_kept_def by blast
qed

lemmas schema_defs = schema_law_def schema_ok_def events_wf_def outbox_wf_def inbox_wf_def timers_wf_def

lemma schema_law_refl: "schema_law x x"
  by (simp add: schema_law_def rows_kept_refl)

lemma schema_law_trans: "schema_law x y \<Longrightarrow> schema_law y z \<Longrightarrow> schema_law x z"
  unfolding schema_law_def using rows_kept_trans by blast

lemma seqs_le_wf:
  assumes "seqs_le S S'" "schema_ok (T, S)"
  shows "schema_ok (T, S')"
  using assms by (fastforce simp: schema_defs seqs_le_def list_all_iff)

lemma schema_law_drawn: "seqs_le S S' \<Longrightarrow> schema_law (T, S) (T, S')"
  using seqs_le_wf by (auto simp: schema_law_def rows_kept_def)

subsection \<open>Statement by statement\<close>

lemma schema_consume:
  assumes "c \<noteq> []" "s \<noteq> []" "i \<noteq> []"
  shows "schema_law (T, S) (snd (inbox_markSQL e c s i T), S)"
proof -
  have "inbox_wf (snd (inbox_markSQL e c s i T), S)" if "inbox_wf (T, S)"
    using that assms by (auto simp: inbox_wf_def inbox_markSQL_def list_ex_iff inbox_key_def)
  then show ?thesis
    using inbox_markSQL_frame [of "snd (inbox_markSQL e c s i T)" e c s i T]
    by (simp add: schema_law_def schema_ok_def rows_kept_def events_wf_def outbox_wf_def timers_wf_def
        outbox_ids_def timers_ok_def view_ids_def) blast
qed

lemma schema_schedule: "scheduleSQL e fa s k T S = (Inr (x, T'), S') \<Longrightarrow> schema_law (T, S) (T', S')"
  by (fastforce simp: scheduleSQL_def schema_defs rows_kept_def seqs_le_def timers_ok_def outbox_ids_def
      view_ids_def list_all_iff)

lemma schema_enqueue:
  assumes "validate_messages 0 ms = None" "enqueueSQL ms T S = (Inr (x, T'), S')"
  shows "schema_law (T, S) (T', S')"
proof -
  let ?new = "outbox_rows (outbox_seq S) ms"
  have T': "T' = T\<lparr>outbox := outbox T @ ?new\<rparr>" "S' = S\<lparr>outbox_seq := outbox_seq S + int (length ms)\<rparr>"
    using assms(2) by (simp_all add: enqueueSQL_def)
  have ids: "ob_id ` set ?new = {outbox_seq S + 1..outbox_seq S + int (length ms)}" "distinct (map ob_id ?new)"
    using outbox_rows_ids [of "outbox_seq S" ms] set_numbered distinct_numbered by (metis image_set)+
  have valid: "Validate (row_message r) = None" if "r \<in> set ?new" for r
  proof -
    have "row_message r \<in> set ms" using that outbox_rows_messages by (metis image_eqI image_set)
    then show ?thesis using assms(1) by (simp add: validate_messages_None_iff)
  qed
  have bound: "outbox_seq S < ob_id r \<and> ob_id r \<le> outbox_seq S + int (length ms)" if "r \<in> set ?new" for r
  proof -
    have "ob_id r \<in> ob_id ` set ?new" using that by simp
    then show ?thesis unfolding ids(1) by simp
  qed
  have "outbox_wf (T', S')" if "outbox_wf (T, S)"
    using that ids(2) bound valid by (fastforce simp: outbox_wf_def T' outbox_ids_def list_all_iff)
  then show ?thesis using bound
    by (fastforce simp: schema_law_def schema_ok_def T' rows_kept_def seqs_le_def events_wf_def inbox_wf_def
        timers_wf_def timers_ok_def view_ids_def)
qed

lemma schema_append:
  assumes "append_columns 0 evs = Inr cs" "appendSQL e s v cs T S = (Inr (x, T'), S')"
  shows "schema_law (T, S) (T', S')"
proof -
  obtain cs' where cs': "jsonb_columns e cs = Some cs'" using appendSQL_okD [OF assms(2)] by blast
  let ?new = "append_rows e s v (events_seq S) cs'"
  have T': "T' = T\<lparr>events := events T @ ?new\<rparr>" "S' = S\<lparr>events_seq := events_seq S + int (length cs')\<rparr>"
    and int4: "\<And>r. r \<in> set ?new \<Longrightarrow> int4_ok (ev_version r)"
    and fresh: "\<And>r r'. r \<in> set ?new \<Longrightarrow> r' \<in> set (events T) \<Longrightarrow> event_key r' \<noteq> event_key r"
    using assms(2) cs' by (auto simp: appendSQL_def Let_def list_all_iff list_ex_iff split: if_splits)
  have types: "ev_type r \<noteq> []" if "r \<in> set ?new" for r
  proof -
    have "(ev_type r, ev_data r, ev_meta r) \<in> set cs'"
      using that append_rows_columns [of e s v "events_seq S" cs'] by (metis (no_types, lifting) image_eqI image_set)
    then show ?thesis using append_columns_types [OF assms(1) cs'] by (auto simp: list_all_iff)
  qed
  have seq: "distinct (map ev_global_seq ?new)" "ev_global_seq ` set ?new = {events_seq S + 1..events_seq S + int (length cs')}"
    using append_rows_seq [of e s v "events_seq S" cs'] set_numbered distinct_numbered by (metis image_set)+
  have keys: "distinct (map event_key ?new)"
    by (simp add: append_rows_keys distinct_map distinct_numbered inj_on_def)
  have bound: "events_seq S < ev_global_seq r \<and> ev_global_seq r \<le> events_seq S + int (length cs')" if "r \<in> set ?new" for r
  proof -
    have "ev_global_seq r \<in> ev_global_seq ` set ?new" using that by simp
    then show ?thesis unfolding seq(2) by simp
  qed
  have "events_wf (T', S')" if "events_wf (T, S)"
    using that seq(1) keys bound int4 types fresh by (fastforce simp: events_wf_def T' list_all_iff)
  then show ?thesis
    by (auto simp: schema_law_def schema_ok_def T' rows_kept_def seqs_le_def outbox_wf_def inbox_wf_def
        timers_wf_def timers_ok_def view_ids_def outbox_ids_def)
qed

lemma schema_mark_fired: "schema_law (T, S) (snd (markFiredSQL e i T), S)"
proof -
  define f where "f r = (if tm_id r = i \<and> tm_fired_at r = None then r\<lparr>tm_fired_at := Some (now e)\<rparr> else r)" for r :: timer_row
  have rows: "timers (snd (markFiredSQL e i T)) = map f (timers T)" by (simp add: markFiredSQL_def f_def)
  have same: "timer_of (f r) = timer_of r" "tm_id (f r) = tm_id r" for r by (simp_all add: timer_of_def f_def)
  then show ?thesis
    by (auto simp: schema_defs rows_kept_def timers_ok_def rows comp_def view_ids_def outbox_ids_def list.pred_map)
qed

lemma schema_mark: "schema_law (T, S) (snd (markSQL e is T), S)"
proof -
  define f where "f r = (if ob_id r \<in> set is then r\<lparr>ob_published_at := Some (now e)\<rparr> else r)" for r :: outbox_row
  have T': "snd (markSQL e is T) = T\<lparr>outbox := map f (outbox T)\<rparr>" by (simp add: markSQL_def f_def)
  have same: "row_message (f r) = row_message r" "ob_id (f r) = ob_id r" for r
    by (simp_all add: row_message_def f_def)
  then show ?thesis
    by (auto simp: schema_defs rows_kept_def timers_ok_def T' comp_def view_ids_def outbox_ids_def list.pred_map)
qed

lemma schema_upsert: "schema_law (T, S) (snd (upsertAvailabilitySQL new T), S)"
  using upsert_ids [of T new]
  by (auto simp: schema_law_def schema_ok_def rows_kept_def events_wf_def outbox_wf_def inbox_wf_def
      timers_wf_def timers_ok_def outbox_ids_def) (auto simp: upsertAvailabilitySQL_def)

lemma schema_deletes:
  "schema_law (T, S) (snd (clearSQL T), S)"
  "schema_law (T, S) (snd (outbox_pruneSQL e d T), S)"
  "schema_law (T, S) (snd (timers_pruneSQL e d T), S)"
  "schema_law (T, S) (snd (inbox_pruneSQL e d T), S)"
  by (auto simp: schema_defs rows_kept_def clearSQL_def outbox_pruneSQL_def timers_pruneSQL_def inbox_pruneSQL_def
      view_ids_def outbox_ids_def timers_ok_def list_all_iff distinct_map_filter)

interpretation schema: statement_law schema_law
  by unfold_locales
    (auto intro: schema_law_refl schema_law_trans schema_law_drawn schema_consume schema_schedule schema_enqueue)

interpretation schema_service: service_law schema_law L enc tz B rb for L enc tz B rb
proof (unfold_locales, goal_cases)
  case (1 e cmd s ids inc db t)
  have "keeps (state_frame schema_law) (AppendSeat L e s v evts meta)" for v evts meta
    using schema_append by (intro schema.keeps_AppendSeat [OF 1(2)])
  then show ?case using schema.applyCommand_law [OF 1(2,5)] by (force dest: keeps_stateD)
next
  case (2 e row T0 S0 db ids claimed t)
  have "keeps (state_frame schema_law) (AppendSeat L e s v evts meta)" for s v evts meta
    using schema_append by (intro schema.keeps_AppendSeat [OF 2(2)])
  then have "schema_law (state_of db) (view t, seqs t)"
    using schema.claimAndFire_law [OF 2(2,6) schema_mark_fired] by (force dest: keeps_stateD)
  with 2(5) show ?case by (rule schema_law_trans)
next
  case (3 e locked db batch t1 t)
  show ?case by (rule schema.marked_law [OF 3(2,4,6) schema_mark])
next
  case (4 e s t0 t)
  then show ?case using keeps_stateD [OF schema.keeps_project [OF 4(2) schema_upsert] 4(4)] by simp
qed (rule schema_deletes)+

lemma service_rely_schema: "rely (service_steps L enc tz B rb) e \<Longrightarrow> rely schema_law e"
  by (erule rely_mono) (rule schema_service.service_obeys(2))

end
