(* ===== verification/Scenario.thy ===== *)
theory Scenario
  imports Integrity
begin

text \<open>
  A run of the service for the witnesses: seat 14A is held, released and held again, command by
  command, and the outbox is drained after the first of them.
\<close>

lemma server_demo: "server demo_lib (\<lambda>t. t) calm_env"
  by (simp add: server_def codec_ok_demo) (simp add: calm_env_def)

lemma rely_calm: "rely (service_steps L enc tz B rb) calm_env"
  by (rule rely_quiet [OF quiet_calm_env]) (rule service_intros)

abbreviation demo_reach :: "krecord set \<Rightarrow> state \<Rightarrow> bool" where
  "demo_reach B \<equiv> reachable demo_lib demo_enc (\<lambda>t. t) B False"

abbreviation demo_msg :: "string \<Rightarrow> message \<Rightarrow> Message" where
  "demo_msg i m \<equiv> outgoing_message (demo_ids 0) (reply_envelope (demo_envelope i) ''14A'') m (FullName m)"

lemma reachable_streams: "reachable L enc tz B rb x \<Longrightarrow> seats_ok L (fst x)"
proof -
  have "seats_ok L empty_tables" by (simp add: seats_ok_def log_ok_def empty_tables_def)
  moreover assume "reachable L enc tz B rb x"
  ultimately show ?thesis
    using streams_service.service_obeys(2) [of L enc tz B rb "state_of empty_db" x]
    by (simp add: reachable_def streams_law_def seats_step_def empty_db_def)
qed

lemma reachable_schema: "reachable L enc tz B rb x \<Longrightarrow> schema_ok x"
proof -
  have "schema_ok (state_of empty_db)"
    by (simp add: schema_ok_def events_wf_def outbox_wf_def inbox_wf_def timers_wf_def timers_ok_def
        view_ids_def outbox_ids_def empty_db_def empty_tables_def)
  then show "reachable L enc tz B rb x \<Longrightarrow> ?thesis"
    using schema_service.service_obeys(2) [of L enc tz B rb "state_of empty_db" x]
    by (simp add: reachable_def schema_law_def)
qed

text \<open>One command for the seat, handled by one instance on its own, from a state already reached.\<close>

lemma demo_command_step:
  fixes db :: database
  assumes "demo_reach B (state_of db)" "SeatID cmd = Inr ''14A''" "i \<noteq> []"
    and "(Consumer, ''/booking'', i) \<notin> consumed (tbl db)"
    and "seat_messages demo_lib (tbl db) ''14A'' = Inr ms" "Fold demo_lib ms = Inr st"
    and "Decide demo_lib st cmd = Inr out" "out_Events out = [m]" "out_Replies out = []"
    and "MarshalJSON demo_lib m = Inr b" "b \<noteq> []" "FullName m \<noteq> []" "length ms < 10"
  shows "\<exists>db'::database. demo_reach B (state_of db') \<and>
    Handle demo_lib demo_enc (\<lambda>_. calm_env) (\<lambda>_. demo_ids) (demo_envelope i) cmd db = (Inr (), 1, db') \<and>
    seat_messages demo_lib (tbl db') ''14A'' = Inr (ms @ [m]) \<and>
    consumed (tbl db') = insert (Consumer, ''/booking'', i) (consumed (tbl db)) \<and>
    (\<exists>n. outbox (tbl db') = outbox (tbl db) @ outbox_rows n [demo_msg i m]) \<and>
    (\<exists>n. timers (tbl db') = timers (tbl db) @ timer_rows calm_env n ''14A'' (out_Timers out))"
proof -
  let ?inc = "demo_envelope i"
  let ?ev = "\<lparr>es_Type = FullName m, es_Data = b, es_Meta = command_meta ?inc\<rparr>"
  have ok: "seats_ok demo_lib (tbl db)" using reachable_streams [OF assms(1)] by simp
  have sides: "''14A'' \<noteq> []" "env_Source ?inc \<noteq> []" "env_ID ?inc \<noteq> []"
    "(Consumer, env_Source ?inc, env_ID ?inc) \<notin> consumed (tbl db)"
    using assms(3,4) by (simp_all add: demo_envelope_def)
  have enc: "encode_all demo_lib ''14A'' (command_meta ?inc) (out_Events out) = Inr [?ev]"
    using assms(8,10) by (simp add: Encode_def TypeName_def)
  have st: "storable calm_env (length ms) [?ev]"
    using assms(11-13) by (simp add: storable_def calm_env_def)
  have out: "outgoing demo_enc demo_ids (Messages out) (reply_envelope ?inc ''14A'') = Inr [demo_msg i m]"
    using assms(8,9) by (simp add: outgoing_def Messages_def demo_enc_def)
  have pay: "list_all (\<lambda>m. msg_Payload m \<noteq> []) [demo_msg i m]"
    using assms(12) by (simp add: outgoing_message_def Let_def)
  obtain db' where run: "applyInOneTransaction demo_lib demo_enc calm_env demo_ids ?inc cmd db = (Inr (), db')"
    and app: "command_applied demo_lib calm_env (Consumer, env_Source ?inc, env_ID ?inc) ''14A'' out [demo_msg i m] (tbl db) (tbl db')"
    using quiet_command [OF quiet_calm_env codec_ok_demo ok assms(2) sides assms(5-7) enc st out pay] by blast
  have handle: "Handle demo_lib demo_enc (\<lambda>_. calm_env) (\<lambda>_. demo_ids) ?inc cmd db = (Inr (), 1, db')"
    using run by (simp add: Handle_def)
  then have "service_step demo_lib demo_enc (\<lambda>t. t) B False (state_of db) (state_of db')"
    by (rule service_intros(1) [rotated 2]) (simp_all add: rely_calm server_demo)
  with assms(1) have "demo_reach B (state_of db')" by (blast intro: reachable_steps service_steps_one)
  moreover have "seat_messages demo_lib (tbl db') ''14A'' = Inr (ms @ [m])"
    "consumed (tbl db') = insert (Consumer, ''/booking'', i) (consumed (tbl db))"
    "\<exists>n. outbox (tbl db') = outbox (tbl db) @ outbox_rows n [demo_msg i m]"
    "\<exists>n. timers (tbl db') = timers (tbl db) @ timer_rows calm_env n ''14A'' (out_Timers out)"
    using app assms(5,8) unfolding command_applied_def by (auto simp: demo_envelope_def)
  ultimately show ?thesis using handle by blast
qed

lemma demo_held_step:
  "\<exists>db::database. demo_reach B (state_of db) \<and>
     Handle demo_lib demo_enc (\<lambda>_. calm_env) (\<lambda>_. demo_ids) (demo_envelope ''1'') (demo_hold ''h1'') empty_db = (Inr (), 1, db) \<and>
     consumed (tbl db) = {(Consumer, ''/booking'', ''1'')} \<and>
     seat_messages demo_lib (tbl db) ''14A'' = Inr [demo_held ''h1''] \<and>
     (\<exists>n. outbox (tbl db) = outbox_rows n [demo_msg ''1'' (demo_held ''h1'')]) \<and>
     (\<exists>n. timers (tbl db) = timer_rows calm_env n ''14A'' [\<lparr>st_FireAt = 900, st_Token = ''h1''\<rparr>])"
proof -
  let ?out = "Hold demo_lib zero_SeatState \<lparr>hs_HoldId = ''h1'', hs_BookingId = ''b'',
      hs_SeatId = ''14A'', hs_ExpiresAt = Some (Timestamp 900 0)\<rparr>"
  have "consumed (tbl empty_db) = {}" "outbox (tbl empty_db) = []" "timers (tbl empty_db) = []"
    by (simp_all add: empty_db_def empty_tables_def consumed_def)
  moreover have "\<exists>db'::database. demo_reach B (state_of db') \<and>
      Handle demo_lib demo_enc (\<lambda>_. calm_env) (\<lambda>_. demo_ids) (demo_envelope ''1'') (demo_hold ''h1'') empty_db = (Inr (), 1, db') \<and>
      seat_messages demo_lib (tbl db') ''14A'' = Inr ([] @ [demo_held ''h1'']) \<and>
      consumed (tbl db') = insert (Consumer, ''/booking'', ''1'') (consumed (tbl empty_db)) \<and>
      (\<exists>n. outbox (tbl db') = outbox (tbl empty_db) @ outbox_rows n [demo_msg ''1'' (demo_held ''h1'')]) \<and>
      (\<exists>n. timers (tbl db') = timers (tbl empty_db) @ timer_rows calm_env n ''14A'' (out_Timers ?out))"
    by (rule demo_command_step [OF reachable_start, where cmd = "demo_hold ''h1''" and st = zero_SeatState
          and b = "''1''" and out = ?out])
      (simp_all add: demo_commands demo_messages outcome_defs Fold_def zero_SeatState_def status_defs
        demo_lib_def table_lib_def consumed_def empty_db_def empty_tables_def seat_messages_def stream_rows_def)
  moreover have "out_Timers ?out = [\<lparr>st_FireAt = 900, st_Token = ''h1''\<rparr>]"
    by (simp add: outcome_defs zero_SeatState_def status_defs demo_lib_def table_lib_def)
  ultimately show ?thesis by auto
qed

lemma demo_service_run:
  "\<exists>x. demo_reach B x \<and>
     seat_messages demo_lib (fst x) ''14A'' = Inr [demo_held ''h1'', demo_released ''h1'', demo_held ''h2'']"
proof -
  note defs = demo_commands demo_messages outcome_defs Fold_def zero_SeatState_def freed_def
    status_defs demo_lib_def table_lib_def
  obtain db1 :: database where db1: "demo_reach B (state_of db1)"
    "seat_messages demo_lib (tbl db1) ''14A'' = Inr [demo_held ''h1'']"
    "consumed (tbl db1) = {(Consumer, ''/booking'', ''1'')}"
    using demo_held_step by blast
  obtain db2 :: database where db2: "demo_reach B (state_of db2)"
    "seat_messages demo_lib (tbl db2) ''14A'' = Inr [demo_held ''h1'', demo_released ''h1'']"
    "consumed (tbl db2) = {(Consumer, ''/booking'', ''2''), (Consumer, ''/booking'', ''1'')}"
    using demo_command_step [OF db1(1) _ _ _ db1(2), of "demo_release ''h1''" "''2''" demo_state _ "demo_released ''h1''" "''3''"]
    by (auto simp: defs db1(3) demo_state_def)
  obtain db3 :: database where "demo_reach B (state_of db3)"
    "seat_messages demo_lib (tbl db3) ''14A'' = Inr [demo_held ''h1'', demo_released ''h1'', demo_held ''h2'']"
    using demo_command_step [OF db2(1) _ _ _ db2(2), of "demo_hold ''h2''" "''3''"
        "zero_SeatState\<lparr>ss_Version := 2\<rparr>" _ "demo_held ''h2''" "''2''"]
    by (auto simp: defs db2(3))
  then show ?thesis by (intro exI [of _ "state_of db3"]) simp
qed

text \<open>The first message drained: its row is marked, its record is on the broker.\<close>

lemma demo_drained_run:
  assumes "record_of (demo_msg ''1'' (demo_held ''h1'')) \<in> B"
  shows "\<exists>x y r. demo_reach B x \<and> service_steps demo_lib demo_enc (\<lambda>t. t) B False x y \<and>
    row_message r = demo_msg ''1'' (demo_held ''h1'') \<and> outbox (fst x) = [r] \<and> ob_published_at r = None \<and>
    outbox (fst y) = [r\<lparr>ob_published_at := Some 1000\<rparr>]"
proof -
  let ?m = "demo_msg ''1'' (demo_held ''h1'')"
  obtain db :: database and n where db: "demo_reach B (state_of db)" "outbox (tbl db) = outbox_rows n [?m]"
    using demo_held_step by blast
  let ?row = "hd (outbox_rows n [?m])"
  have row: "outbox (tbl db) = [?row]" "row_message ?row = ?m" "ob_published_at ?row = None"
    using db(2) by (simp_all add: row_message_def)
  have cl: "claimSQL nobody (tbl db) = [?row]" using row by (simp add: claimSQL_def nobody_def BatchSize_def)
  obtain db' where dr: "Drain (Publish (\<lambda>_. Acked)) calm_env nobody (db, []) = (Inr 1, db', [] @ [record_of ?m])"
    and t: "tbl db' = snd (markSQL calm_env (map ob_id [?row]) (tbl db))"
    using quiet_Drain [where pub = "Publish (\<lambda>_. Acked)" and locked = nobody and db = db and b = "[]", OF quiet_calm_env]
      Publish_all_acked [of "[?m]" "[]"] row(2) unfolding cl by auto
  have "service_step demo_lib demo_enc (\<lambda>t. t) B False (state_of db) (state_of db')"
    using rely_calm server_demo dr by (rule service_intros(3)) (use assms in simp)
  moreover have "outbox (tbl db') = [?row\<lparr>ob_published_at := Some 1000\<rparr>]"
    unfolding t by (simp add: markSQL_def row(1)) (simp add: calm_env_def)
  ultimately show ?thesis
    using db(1) row
    by (intro exI [of _ "state_of db"] exI [of _ "state_of db'"] exI [of _ ?row]) (simp add: service_steps_one)
qed

end
