(* ===== verification/Delivery.thy ===== *)
theory Delivery
  imports Scenario
begin

text \<open>
  The outbox in every run of the service, with any number of pollers: a row is marked or pruned only
  when its record is on the broker, a row that waits is not lost, and every event that was committed
  has its announcement in the outbox or on the broker.
\<close>

section \<open>Nothing that waits is lost\<close>

definition published_ok :: "krecord set \<Rightarrow> tables \<Rightarrow> bool" where
  "published_ok B T \<longleftrightarrow>
     (\<forall>r \<in> set (outbox T). ob_published_at r \<noteq> None \<longrightarrow> record_of (row_message r) \<in> B)"

definition nothing_lost :: "krecord set \<Rightarrow> tables \<Rightarrow> tables \<Rightarrow> bool" where
  "nothing_lost B T T' \<longleftrightarrow>
     (\<forall>r \<in> set (outbox T). record_of (row_message r) \<in> B \<or>
        (\<exists>r' \<in> set (outbox T'). ob_id r' = ob_id r \<and> row_message r' = row_message r))"

definition delivery_ok :: "krecord set \<Rightarrow> state \<Rightarrow> bool" where
  "delivery_ok B x \<longleftrightarrow> schema_ok x \<and> published_ok B (fst x)"

definition delivery_law :: "krecord set \<Rightarrow> state \<Rightarrow> state \<Rightarrow> bool" where
  "delivery_law B x y \<longleftrightarrow> (delivery_ok B x \<longrightarrow> delivery_ok B y \<and> nothing_lost B (fst x) (fst y))"

lemma nothing_lost_refl: "nothing_lost B T T"
  by (auto simp: nothing_lost_def)

lemma nothing_lost_trans:
  assumes "nothing_lost B T U" "nothing_lost B U V"
  shows "nothing_lost B T V"
  unfolding nothing_lost_def
proof
  fix r
  assume "r \<in> set (outbox T)"
  then consider "record_of (row_message r) \<in> B"
    | r1 where "r1 \<in> set (outbox U)" "ob_id r1 = ob_id r" "row_message r1 = row_message r"
    using assms(1) unfolding nothing_lost_def by blast
  then show "record_of (row_message r) \<in> B \<or>
      (\<exists>r' \<in> set (outbox V). ob_id r' = ob_id r \<and> row_message r' = row_message r)"
    using assms(2) unfolding nothing_lost_def by (cases; metis)
qed

lemma delivery_law_refl: "delivery_law B x x"
  by (simp add: delivery_law_def nothing_lost_refl)

lemma delivery_law_trans: "delivery_law B x y \<Longrightarrow> delivery_law B y z \<Longrightarrow> delivery_law B x z"
  unfolding delivery_law_def using nothing_lost_trans by blast

text \<open>A statement that leaves the outbox alone, and those that do not.\<close>

lemma delivery_same:
  assumes "schema_law (T, S) (T', S')" "outbox T' = outbox T"
  shows "delivery_law B (T, S) (T', S')"
  using assms by (auto simp: delivery_law_def delivery_ok_def schema_law_def published_ok_def nothing_lost_def)

lemma delivery_enqueue:
  assumes "validate_messages 0 ms = None" "enqueueSQL ms T S = (Inr (x, T'), S')"
  shows "delivery_law B (T, S) (T', S')"
proof -
  have "outbox T' = outbox T @ outbox_rows (outbox_seq S) ms" using assms(2) by (auto simp: enqueueSQL_def)
  then show ?thesis using schema_enqueue [OF assms] outbox_rows_unpublished
    by (auto simp: delivery_law_def delivery_ok_def schema_law_def published_ok_def nothing_lost_def)
qed

lemma delivery_prune: "delivery_law B (T, S) (snd (outbox_pruneSQL e d T), S)"
proof -
  have "record_of (row_message r) \<in> B \<or> r \<in> set (outbox (snd (outbox_pruneSQL e d T)))"
    if "published_ok B T" "r \<in> set (outbox T)" for r
    using that by (auto simp: published_ok_def outbox_pruneSQL_def outbox_prunable_def split: option.splits)
  moreover have "set (outbox (snd (outbox_pruneSQL e d T))) \<subseteq> set (outbox T)"
    by (simp add: outbox_pruneSQL_def)
  ultimately show ?thesis using schema_deletes(2) [of T S e d]
    by (simp add: delivery_law_def delivery_ok_def schema_law_def nothing_lost_def) (metis published_ok_def subsetD)
qed

lemma nothing_lost_mark: "nothing_lost B T (snd (markSQL e is T))"
  by (rule markSQL_map [of e "is" T]) (auto simp: nothing_lost_def)

text \<open>
  The mark of the poller: between the claim and the mark others commit, but the ids it marks still
  stand for the messages it claimed, and those are on the broker.
\<close>

lemma delivery_mark:
  assumes "schema_ok (T1, S1)" "schema_law (T1, S1) (T2, S2)" "set is \<subseteq> ob_id ` set (outbox T1)"
    and "\<And>r. r \<in> set (outbox T1) \<Longrightarrow> ob_id r \<in> set is \<Longrightarrow> record_of (row_message r) \<in> B"
  shows "delivery_law B (T2, S2) (snd (markSQL e is T2), S2)"
proof -
  obtain f where f: "snd (markSQL e is T2) = T2\<lparr>outbox := map f (outbox T2)\<rparr>"
    "\<forall>r. row_message (f r) = row_message r \<and> ob_id (f r) = ob_id r"
    "\<forall>r. ob_published_at (f r) \<noteq> None \<longrightarrow> ob_id r \<in> set is \<or> ob_published_at r \<noteq> None"
    by (rule markSQL_map)
  have kept: "rows_kept (T1, S1) (T2, S2)" using assms(1,2) by (simp add: schema_law_def)
  have marked: "record_of (row_message r) \<in> B" if r: "r \<in> set (outbox T2)" "ob_id r \<in> set is" for r
  proof -
    have "ob_id r \<le> outbox_seq S1"
      using r(2) assms(1,3) by (auto simp: schema_ok_def outbox_wf_def list_all_iff)
    then obtain r1 where "r1 \<in> set (outbox T1)" "ob_id r1 = ob_id r" "row_message r1 = row_message r"
      using rows_kept_outboxD [OF kept, of r] r(1) by auto
    then show ?thesis using assms(4) [of r1] r(2) by simp
  qed
  have "published_ok B (snd (markSQL e is T2))" if "published_ok B T2"
    using that f marked by (fastforce simp: published_ok_def)
  then show ?thesis using schema_mark [of T2 S2 e "is"] nothing_lost_mark
    by (auto simp: delivery_law_def delivery_ok_def schema_law_def)
qed

lemma claimed_batch:
  assumes "distinct (outbox_ids T)" "r \<in> set (outbox T)" "ob_id r \<in> set (map ob_id (claimSQL locked T))"
  shows "r \<in> set (claimSQL locked T)"
proof -
  from assms(3) obtain c where c: "c \<in> set (claimSQL locked T)" "ob_id r = ob_id c" by auto
  then have "c \<in> set (outbox T)" using claimSQL_rows by blast
  then have "r = c" using distinct_id_eq [OF assms(1,2)] c(2) by blast
  then show ?thesis using c(1) by simp
qed

interpretation delivery: statement_law "delivery_law B" for B
proof (unfold_locales, goal_cases)
  case (4 c s i T S e)
  then show ?case by (intro delivery_same schema_consume) (simp_all add: inbox_markSQL_frame [OF refl])
next
  case (5 e fa s k T S x T' S')
  then show ?case by (intro delivery_same schema_schedule) (auto simp: scheduleSQL_def)
qed (auto intro: delivery_law_refl delivery_law_trans delivery_same schema_law_drawn delivery_enqueue)

lemma delivery_append:
  assumes "append_columns 0 evs = Inr cs" "appendSQL e s v cs T S = (Inr (x, T'), S')"
  shows "delivery_law B (T, S) (T', S')"
  using assms by (intro delivery_same schema_append) (auto elim: appendSQL_okD)

lemma delivery_AppendSeat:
  assumes "AppendSeat L e s v evts meta t = (r, t')" "rely (delivery_law B) e"
  shows "delivery_law B (view t, seqs t) (view t', seqs t')"
  by (rule keeps_stateD [OF delivery.keeps_AppendSeat [OF assms(2) delivery_append] assms(1)])

lemma delivery_drain:
  assumes "rely schema_law e" "rely (delivery_law B) e" "claim e locked (begin_tx db) = (Inr batch, t1)"
    and "record_of ` set (messages_of batch) \<subseteq> B"
    and "exec e (update_stmt (markSQL e (ids_of batch))) t1 = (Inr (), t)"
  shows "delivery_law B (state_of db) (view t, seqs t)"
proof (cases "delivery_ok B (state_of db)")
  case True
  note mt = marked_tables [OF assms(3,5)]
  let ?T1 = "view t1" and ?S1 = "seqs t1"
  let ?T2 = "others e (stmts t1) ?S1 ?T1" and ?S2 = "others_seq e (stmts t1) ?S1"
  have one: "delivery_law B (state_of db) (?T1, ?S1)" "delivery_law B (?T1, ?S1) (?T2, ?S2)"
    unfolding mt(4,5) by (rule relyD [OF assms(2)])+
  then have ok: "schema_ok (?T1, ?S1)" using True by (simp add: delivery_law_def delivery_ok_def)
  have "record_of (row_message r) \<in> B" if "r \<in> set (outbox ?T1)" "ob_id r \<in> set (ids_of batch)" for r
  proof -
    have "distinct (outbox_ids ?T1)" using ok by (simp add: schema_ok_def outbox_wf_def)
    then have "r \<in> set (claimSQL locked ?T1)" using claimed_batch that unfolding mt(3) by blast
    then show ?thesis using assms(4) unfolding mt(2) by auto
  qed
  moreover have "set (ids_of batch) \<subseteq> ob_id ` set (outbox ?T1)"
    using claimSQL_rows [of locked ?T1] unfolding mt(3) by auto
  ultimately have "delivery_law B (?T2, ?S2) (snd (markSQL e (ids_of batch) ?T2), ?S2)"
    by (intro delivery_mark [OF ok relyD [OF assms(1)]])
  then show ?thesis using one unfolding mt(6,7) by (blast intro: delivery_law_trans)
qed (simp add: delivery_law_def)

interpretation delivery_service: service_law "delivery_law B" L enc tz B rb for L enc tz B rb
proof (unfold_locales, goal_cases)
  case (1 e cmd s ids inc db t)
  then show ?case using delivery.applyCommand_law [OF 1(2,5)] delivery_AppendSeat by force
next
  case (2 e row T0 S0 db ids claimed t)
  have "delivery_law B (T, S) (snd (markFiredSQL e i T), S)" for T S i
    by (intro delivery_same schema_mark_fired) simp
  then have "delivery_law B (state_of db) (view t, seqs t)"
    using delivery.claimAndFire_law [OF 2(2,6)] delivery_AppendSeat 2(2) by force
  with 2(5) show ?case by (rule delivery_law_trans)
next
  case (3 e locked db batch t1 t)
  from service_rely_schema [OF 3(1)] 3(2,4-6) show ?case by (rule delivery_drain)
next
  case (4 e s t0 t)
  have "delivery_law B (T, S) (snd (upsertAvailabilitySQL new T), S)" for T S new
    by (intro delivery_same schema_upsert) (simp add: upsertAvailabilitySQL_def)
  then show ?case using keeps_stateD [OF delivery.keeps_project [OF 4(2)] 4(4)] by simp
next
  case (5 T S)
  show ?case by (intro delivery_same schema_deletes) (simp add: clearSQL_def)
next
  case (6 T S e d)
  show ?case by (rule delivery_prune)
next
  case (7 T S e d)
  show ?case by (intro delivery_same schema_deletes) (simp add: timers_pruneSQL_def)
next
  case (8 T S e d)
  show ?case by (intro delivery_same schema_deletes) (simp add: inbox_pruneSQL_def)
qed

section \<open>What is owed to the outbox\<close>

text \<open>
  Some rows are written together with a message that has to go out: a stored event with its
  announcement, a consumed command with its answer. \<open>dues\<close> are those rows, and \<open>meets\<close> says which
  message will do; a due is met when such a message is in the outbox or on the broker. The law says
  that no step leaves a new due unmet, up to the dues \<open>X\<close> of the transaction under way.
\<close>

definition met :: "('k \<Rightarrow> Message \<Rightarrow> bool) \<Rightarrow> krecord set \<Rightarrow> tables \<Rightarrow> 'k \<Rightarrow> bool" where
  "met meets B T k \<longleftrightarrow> (\<exists>r \<in> set (outbox T). meets k (row_message r)) \<or> (\<exists>m. record_of m \<in> B \<and> meets k m)"

definition owed_upto ::
  "(tables \<Rightarrow> 'k set) \<Rightarrow> ('k \<Rightarrow> Message \<Rightarrow> bool) \<Rightarrow> krecord set \<Rightarrow> 'k set \<Rightarrow> state \<Rightarrow> state \<Rightarrow> bool" where
  "owed_upto dues meets B X x y \<longleftrightarrow>
     (delivery_ok B x \<longrightarrow> delivery_ok B y \<and> nothing_lost B (fst x) (fst y) \<and>
        (\<forall>k \<in> dues (fst y). k \<in> dues (fst x) \<or> met meets B (fst y) k \<or> k \<in> X))"

lemma met_kept: "nothing_lost B T T' \<Longrightarrow> met meets B T k \<Longrightarrow> met meets B T' k"
  unfolding met_def nothing_lost_def by metis

lemma owed_upto_trans:
  assumes "owed_upto dues meets B X x y" "owed_upto dues meets B Y y z"
  shows "owed_upto dues meets B (X \<union> Y) x z"
proof (cases "delivery_ok B x")
  case True
  have xy: "delivery_ok B y" "nothing_lost B (fst x) (fst y)"
    "\<forall>k \<in> dues (fst y). k \<in> dues (fst x) \<or> met meets B (fst y) k \<or> k \<in> X"
    using assms(1) True by (simp_all add: owed_upto_def)
  have yz: "delivery_ok B z" "nothing_lost B (fst y) (fst z)"
    "\<forall>k \<in> dues (fst z). k \<in> dues (fst y) \<or> met meets B (fst z) k \<or> k \<in> Y"
    using assms(2) xy(1) by (simp_all add: owed_upto_def)
  have "k \<in> dues (fst x) \<or> met meets B (fst z) k \<or> k \<in> X \<union> Y" if "k \<in> dues (fst z)" for k
  proof -
    from yz(3) that consider "k \<in> dues (fst y)" | "met meets B (fst z) k" | "k \<in> Y" by auto
    then show ?thesis using xy(3) met_kept [OF yz(2), of meets k] by cases auto
  qed
  then show ?thesis using yz(1) nothing_lost_trans [OF xy(2) yz(2)] by (simp add: owed_upto_def)
qed (simp add: owed_upto_def)

lemma owed_upto_same:
  assumes "delivery_law B (T, S) (T', S')" "dues T' \<subseteq> dues T \<union> X"
  shows "owed_upto dues meets B X (T, S) (T', S')"
  using assms by (auto simp: owed_upto_def delivery_law_def)

lemma owed_upto_done:
  assumes "owed_upto dues meets B X x y" "delivery_ok B x \<Longrightarrow> X \<subseteq> {k. met meets B (fst y) k}"
  shows "owed_upto dues meets B {} x y"
  using assms by (auto simp: owed_upto_def)

lemma rely_owed_delivery: "rely (owed_upto dues meets B {}) e \<Longrightarrow> rely (delivery_law B) e"
  by (erule rely_mono) (auto simp: owed_upto_def delivery_law_def)

interpretation owing: table_law "owed_upto dues meets B {}" for dues meets B
proof (unfold_locales, goal_cases)
  case (1 x)
  show ?case by (auto simp: owed_upto_def nothing_lost_refl)
next
  case (2 x y z)
  then show ?case using owed_upto_trans [of dues meets B "{}" x y "{}" z] by simp
next
  case (3 S S' T)
  then show ?case by (intro owed_upto_same delivery.law_drawn) simp_all
qed

text \<open>The mark of a poller, for dues it does not touch.\<close>

lemma owed_drain:
  assumes "rely schema_law e" "rely (owed_upto dues meets B {}) e" "claim e locked (begin_tx db) = (Inr batch, t1)"
    and "record_of ` set (messages_of batch) \<subseteq> B"
    and "exec e (update_stmt (markSQL e (ids_of batch))) t1 = (Inr (), t)"
    and "\<And>is T. dues (snd (markSQL e is T)) = dues T"
  shows "owed_upto dues meets B {} (state_of db) (view t, seqs t)"
proof -
  note mt = marked_tables [OF assms(3,5)]
  let ?T2 = "others e (stmts t1) (seqs t1) (view t1)" and ?S2 = "others_seq e (stmts t1) (seqs t1)"
  have one: "owed_upto dues meets B {} (state_of db) (?T2, ?S2)"
    using relyD [OF assms(2)] unfolding mt(4,5) by (rule owing.law_trans) (rule relyD [OF assms(2)])
  have "delivery_law B (state_of db) (view t, seqs t)"
    using assms(1) rely_owed_delivery [OF assms(2)] assms(3-5) by (rule delivery_drain)
  moreover have "dues (view t) = dues ?T2" unfolding mt(6) by (rule assms(6))
  moreover have "nothing_lost B ?T2 (view t)" unfolding mt(6) by (rule nothing_lost_mark)
  ultimately show ?thesis
    using one met_kept [of B ?T2 "view t" meets] by (simp add: owed_upto_def delivery_law_def) metis
qed

section \<open>Every event is announced\<close>

text \<open>
  The message that announces an event: on the events topic, keyed by the seat, with the event's type,
  its payload the wire form of the message the stored event decodes to.
\<close>

definition announces :: "protolib \<Rightarrow> encoder \<Rightarrow> event_row \<Rightarrow> Message \<Rightarrow> bool" where
  "announces L enc ev m \<longleftrightarrow>
     msg_Topic m = EventsTopic \<and> msg_Key m = ev_stream_id ev \<and>
     (case Decode L (rec_Event (recorded (ev_stream_id ev) ev)) of
        Inl _ \<Rightarrow> False
      | Inr msg \<Rightarrow> enc msg = Inr (msg_Payload m) \<and> map_get (msg_Headers m) ''ce_type'' = TypeName msg)"

abbreviation announced :: "protolib \<Rightarrow> encoder \<Rightarrow> krecord set \<Rightarrow> tables \<Rightarrow> event_row \<Rightarrow> bool" where
  "announced L enc \<equiv> met (announces L enc)"

abbreviation announced_upto ::
  "protolib \<Rightarrow> encoder \<Rightarrow> krecord set \<Rightarrow> event_row set \<Rightarrow> state \<Rightarrow> state \<Rightarrow> bool" where
  "announced_upto L enc \<equiv> owed_upto (\<lambda>T. set (events T)) (announces L enc)"

abbreviation announce_law :: "protolib \<Rightarrow> encoder \<Rightarrow> krecord set \<Rightarrow> state \<Rightarrow> state \<Rightarrow> bool" where
  "announce_law L enc B \<equiv> announced_upto L enc B {}"

lemma announced_upto_same:
  assumes "delivery_law B (T, S) (T', S')" "events T' = events T"
  shows "announced_upto L enc B X (T, S) (T', S')"
  using assms by (intro owed_upto_same) simp_all

interpretation announce: statement_law "announce_law L enc B" for L enc B
proof (unfold_locales, goal_cases)
  case (1 c s i T S e)
  then show ?case by (intro announced_upto_same delivery.consume_stmt) (simp_all add: inbox_markSQL_frame [OF refl])
next
  case (2 e fa s k T S x T' S')
  then show ?case by (intro announced_upto_same delivery.schedule_stmt) (auto simp: scheduleSQL_def)
next
  case (3 ms T S x T' S')
  then show ?case by (intro announced_upto_same delivery.enqueue_stmt) (auto simp: enqueueSQL_def)
qed

lemma append_announced_upto:
  assumes "rely (announce_law L enc B) e" "codec_ok L e" "list_all is_seat_event evts"
    and "AppendSeat L e s v evts meta t = (Inr x, t')"
  obtains X where "announced_upto L enc B X (view t, seqs t) (view t', seqs t')"
    and "\<forall>ev \<in> X. ev_stream_id ev = s \<and> (\<exists>m \<in> set evts. Decode L (rec_Event (recorded s ev)) = Inr m)"
  using assms(4)
proof (cases rule: AppendSeat_ok_cases)
  case none
  then show ?thesis
    using that [of "{}"] owing.law_refl [of "\<lambda>T. set (events T)" "announces L enc" B "(view t, seqs t)"] by simp
next
  case (appended stored cs cs')
  let ?U = "others e (stmts t) (seqs t) (view t)" and ?V = "others_seq e (stmts t) (seqs t)"
  let ?X = "append_rows e s v (events_seq ?V) cs'"
  have "announced_upto L enc B (set ?X) (?U, ?V) (view t', seqs t')"
    using delivery_append [OF appended(3,5)] by (auto simp: owed_upto_def delivery_law_def appended(6))
  then have "announced_upto L enc B ({} \<union> set ?X) (view t, seqs t) (view t', seqs t')"
    using relyD [OF assms(1)] by (rule owed_upto_trans [rotated])
  moreover have "decode_all L s (map (recorded s) ?X) = Inr evts"
    by (rule decode_appended [OF assms(2,3) appended(2-4)])
  then have "\<exists>m \<in> set evts. Decode L (rec_Event (recorded s ev)) = Inr m" if "ev \<in> set ?X" for ev
    using that by (rule decode_all_mem)
  ultimately show ?thesis using that [of "set ?X"] append_rows_stream by auto
qed

text \<open>The messages of a decision, once enqueued, announce its events.\<close>

lemma enqueue_announces:
  assumes "rely (announce_law L enc B) e" "outgoing enc ids ms tmpl = Inr msgs" "env_Subject tmpl = s"
    and "Enqueue e msgs t = (Inr (), t')" "set evts \<subseteq> set ms" "delivery_ok B (view t, seqs t)"
    and "ev_stream_id ev = s" "m \<in> set evts" "Decode L (rec_Event (recorded s ev)) = Inr m"
  shows "announced L enc B (view t') ev"
  using assms(4)
proof (cases rule: Enqueue_ok_cases)
  case none
  then show ?thesis using outgoing_mem [OF assms(2), of m] assms(5,8) by auto
next
  case (enqueued t1)
  obtain o' where o': "o' \<in> set msgs" "msg_Topic o' = EventsTopic" "msg_Key o' = s" "enc m = Inr (msg_Payload o')"
    "map_get (msg_Headers o') ''ce_type'' = TypeName m"
    using outgoing_mem [OF assms(2), of m] assms(3,5,8) by blast
  then have "announces L enc ev o'" using assms(7,9) by (simp add: announces_def)
  then have "announced L enc B (view t1) ev" using o'(1) enqueued(4) by (auto simp: met_def)
  moreover have "announce_law L enc B (view t, seqs t) (view t1, seqs t1)"
    by (rule owing.exec_law [OF assms(1) draws_enqueueSQL enqueued(1)]) (rule announce.enqueue_stmt [OF enqueued(3)])
  moreover have "announce_law L enc B (view t1, seqs t1) (view t', seqs t')"
    using keeps_stateD [OF owing.keeps_pg_notify [OF assms(1)] enqueued(2)] .
  ultimately show ?thesis using assms(6) met_kept by (auto simp: owed_upto_def)
qed

text \<open>Append, then whatever obeys the law, then enqueue: by the end the events are announced.\<close>

lemma announce_decision:
  assumes "rely (announce_law L enc B) e" "codec_ok L e" "list_all is_seat_event evts"
    and "AppendSeat L e s v evts meta t2 = (Inr x, t3)"
    and "announce_law L enc B (view t3, seqs t3) (view t4, seqs t4)"
    and "outgoing enc ids ms tmpl = Inr msgs" "env_Subject tmpl = s" "set evts \<subseteq> set ms"
    and "Enqueue e msgs t4 = (Inr (), t)"
  shows "announce_law L enc B (view t2, seqs t2) (view t, seqs t)"
proof -
  obtain X where X: "announced_upto L enc B X (view t2, seqs t2) (view t3, seqs t3)"
    "\<forall>ev \<in> X. ev_stream_id ev = s \<and> (\<exists>m \<in> set evts. Decode L (rec_Event (recorded s ev)) = Inr m)"
    by (rule append_announced_upto [OF assms(1-4)])
  have upto: "announced_upto L enc B X (view t2, seqs t2) (view t4, seqs t4)"
    using owed_upto_trans [OF X(1) assms(5)] by simp
  show ?thesis
  proof (rule owed_upto_done)
    show "announced_upto L enc B X (view t2, seqs t2) (view t, seqs t)"
      using owed_upto_trans [OF upto announce.enqueued_law [OF assms(9,1)]] by simp
    assume "delivery_ok B (view t2, seqs t2)"
    then have ok: "delivery_ok B (view t4, seqs t4)" using upto by (simp add: owed_upto_def)
    have "announced L enc B (view t) ev" if "ev \<in> X" for ev
      using X(2) that enqueue_announces [OF assms(1,6,7,9,8) ok] by blast
    then show "X \<subseteq> {ev. announced L enc B (fst (view t, seqs t)) ev}" by auto
  qed
qed

lemma announce_command:
  assumes "rely (announce_law L enc B) e" "codec_ok L e"
    and "applyCommand L enc e ids inc cmd s t0 = (Inr (), t)"
  shows "announce_law L enc B (view t0, seqs t0) (view t, seqs t)"
  using assms(3)
proof (cases rule: applyCommand_ok_cases)
  case again
  then show ?thesis using announce.consumed_law assms(1) by blast
next
  case (applied st m out msgs t1 t2 t3 t4)
  have evs: "list_all is_seat_event (out_Events out)"
    using Decide_events(1) [OF applied(3)] applied(2) Fold_wf by (auto simp: LoadSeat_def bindE_eq_Inr_iff dest: sym)
  have "announce_law L enc B (view t0, seqs t0) (view t2, seqs t2)"
    using announce.consumed_law [OF applied(1) assms(1)] owing.loaded_law [OF applied(2) assms(1)]
    by (rule owing.law_trans)
  also have "announce_law L enc B (view t2, seqs t2) (view t, seqs t)"
    using announce_decision [OF assms(1,2) evs applied(4) announce.scheduled_law [OF applied(5) assms(1)] applied(6)]
      applied(7) by (simp add: reply_envelope_def Messages_def)
  finally (owing.law_trans) show ?thesis .
qed

lemma announce_fire:
  assumes "rely (announce_law L enc B) e" "codec_ok L e"
    and "claimAndFire (Fire L enc ids) e tm t0 = (Inr claimed, t)"
  shows "announce_law L enc B (view t0, seqs t0) (view t, seqs t)"
proof -
  have fired: "announce_law L enc B (T, S) (snd (markFiredSQL e i T), S)" for T S i
    by (intro announced_upto_same delivery_same schema_mark_fired) simp_all
  have mark: "announce_law L enc B (view t0, seqs t0) (view t1, seqs t1)" if "MarkFired e (tr_ID tm) t0 = (r, t1)" for r t1
    using keeps_stateD [OF owing.keeps_MarkFired [OF assms(1) fired] that] .
  show ?thesis
    using assms(3)
  proof (cases rule: claimAndFire_ok_cases)
    case lost
    then show ?thesis by (rule mark)
  next
    case (stale st m t1)
    then show ?thesis using mark owing.loaded_law assms(1) by (blast intro: owing.law_trans)
  next
    case (expired st m out msgs t1 t2 t3)
    have "list_all is_seat_event (out_Events out)" by (auto simp: expired(3) outcome_defs)
    from announce_decision [OF assms(1,2) this expired(5) owing.law_refl expired(6)]
    have "announce_law L enc B (view t2, seqs t2) (view t, seqs t)"
      using expired(7) by (simp add: expiry_envelope_def Messages_def)
    then show ?thesis
      using mark [OF expired(1)] owing.loaded_law [OF expired(2) assms(1)] by (blast intro: owing.law_trans)
  qed
qed

interpretation announce_service: service_law "announce_law L enc B" L enc tz B rb for L enc tz B rb
proof (unfold_locales, goal_cases)
  case (1 e cmd s ids inc db t)
  then show ?case using announce_command [OF 1(2) _ 1(5)] by (simp add: server_def)
next
  case (2 e row T0 S0 db ids claimed t)
  then have "announce_law L enc B (state_of db) (view t, seqs t)"
    using announce_fire [OF 2(2) _ 2(6)] by (simp add: server_def)
  with 2(5) show ?case by (rule owing.law_trans)
next
  case (3 e locked db batch t1 t)
  from service_rely_schema [OF 3(1)] 3(2,4-6) show ?case by (rule owed_drain) (simp add: markSQL_def)
next
  case (4 e s t0 t)
  have "announce_law L enc B (T, S) (snd (upsertAvailabilitySQL new T), S)" for T S new
    by (intro announced_upto_same delivery_same schema_upsert) (simp_all add: upsertAvailabilitySQL_def)
  then show ?case using keeps_stateD [OF owing.keeps_project [OF 4(2)] 4(4)] by simp
next
  case (5 T S)
  show ?case by (intro announced_upto_same delivery_same schema_deletes) (simp_all add: clearSQL_def)
next
  case (6 T S e d)
  show ?case by (intro announced_upto_same delivery_prune) (simp add: outbox_pruneSQL_def)
next
  case (7 T S e d)
  show ?case by (intro announced_upto_same delivery_same schema_deletes) (simp_all add: timers_pruneSQL_def)
next
  case (8 T S e d)
  show ?case by (intro announced_upto_same delivery_same schema_deletes) (simp_all add: inbox_pruneSQL_def)
qed

section \<open>Properties\<close>

lemma reachable_announced:
  assumes "reachable L enc tz B rb x"
  shows "delivery_ok B x \<and> (\<forall>ev \<in> set (events (fst x)). announced L enc B (fst x) ev)"
proof -
  have "delivery_ok B (state_of empty_db)"
    using reachable_schema [OF reachable_start]
    by (simp add: delivery_ok_def) (simp add: published_ok_def empty_db_def empty_tables_def)
  then show ?thesis
    using announce_service.service_obeys(2) [OF assms [unfolded reachable_def]]
    by (auto simp: owed_upto_def) (simp add: empty_db_def empty_tables_def)
qed

text \<open>
  C4. Every event is announced: in every state the service can reach, by any number of instances, for
  every event of every stream there is a message in the outbox or on the broker, on the events topic,
  keyed by the seat and typed as the event, whose payload is the wire form of what the stored event
  decodes to.
\<close>

theorem events_are_announced:
  assumes "reachable L enc tz B rb (T, S)" "ev \<in> set (events T)"
  shows "\<exists>m msg. ((\<exists>r \<in> set (outbox T). row_message r = m) \<or> record_of m \<in> B) \<and>
    msg_Topic m = EventsTopic \<and> msg_Key m = ev_stream_id ev \<and>
    Decode L \<lparr>es_Type = ev_type ev, es_Data = ev_data ev, es_Meta = Meta_unmarshal (ev_meta ev)\<rparr> = Inr msg \<and>
    enc msg = Inr (msg_Payload m) \<and> map_get (msg_Headers m) ''ce_type'' = TypeName msg"
proof -
  have "announced L enc B T ev" using reachable_announced [OF assms(1)] assms(2) by simp
  then obtain m where m: "(\<exists>r \<in> set (outbox T). row_message r = m) \<or> record_of m \<in> B" "announces L enc ev m"
    unfolding met_def by blast
  from m(2) obtain msg where "Decode L (rec_Event (recorded (ev_stream_id ev) ev)) = Inr msg"
    "msg_Topic m = EventsTopic" "msg_Key m = ev_stream_id ev" "enc msg = Inr (msg_Payload m)"
    "map_get (msg_Headers m) ''ce_type'' = TypeName msg"
    unfolding announces_def by (cases "Decode L (rec_Event (recorded (ev_stream_id ev) ev))") simp_all
  with m(1) show ?thesis by (intro exI [of _ m] exI [of _ msg]) (simp add: rec_Event_recorded)
qed

theorem events_are_announced_witness:
  "\<exists>T S ev m. demo_reach {} (T, S) \<and> ev \<in> set (events T) \<and> m \<in> row_message ` set (outbox T) \<and>
     msg_Key m = ev_stream_id ev"
proof -
  obtain db :: database where db: "demo_reach {} (state_of db)" "seat_messages demo_lib (tbl db) ''14A'' = Inr [demo_held ''h1'']"
    using demo_held_step by blast
  then obtain ev where "ev \<in> set (events (tbl db))"
    by (cases "events (tbl db)") (auto simp: seat_messages_def stream_rows_def)
  moreover from events_are_announced [OF db(1) this]
  obtain m where "m \<in> row_message ` set (outbox (tbl db))" "msg_Key m = ev_stream_id ev" by auto
  ultimately show ?thesis using db(1) by (intro exI conjI)
qed

text \<open>
  C7. Nothing is lost and nothing is marked early, with any number of pollers racing and any of them
  failing anywhere: in every reachable state each row marked as published is on the broker, and from
  there on a row of the outbox is either still in the outbox, as the same message, or on the broker.
\<close>

theorem outbox_loses_nothing:
  assumes "reachable L enc tz B rb (T, S)" "service_steps L enc tz B rb (T, S) (T', S')" "r \<in> set (outbox T)"
  shows "(ob_published_at r \<noteq> None \<longrightarrow> record_of (row_message r) \<in> B) \<and>
    (record_of (row_message r) \<in> B \<or>
     (\<exists>r' \<in> set (outbox T'). ob_id r' = ob_id r \<and> row_message r' = row_message r \<and> ob_published_at r' = None))"
proof -
  have ok: "delivery_ok B (T, S)" "delivery_ok B (T', S')"
    using reachable_announced assms(1) reachable_steps [OF assms(1,2)] by blast+
  have "nothing_lost B T T'"
    using delivery_service.service_obeys(2) [OF assms(2)] ok(1) by (simp add: delivery_law_def)
  then consider "record_of (row_message r) \<in> B"
    | r' where "r' \<in> set (outbox T')" "ob_id r' = ob_id r" "row_message r' = row_message r"
    using assms(3) unfolding nothing_lost_def by blast
  then have "record_of (row_message r) \<in> B \<or>
      (\<exists>r' \<in> set (outbox T'). ob_id r' = ob_id r \<and> row_message r' = row_message r \<and> ob_published_at r' = None)"
  proof cases
    case (2 r')
    have "record_of (row_message r') \<in> B" if "ob_published_at r' \<noteq> None"
      using ok(2) 2(1) that by (simp add: delivery_ok_def published_ok_def)
    then show ?thesis using 2 by (cases "ob_published_at r' = None") auto
  qed simp
  moreover have "ob_published_at r \<noteq> None \<longrightarrow> record_of (row_message r) \<in> B"
    using ok(1) assms(3) by (simp add: delivery_ok_def published_ok_def)
  ultimately show ?thesis by (rule conjI [rotated])
qed

theorem outbox_loses_nothing_witness:
  "\<exists>x y r. demo_reach {record_of (demo_msg ''1'' (demo_held ''h1''))} x \<and>
     service_steps demo_lib demo_enc (\<lambda>t. t) {record_of (demo_msg ''1'' (demo_held ''h1''))} False x y \<and>
     outbox (fst y) = [r] \<and> ob_published_at r = Some 1000 \<and>
     record_of (row_message r) \<in> {record_of (demo_msg ''1'' (demo_held ''h1''))}"
proof -
  let ?B = "{record_of (demo_msg ''1'' (demo_held ''h1''))}"
  obtain x y r where run: "demo_reach ?B x" "service_steps demo_lib demo_enc (\<lambda>t. t) ?B False x y"
    "outbox (fst y) = [r\<lparr>ob_published_at := Some 1000\<rparr>]"
    using demo_drained_run [of ?B] by auto
  let ?r = "r\<lparr>ob_published_at := Some 1000\<rparr>"
  have "demo_reach ?B (fst y, snd y)" using reachable_steps [OF run(1,2)] by simp
  from outbox_loses_nothing [OF this service_intros(10), of ?r] run(3)
  have "record_of (row_message ?r) \<in> ?B" by simp
  then show ?thesis using run by (intro exI [of _ x] exI [of _ y] exI [of _ ?r]) simp
qed

end
