(* ===== verification/Deadlines.thy ===== *)
theory Deadlines
  imports Delivery
begin

text \<open>
  The timers in every run of the service: a seat that is held has an unfired timer for exactly that
  hold, at the moment it expires. Between the append and the schedule of a command, and between the
  claim and the expiry of a timer, this does not hold; the law is therefore stated hold by hold and up
  to the holds of the transaction under way.
\<close>

section \<open>Every live hold has its deadline armed\<close>

text \<open>The live hold of a seat and when it expires, read from its committed stream.\<close>

definition live_seat :: "protolib \<Rightarrow> tables \<Rightarrow> string \<Rightarrow> (string \<times> time) option" where
  "live_seat L T s =
     (case seat_messages L T s of
        Inl _ \<Rightarrow> None
      | Inr ms \<Rightarrow>
          (case Fold L ms of
             Inl _ \<Rightarrow> None
           | Inr st \<Rightarrow> if ss_Status st = StatusHeld then Some (ss_HoldID st, ss_ExpiresAt st) else None))"

definition armed :: "(time \<Rightarrow> time) \<Rightarrow> tables \<Rightarrow> string \<Rightarrow> string \<times> time \<Rightarrow> bool" where
  "armed tz T s hold \<longleftrightarrow>
     (\<exists>r \<in> set (timers T). tm_subject r = s \<and> tm_token r = fst hold \<and> tm_fire_at r = tz (snd hold) \<and>
        tm_fired_at r = None)"

definition covered :: "protolib \<Rightarrow> (time \<Rightarrow> time) \<Rightarrow> tables \<Rightarrow> string \<Rightarrow> string \<times> time \<Rightarrow> bool" where
  "covered L tz T s hold \<longleftrightarrow> (live_seat L T s = Some hold \<longrightarrow> armed tz T s hold)"

definition sound :: "protolib \<Rightarrow> state \<Rightarrow> bool" where
  "sound L x \<longleftrightarrow> seats_ok L (fst x) \<and> schema_ok x"

text \<open>The law, up to the holds in \<open>X\<close>: whatever was covered stays covered.\<close>

definition covered_upto ::
  "protolib \<Rightarrow> (time \<Rightarrow> time) \<Rightarrow> (string \<times> string \<times> time) set \<Rightarrow> state \<Rightarrow> state \<Rightarrow> bool" where
  "covered_upto L tz X x y \<longleftrightarrow>
     (sound L x \<longrightarrow> sound L y \<and> rows_kept x y \<and>
        (\<forall>s hold. (s, hold) \<notin> X \<longrightarrow> covered L tz (fst x) s hold \<longrightarrow> covered L tz (fst y) s hold))"

abbreviation deadline_law :: "protolib \<Rightarrow> (time \<Rightarrow> time) \<Rightarrow> state \<Rightarrow> state \<Rightarrow> bool" where
  "deadline_law L tz \<equiv> covered_upto L tz {}"

lemma covered_upto_trans:
  "covered_upto L tz X x y \<Longrightarrow> covered_upto L tz Y y z \<Longrightarrow> covered_upto L tz (X \<union> Y) x z"
  unfolding covered_upto_def using rows_kept_trans by blast

lemma covered_upto_done:
  assumes "covered_upto L tz X x y" "\<And>s hold. sound L x \<Longrightarrow> (s, hold) \<in> X \<Longrightarrow> covered L tz (fst y) s hold"
  shows "deadline_law L tz x y"
  using assms unfolding covered_upto_def by blast

lemma live_seat_same: "stream_rows T' s = stream_rows T s \<Longrightarrow> live_seat L T' s = live_seat L T s"
  by (simp add: live_seat_def seat_messages_def)

lemma covered_stmt:
  assumes "schema_law (T, S) (T', S')" "events T' = events T"
    and "\<And>s hold. (s, hold) \<notin> X \<Longrightarrow> armed tz T s hold \<Longrightarrow> armed tz T' s hold"
  shows "covered_upto L tz X (T, S) (T', S')"
proof -
  have rows: "stream_rows T' = stream_rows T" using assms(2) by (rule stream_rows_same_events)
  have "seats_ok L T' = seats_ok L T" using seats_step_same_events [of T' T] seats_step_same_events [of T T'] assms(2)
    by (auto simp: seats_step_def)
  moreover have "live_seat L T' s = live_seat L T s" for s by (rule live_seat_same) (simp add: rows)
  ultimately show ?thesis using assms(1,3) by (auto simp: covered_upto_def sound_def schema_law_def covered_def)
qed

lemma armed_same: "timers T' = timers T \<Longrightarrow> armed tz T' = armed tz T"
  by (simp add: armed_def fun_eq_iff)

lemma covered_same:
  assumes "schema_law (T, S) (T', S')" "events T' = events T" "timers T' = timers T"
  shows "covered_upto L tz X (T, S) (T', S')"
  by (intro covered_stmt assms) (simp add: armed_same [OF assms(3)])

interpretation deadlines: statement_law "deadline_law L tz" for L tz
proof (unfold_locales, goal_cases)
  case (1 x)
  show ?case by (simp add: covered_upto_def rows_kept_refl)
next
  case (2 x y z)
  then show ?case using covered_upto_trans [of L tz "{}" x y "{}" z] by simp
next
  case (3 S S' T)
  then show ?case by (intro covered_same schema_law_drawn) simp_all
next
  case (4 c s i T S e)
  then show ?case by (intro covered_same schema_consume) (simp_all add: inbox_markSQL_frame [OF refl])
next
  case (5 e fa s k T S x T' S')
  then show ?case by (intro covered_stmt schema_schedule) (auto simp: scheduleSQL_def armed_def)
next
  case (6 ms T S x T' S')
  then show ?case by (intro covered_same schema_enqueue) (auto simp: enqueueSQL_def)
qed

lemma sound_steps:
  assumes "rely (deadline_law L tz) e"
  shows "sound L (T, S) \<Longrightarrow> sound L (others e n S T, others_seq e n S)"
  using relyD [OF assms, of T S n] by (simp add: covered_upto_def)

subsection \<open>The append\<close>

lemma sound_seats: "sound L (T, S) \<Longrightarrow> seats_ok L T"
  by (simp add: sound_def)

lemma AppendSeat_spec:
  assumes "seats_ok L (view t)" "rely (streams_law L) e" "codec_ok L e" "list_all is_seat_event evts"
    and "seat_messages L (view t) s = Inr ms" "Fold L ms = Inr st" "live_after (live_hold st) evts \<noteq> None" "evts \<noteq> []"
    and "AppendSeat L e s (ss_Version st) evts meta t = (Inr x, t')"
  defines "U \<equiv> others e (stmts t) (seqs t) (view t)"
  shows "seat_messages L (view t') s = Inr (ms @ evts) \<and>
    (\<forall>s'. s' \<noteq> s \<longrightarrow> stream_rows (view t') s' = stream_rows U s') \<and> timers (view t') = timers U"
  using assms(9)
proof (cases rule: AppendSeat_ok_cases)
  case (appended stored cs cs')
  have step: "seats_step L (view t) U" using relyD [OF assms(2)] by (simp add: U_def streams_law_def)
  note app = seats_step_append [OF assms(1,3,4,8,5-7) appended(2,3) step [unfolded U_def] appended(5)]
  have view: "view t' = U\<lparr>events := events U @ append_rows e s (ss_Version st) (events_seq (others_seq e (stmts t) (seqs t))) cs'\<rparr>"
    using appended(6) by (simp add: U_def)
  have "decode_all L s (map (recorded s) (append_rows e s v g cs')) = Inr evts" for v g
    by (rule decode_appended [OF assms(3,4) appended(2-4)])
  then have "seat_messages L (view t') s = Inr (ms @ evts)"
    using app assms(5) by (simp add: seat_messages_def view stream_rows_append decode_all_append U_def)
  then show ?thesis by (simp add: view stream_rows_append)
qed (use assms(8) in auto)

lemma append_covered_upto:
  assumes "rely (streams_law L) e" "rely (deadline_law L tz) e" "codec_ok L e" "list_all is_seat_event evts"
    and "seat_messages L (view t) s = Inr ms" "Fold L ms = Inr st" "live_after (live_hold st) evts \<noteq> None" "evts \<noteq> []"
    and "AppendSeat L e s (ss_Version st) evts meta t = (Inr x, t')"
  shows "covered_upto L tz {(s, hold) |hold. live_seat L (view t') s = Some hold} (view t, seqs t) (view t', seqs t')"
proof (cases "sound L (view t, seqs t)")
  case True
  let ?U = "others e (stmts t) (seqs t) (view t)" and ?V = "others_seq e (stmts t) (seqs t)"
  note spec = AppendSeat_spec [OF sound_seats [OF True] assms(1,3-9)]
  have law: "deadline_law L tz (view t, seqs t) (?U, ?V)" by (rule relyD [OF assms(2)])
  have "covered L tz (view t') s' hold" if "covered L tz ?U s' hold" "s' \<noteq> s" for s' hold
  proof -
    have "live_seat L (view t') s' = live_seat L ?U s'" using spec that(2) by (intro live_seat_same) blast
    moreover have "armed tz (view t') = armed tz ?U" using spec by (intro armed_same) blast
    ultimately show ?thesis using that(1) by (simp add: covered_def)
  qed
  moreover have "covered L tz (view t') s hold" if "live_seat L (view t') s \<noteq> Some hold" for hold
    using that by (simp add: covered_def)
  moreover have "sound L (view t', seqs t') \<and> rows_kept (?U, ?V) (view t', seqs t')"
  proof -
    have "seats_ok L (view t)" using True by (simp add: sound_def)
    moreover from this have "seats_step L (view t) (view t')"
      using AppendSeat_step [OF _ _ assms(3-7,9)] assms(1) by (simp add: rely_streams)
    moreover have "schema_ok (view t', seqs t') \<and> rows_kept (?U, ?V) (view t', seqs t')"
      using assms(9)
    proof (cases rule: AppendSeat_ok_cases)
      case (appended stored cs cs')
      then show ?thesis using schema_append [OF appended(3,5)] sound_steps [OF assms(2) True]
        by (simp add: schema_law_def sound_def)
    qed (use assms(8) in simp)
    ultimately show ?thesis by (simp add: sound_def seats_step_def)
  qed
  ultimately show ?thesis using law True rows_kept_trans unfolding covered_upto_def fst_conv by blast
qed (simp add: covered_upto_def)

subsection \<open>Scheduling the deadline\<close>

lemma Schedule_arms:
  assumes "Schedule e fa s k t = (Inr (), t')"
  shows "armed (tstz e) (view t') s (k, fa)"
proof -
  have "exec e (scheduleSQL e fa s k) t = (Inr (), t')" using assms by (simp add: Schedule_def)
  from exec_ok(5) [OF this] obtain U r where "view t' = U\<lparr>timers := timers U @ [r]\<rparr>"
    "tm_fire_at r = tstz e fa" "tm_subject r = s" "tm_token r = k" "tm_fired_at r = None"
    by (auto simp: scheduleSQL_def dest: sym)
  then show ?thesis by (simp add: armed_def)
qed

lemma scheduleTimers_arms:
  assumes "rely (deadline_law L tz) e" "tstz e = tz"
    and "scheduleTimers e s ts t = (Inr (), t')" "tm \<in> set ts" "sound L (view t, seqs t)"
  shows "covered L tz (view t') s (st_Token tm, st_FireAt tm)"
  using assms(3-5)
proof (induction ts arbitrary: t)
  case (Cons a ts)
  obtain t1 where run: "Schedule e (st_FireAt a) s (st_Token a) t = (Inr (), t1)" "scheduleTimers e s ts t1 = (Inr (), t')"
    using Cons.prems(1) by (auto simp: bindE_eq_Inr_iff)
  have "deadline_law L tz (view t, seqs t) (view t1, seqs t1)"
    using keeps_stateD [OF deadlines.keeps_Schedule [OF assms(1)] run(1)] .
  then have ok: "sound L (view t1, seqs t1)" using Cons.prems(3) by (simp add: covered_upto_def)
  have rest: "deadline_law L tz (view t1, seqs t1) (view t', seqs t')"
    using deadlines.scheduled_law [OF run(2) assms(1)] .
  show ?case
  proof (cases "tm = a")
    case True
    then have "covered L tz (view t1) s (st_Token tm, st_FireAt tm)"
      using Schedule_arms [OF run(1)] assms(2) by (simp add: covered_def)
    then show ?thesis using rest ok by (auto simp: covered_upto_def)
  next
    case False
    then show ?thesis using Cons.IH [OF run(2) _ ok] Cons.prems(2) by simp
  qed
qed simp

text \<open>A decision appended and its timers scheduled: the hold it may have left is armed.\<close>

lemma append_schedule_covers:
  assumes "rely (streams_law L) e" "rely (deadline_law L tz) e" "server L tz e"
    and "Decide L st cmd = Inr out" "seat_messages L (view t) s = Inr ms" "Fold L ms = Inr st" "out_Events out \<noteq> []"
    and "AppendSeat L e s (ss_Version st) (out_Events out) meta t = (Inr x, t1)"
    and "scheduleTimers e s (out_Timers out) t1 = (Inr (), t2)"
  shows "deadline_law L tz (view t, seqs t) (view t2, seqs t2)"
proof (rule covered_upto_done)
  let ?X = "{(s, hold) |hold. live_seat L (view t1) s = Some hold}"
  note dec = Decide_events [OF assms(4) Fold_wf [OF assms(6)]]
  have cod: "codec_ok L e" "tstz e = tz" using assms(3) by (simp_all add: server_def)
  have upto: "covered_upto L tz ?X (view t, seqs t) (view t1, seqs t1)"
    by (rule append_covered_upto [OF assms(1,2) cod(1) dec(1) assms(5,6) dec(2) assms(7,8)])
  then show "covered_upto L tz ?X (view t, seqs t) (view t2, seqs t2)"
    using covered_upto_trans [OF _ deadlines.scheduled_law [OF assms(9,2)]] by fastforce
  fix s' hold
  assume sd: "sound L (view t, seqs t)" and mem: "(s', hold) \<in> ?X"
  obtain st' where st': "Fold L (ms @ out_Events out) = Inr st'" "ss_Status st' = StatusHeld \<longrightarrow>
      (\<exists>tm \<in> set (out_Timers out). st_Token tm = ss_HoldID st' \<and> st_FireAt tm = ss_ExpiresAt st')"
    using decided_live [OF assms(4,6,7)] by blast
  have "seat_messages L (view t1) s = Inr (ms @ out_Events out)"
    using AppendSeat_spec [OF sound_seats [OF sd] assms(1) cod(1) dec(1) assms(5,6) dec(2) assms(7,8)] by blast
  then obtain tm where "tm \<in> set (out_Timers out)" "hold = (st_Token tm, st_FireAt tm)"
    using mem st' by (auto simp: live_seat_def split: if_splits)
  moreover have "sound L (view t1, seqs t1)" using upto sd by (simp add: covered_upto_def)
  ultimately show "covered L tz (fst (view t2, seqs t2)) s' hold"
    using scheduleTimers_arms [OF assms(2) cod(2) assms(9)] mem by auto
qed

lemma deadline_command:
  assumes "rely (streams_law L) e" "rely (deadline_law L tz) e" "server L tz e"
    and "applyCommand L enc e ids inc cmd s t0 = (Inr (), t)"
  shows "deadline_law L tz (view t0, seqs t0) (view t, seqs t)"
  using assms(4)
proof (cases rule: applyCommand_ok_cases)
  case again
  then show ?thesis using deadlines.consumed_law assms(2) by blast
next
  case (applied st m out msgs t1 t2 t3 t4)
  have one: "deadline_law L tz (view t0, seqs t0) (view t1, seqs t1)" by (rule deadlines.consumed_law [OF applied(1) assms(2)])
  have two: "deadline_law L tz (view t1, seqs t1) (view t2, seqs t2)" by (rule deadlines.loaded_law [OF applied(2) assms(2)])
  have last: "deadline_law L tz (view t4, seqs t4) (view t, seqs t)" by (rule deadlines.enqueued_law [OF applied(7) assms(2)])
  have "deadline_law L tz (view t2, seqs t2) (view t4, seqs t4)" if "sound L (view t1, seqs t1)"
  proof (cases "out_Events out = []")
    case True
    then have "t3 = t2" using applied(4) by (simp add: AppendSeat_def)
    then show ?thesis using deadlines.scheduled_law [OF applied(5) assms(2)] by simp
  next
    case False
    have "seats_rely L e" "seats_ok L (view t1)" using assms(1) that by (simp_all add: rely_streams sound_def)
    then obtain ms where "seat_messages L (view t2) s = Inr ms" "Fold L ms = Inr st"
      using LoadSeat_spec(4) applied(2) by blast
    from append_schedule_covers [OF assms(1-3) applied(3) this False applied(4,5)] show ?thesis .
  qed
  moreover have "sound L (view t1, seqs t1)" if "sound L (view t0, seqs t0)" using one that by (simp add: covered_upto_def)
  ultimately show ?thesis using one two last deadlines.law_trans by (cases "sound L (view t0, seqs t0)")
      (blast, simp add: covered_upto_def)
qed

subsection \<open>Firing it\<close>

text \<open>
  Claiming a timer leaves uncovered only the hold it was set for: the id still stands for the timer
  that was read, and no other row has it.
\<close>

lemma markFired_uncovers:
  assumes "rows_kept (T0, S0) (T, S)" "schema_ok (T0, S0)" "row \<in> set (timers T0)"
  shows "covered_upto L tz {(tm_subject row, tm_token row, x) |x. True} (T, S) (snd (markFiredSQL e (tm_id row) T), S)"
proof (rule covered_stmt [OF schema_mark_fired])
  fix s and hold :: "string \<times> time"
  assume X: "(s, hold) \<notin> {(tm_subject row, tm_token row, x) |x. True}" and "armed tz T s hold"
  then obtain r where r: "r \<in> set (timers T)" "tm_subject r = s" "tm_token r = fst hold"
    "tm_fire_at r = tz (snd hold)" "tm_fired_at r = None" by (auto simp: armed_def)
  have "tm_id r \<noteq> tm_id row"
  proof
    assume id: "tm_id r = tm_id row"
    have "tm_id r \<le> timers_seq S0" using id assms(2,3) by (auto simp: schema_ok_def timers_wf_def list_all_iff)
    then obtain r0 where r0: "r0 \<in> set (timers T0)" "timer_of r0 = timer_of r" "tm_id r0 = tm_id r"
      using rows_kept_timersD [OF assms(1), of r] r(1) by auto
    have "inj_on tm_id (set (timers T0))"
      using assms(2) by (simp add: schema_ok_def timers_wf_def timers_ok_def distinct_map)
    then have "r0 = row" using r0(1,3) id assms(3) by (metis inj_onD)
    then have "timer_of row = timer_of r" using r0(2) by simp
    then show False using X r(2,3) by (cases hold) (auto simp: timer_of_def)
  qed
  then show "armed tz (snd (markFiredSQL e (tm_id row) T)) s hold"
    using r unfolding armed_def by (intro bexI [of _ r]) (auto simp: markFiredSQL_def image_iff intro: bexI [of _ r])
qed simp

lemma claimed_uncovers:
  assumes "rely (deadline_law L tz) e" "row \<in> set (timers T0)" "deadline_law L tz (T0, S0) (view t0, seqs t0)"
    and "sound L (T0, S0)" "MarkFired e (tm_id row) t0 = (Inr got, t1)"
  shows "covered_upto L tz {(tm_subject row, tm_token row, x) |x. True} (T0, S0) (view t1, seqs t1)"
proof -
  let ?U = "others e (stmts t0) (seqs t0) (view t0)" and ?V = "others_seq e (stmts t0) (seqs t0)"
  have pre: "deadline_law L tz (T0, S0) (?U, ?V)" using assms(3) relyD [OF assms(1)] by (rule deadlines.law_trans)
  then have "rows_kept (T0, S0) (?U, ?V)" "schema_ok (T0, S0)" using assms(4) by (simp_all add: covered_upto_def sound_def)
  from covered_upto_trans [OF pre markFired_uncovers [OF this assms(2), of L tz e]] show ?thesis
    using MarkFired_ok [OF assms(5)] by simp
qed

text \<open>The expiry of the hold the timer was set for leaves the seat free.\<close>

lemma expired_frees:
  assumes "rely (streams_law L) e" "rely (deadline_law L tz) e" "codec_ok L e" "sound L (view t, seqs t)"
    and "seat_messages L (view t) s = Inr ms" "Fold L ms = Inr st" "live_hold st = Some k" "out = Expire st s k"
    and "AppendSeat L e s (ss_Version st) (out_Events out) meta t = (Inr x, t1)"
  shows "deadline_law L tz (view t, seqs t) (view t1, seqs t1) \<and> live_seat L (view t1) s = None"
proof -
  have out: "list_all is_seat_event (out_Events out)" "out_Events out \<noteq> []"
    "live_after (live_hold st) (out_Events out) \<noteq> None"
    using assms(7,8) Expire_events_valid by (auto simp: outcome_defs live_hold_def split: if_splits)
  have "seat_messages L (view t1) s = Inr (ms @ out_Events out)"
    using AppendSeat_spec [OF sound_seats [OF assms(4)] assms(1,3) out(1) assms(5,6) out(3,2) assms(9)] by blast
  moreover obtain st' where "Fold L (ms @ out_Events out) = Inr st'" "ss_Status st' = StatusFree"
    using assms(6-8) by (auto simp: outcome_defs live_hold_def Fold_snoc freed_def split: if_splits)
  ultimately have dead: "live_seat L (view t1) s = None" by (simp add: live_seat_def status_defs)
  with append_covered_upto [OF assms(1-3) out(1) assms(5,6) out(3,2) assms(9)] show ?thesis by simp
qed

lemma claimed_loaded:
  assumes "rely (streams_law L) e" "rely (deadline_law L tz) e"
    and "row \<in> set (timers T0)" "deadline_law L tz (T0, S0) (view t0, seqs t0)" "sound L (T0, S0)"
    and "MarkFired e (tm_id row) t0 = (Inr got, t1)" "LoadSeat L e (tm_subject row) t1 = (Inr (st, m), t2)"
  shows "covered_upto L tz {(tm_subject row, tm_token row, x) |x. True} (T0, S0) (view t2, seqs t2) \<and>
    sound L (view t2, seqs t2) \<and> (\<exists>ms. seat_messages L (view t2) (tm_subject row) = Inr ms \<and> Fold L ms = Inr st)"
proof -
  let ?X = "{(tm_subject row, tm_token row, x) |x. True}"
  note c = claimed_uncovers [OF assms(2-6)]
  have "seats_ok L (view t1)" using c assms(5) by (simp add: covered_upto_def sound_def)
  moreover have "covered_upto L tz ?X (T0, S0) (view t2, seqs t2)"
    using covered_upto_trans [OF c deadlines.loaded_law [OF assms(7,2)]] by simp
  moreover have "seats_rely L e" using assms(1) by (simp add: rely_streams)
  ultimately show ?thesis using LoadSeat_spec(4) [OF _ _ assms(7)] assms(5) by (auto simp: covered_upto_def)
qed

lemma deadline_fire:
  assumes "rely (streams_law L) e" "rely (deadline_law L tz) e" "server L tz e"
    and "row \<in> set (timers T0)" "deadline_law L tz (T0, S0) (view t0, seqs t0)"
    and "claimAndFire (Fire L enc ids) e (timer_of row) t0 = (Inr claimed, t)"
  shows "deadline_law L tz (T0, S0) (view t, seqs t)"
proof (cases "sound L (T0, S0)")
  case True
  let ?U = "others e (stmts t0) (seqs t0) (view t0)" and ?V = "others_seq e (stmts t0) (seqs t0)"
  let ?X = "{(tm_subject row, tm_token row, x) |x. True}"
  have tm: "tr_ID (timer_of row) = tm_id row" "tr_Subject (timer_of row) = tm_subject row" "tr_Token (timer_of row) = tm_token row"
    by (simp_all add: timer_of_def)
  have cod: "codec_ok L e" using assms(3) by (simp add: server_def)
  note loaded = claimed_loaded [OF assms(1,2,4,5) True]
  show ?thesis
    using assms(6)
  proof (cases rule: claimAndFire_ok_cases)
    case lost
    have pre: "deadline_law L tz (T0, S0) (?U, ?V)" using assms(5) relyD [OF assms(2)] by (rule deadlines.law_trans)
    then have "timers_ok ?U" using True by (simp add: covered_upto_def sound_def schema_ok_def timers_wf_def)
    then have "view t = ?U" "seqs t = ?V"
      using MarkFired_ok [OF lost] markFired_none [of ?U e "tm_id row"] by (auto simp: tm)
    then show ?thesis using pre by simp
  next
    case (stale st m t1)
    note l = loaded [OF stale(1,2) [unfolded tm]]
    then have "live_seat L (view t) (tm_subject row) \<noteq> Some (tm_token row, x)" for x
      using stale(3) by (auto simp: live_seat_def live_hold_def tm split: if_splits)
    with l show ?thesis by (intro covered_upto_done [of L tz ?X]) (auto simp: covered_def)
  next
    case (expired st m out msgs t1 t2 t3)
    note l = loaded [OF expired(1,2) [unfolded tm]]
    then obtain ms where ms: "seat_messages L (view t2) (tm_subject row) = Inr ms" "Fold L ms = Inr st" by blast
    have "sound L (view t2, seqs t2)" using l by blast
    note free = expired_frees [OF assms(1,2) cod this ms expired(4,3,5) [unfolded tm]]
    have "covered_upto L tz ?X (T0, S0) (view t3, seqs t3)" using covered_upto_trans [of L tz ?X] l free by fastforce
    then have "deadline_law L tz (T0, S0) (view t3, seqs t3)"
      using free by (intro covered_upto_done [of L tz ?X]) (auto simp: covered_def)
    then show ?thesis using deadlines.enqueued_law [OF expired(7) assms(2)] by (rule deadlines.law_trans)
  qed
qed (simp add: covered_upto_def)

interpretation deadline_service: service_law "deadline_law L tz" L enc tz B rb for L enc tz B rb
proof (unfold_locales, goal_cases)
  case (1 e cmd s ids inc db t)
  from service_rely_streams [OF 1(1)] show ?case using deadline_command [OF _ 1(2,3,5)] by simp
next
  case (2 e row T0 S0 db ids claimed t)
  from service_rely_streams [OF 2(1)] show ?case using deadline_fire [OF _ 2(2-4) _ 2(6)] 2(5) by simp
next
  case (3 e locked db batch t1 t)
  show ?case by (rule deadlines.marked_law [OF 3(2,4,6)], intro covered_same schema_mark) (simp_all add: markSQL_def)
next
  case (4 e s t0 t)
  have "deadline_law L tz (T, S) (snd (upsertAvailabilitySQL new T), S)" for T S new
    by (intro covered_same schema_upsert) (simp_all add: upsertAvailabilitySQL_def)
  then show ?case using keeps_stateD [OF deadlines.keeps_project [OF 4(2)] 4(4)] by simp
next
  case (5 T S)
  show ?case by (intro covered_same schema_deletes) (simp_all add: clearSQL_def)
next
  case (6 T S e d)
  show ?case by (intro covered_same schema_deletes) (simp_all add: outbox_pruneSQL_def)
next
  case (7 T S e d)
  show ?case
    by (intro covered_stmt schema_deletes) (auto simp: timers_pruneSQL_def armed_def prunable_def)
next
  case (8 T S e d)
  show ?case by (intro covered_same schema_deletes) (simp_all add: inbox_pruneSQL_def)
qed

lemma reachable_armed:
  assumes "reachable L enc tz B rb (T, S)" "seat_messages L T s = Inr ms" "Fold L ms = Inr st" "ss_Status st = StatusHeld"
  shows "armed tz T s (ss_HoldID st, ss_ExpiresAt st)"
proof -
  have "sound L (state_of empty_db)"
    using reachable_schema [OF reachable_start] reachable_streams [OF reachable_start] by (simp add: sound_def)
  moreover have "covered L tz (tbl empty_db) s hold" for hold
    by (simp add: covered_def live_seat_def Fold_def zero_SeatState_def status_defs seat_messages_def
        stream_rows_def empty_db_def empty_tables_def)
  ultimately have "covered L tz T s (ss_HoldID st, ss_ExpiresAt st)"
    using deadline_service.service_obeys(2) [OF assms(1) [unfolded reachable_def]] by (simp add: covered_upto_def)
  then show ?thesis using assms(2-4) by (simp add: covered_def live_seat_def)
qed

section \<open>Properties\<close>

text \<open>
  C3. Every live hold has its deadline armed: in every state the service can reach, whatever commands,
  firings, failures, prunings and interleavings led there, a seat whose committed stream says it is
  held has a timer that has not fired, for that seat and that very hold, at the moment the hold
  expires. So no seat stays held for ever because its timer was lost.
\<close>

theorem live_holds_have_deadlines:
  assumes "reachable L enc tz B rb (T, S)" "seat_messages L T s = Inr ms" "Fold L ms = Inr st" "ss_Status st = StatusHeld"
  shows "\<exists>r \<in> set (timers T). tm_subject r = s \<and> tm_token r = ss_HoldID st \<and>
    tm_fire_at r = tz (ss_ExpiresAt st) \<and> tm_fired_at r = None"
  using reachable_armed [OF assms] by (simp add: armed_def)

theorem live_holds_have_deadlines_witness:
  "\<exists>T S r. demo_reach {} (T, S) \<and> seat_messages demo_lib T ''14A'' = Inr [demo_held ''h1''] \<and>
     r \<in> set (timers T) \<and> tm_token r = ''h1'' \<and> tm_fire_at r = 900 \<and> tm_fired_at r = None"
proof -
  obtain db :: database where db: "demo_reach {} (state_of db)" "seat_messages demo_lib (tbl db) ''14A'' = Inr [demo_held ''h1'']"
    using demo_held_step by blast
  have "\<exists>r \<in> set (timers (tbl db)). tm_subject r = ''14A'' \<and> tm_token r = ss_HoldID demo_state \<and>
      tm_fire_at r = ss_ExpiresAt demo_state \<and> tm_fired_at r = None"
    by (rule live_holds_have_deadlines [OF db held_tables_fold]) (simp add: demo_state_def)
  then show ?thesis using db by (fastforce simp: demo_state_def)
qed

end
