(* ===== verification/LiveView.thy ===== *)
theory LiveView
  imports Deadlines
begin

text \<open>
  The browsing view in every run of the service: each row is the fold of a prefix of its seat's
  stream.
\<close>

section \<open>The view only shows what was the case\<close>

definition views_ok :: "protolib \<Rightarrow> (time \<Rightarrow> time) \<Rightarrow> tables \<Rightarrow> bool" where
  "views_ok L tz T \<longleftrightarrow> (\<forall>e. tstz e = tz \<longrightarrow> view_ok L e T)"

definition view_law :: "protolib \<Rightarrow> (time \<Rightarrow> time) \<Rightarrow> state \<Rightarrow> state \<Rightarrow> bool" where
  "view_law L tz x y \<longleftrightarrow>
     (seats_ok L (fst x) \<and> views_ok L tz (fst x) \<longrightarrow>
        seats_ok L (fst y) \<and> extends (fst x) (fst y) \<and> views_ok L tz (fst y))"

lemma messages_extend:
  assumes "seats_ok L T" "seats_ok L T'" "extends T T'"
  shows "\<exists>ms'. seat_messages L T' s = (case seat_messages L T s of Inl x \<Rightarrow> Inl x | Inr ms \<Rightarrow> Inr (ms @ ms'))"
proof -
  obtain ms where ms: "seat_messages L T s = Inr ms" using seats_okD [OF assms(1)] by blast
  obtain ms1 where ms1: "seat_messages L T' s = Inr ms1" using seats_okD [OF assms(2)] by blast
  obtain rs where "stream_rows T' s = stream_rows T s @ rs" using assms(3) by (auto simp: extends_def elim: prefixE)
  then show ?thesis using ms ms1 by (auto simp: seat_messages_def decode_all_append split: sum.splits)
qed

lemma view_law_rows:
  assumes "streams_law L (T, S) (T', S')" "seat_availability T' = seat_availability T"
  shows "view_law L tz (T, S) (T', S')"
  using assms view_ok_extend messages_extend
  by (auto simp: view_law_def streams_law_def seats_step_def views_ok_def)

lemma view_law_same:
  assumes "events T' = events T" "seat_availability T' = seat_availability T"
  shows "view_law L tz (T, S) (T', S')"
  using assms by (intro view_law_rows streams_law_same)

interpretation views: statement_law "view_law L tz" for L tz
proof (unfold_locales, goal_cases)
  case (1 x)
  show ?case by (simp add: view_law_def extends_refl)
next
  case (2 x y z)
  then show ?case unfolding view_law_def extends_def by (meson prefix_order.trans)
qed (auto intro!: view_law_same simp: inbox_markSQL_frame [OF refl] scheduleSQL_def enqueueSQL_def)

text \<open>
  The append of a decision, for a law about seats in order: it is enough that the law allows a
  statement that appends valid events and changes nothing else.
\<close>

context table_law
begin

lemma appended_law:
  assumes "seats_rely L e" "codec_ok L e" "LoadSeat L e s t1 = (Inr (st, m), t2)"
    and "\<And>ms. Fold L ms = Inr st \<Longrightarrow> list_all is_seat_event evts \<and> live_after (live_hold st) evts \<noteq> None"
    and "rely R e" "AppendSeat L e s (ss_Version st) evts meta t2 = (Inr x, t3)"
    and "\<And>y. \<not> seats_ok L (view t2) \<Longrightarrow> R (view t2, seqs t2) y"
    and "\<And>U V es S'. streams_law L (U, V) (U\<lparr>events := es\<rparr>, S') \<Longrightarrow> R (U, V) (U\<lparr>events := es\<rparr>, S')"
  shows "R (view t2, seqs t2) (view t3, seqs t3)"
  using assms(6)
proof (cases rule: AppendSeat_ok_cases)
  case none
  then show ?thesis using law_refl by simp
next
  case (appended stored cs cs')
  let ?U = "others e (stmts t2) (seqs t2) (view t2)" and ?V = "others_seq e (stmts t2) (seqs t2)"
  show ?thesis
  proof (cases "seats_ok L (view t2)")
    case ok: True
    obtain ms where ms: "seat_messages L (view t2) s = Inr ms" "Fold L ms = Inr st"
      using LoadSeat_loaded [OF assms(3) seats_ok_log [OF ok]] by blast
    have "seats_step L ?U (view t3)"
      using seats_step_append [OF ok assms(2) _ appended(1) ms _ appended(2,3) seats_relyD [OF assms(1)] appended(5)]
        assms(4) [OF ms(2)] by blast
    then have "R (?U, ?V) (view t3, seqs t3)"
      unfolding appended(6) by (intro assms(8)) (simp add: streams_law_def)
    with relyD [OF assms(5)] show ?thesis by (rule law_trans)
  qed (rule assms(7))
qed

end

lemma view_append:
  assumes "seats_rely L e" "codec_ok L e" "LoadSeat L e s t1 = (Inr (st, m), t2)"
    and "\<And>ms. Fold L ms = Inr st \<Longrightarrow> list_all is_seat_event evts \<and> live_after (live_hold st) evts \<noteq> None"
    and "rely (view_law L tz) e" "AppendSeat L e s (ss_Version st) evts meta t2 = (Inr x, t3)"
  shows "view_law L tz (view t2, seqs t2) (view t3, seqs t3)"
  by (rule views.appended_law [OF assms]) (auto simp: view_law_def [of L tz "(view t2, seqs t2)"] intro: view_law_rows)

lemma upserted_views_ok:
  assumes "seats_ok L T" "seats_ok L U" "extends T U" "views_ok L tz U" "tstz e = tz"
    and "seat_messages L T s = Inr ms" "Fold L ms = Inr st" "ss_Version st \<noteq> 0"
  shows "views_ok L tz (snd (upsertAvailabilitySQL (availability_row e s st) U))"
  unfolding views_ok_def
proof (intro allI impI)
  let ?new = "availability_row e s st"
  let ?T' = "snd (upsertAvailabilitySQL ?new U)"
  fix e' :: env
  assume e': "tstz e' = tz"
  have U: "view_ok L e' U" using assms(4) e' by (simp add: views_ok_def)
  obtain ms' where "seat_messages L U s = Inr (ms @ ms')" using messages_extend [OF assms(1-3), of s] assms(6) by auto
  then have "row_ok L e' U ?new"
    using assms(5,7,8) Fold_version [OF assms(7)] e' by (simp add: row_ok_def availability_row_def)
  moreover have "set (seat_availability ?T') \<subseteq> insert ?new (set (seat_availability U))"
    by (auto simp: upsertAvailabilitySQL_def)
  moreover have "distinct (view_ids ?T')" using U by (intro upsert_ids) (simp add: view_ok_def)
  moreover have "row_ok L e' ?T' = row_ok L e' U"
    by (simp add: row_ok_def seat_messages_def stream_rows_same_events [OF upsert_events] fun_eq_iff)
  ultimately show "view_ok L e' ?T'" using U by (auto simp: view_ok_def list_all_iff)
qed

lemma view_project:
  assumes "seats_rely L e" "rely (view_law L tz) e" "tstz e = tz" "project L e s t0 = (Inr (), t)"
  shows "view_law L tz (view t0, seqs t0) (view t, seqs t)"
proof -
  obtain st m t1 where load: "LoadSeat L e s t0 = (Inr (st, m), t1)"
    and rest: "(if ss_Version st = 0 then retE ()
         else wrapE (\<lambda>err. Errorf (''inventory: project '' @ s @ '': '') err [])
           (exec e (update_stmt (upsertAvailabilitySQL (availability_row e s st))))) t1 = (Inr (), t)"
    using assms(4) by (auto simp: project_def bindE_eq_Inr_iff cong: if_cong)
  have one: "view_law L tz (view t0, seqs t0) (view t1, seqs t1)" by (rule views.loaded_law [OF load assms(2)])
  show ?thesis
  proof (cases "ss_Version st = 0")
    case True
    then show ?thesis using one rest by simp
  next
    case False
    let ?new = "availability_row e s st"
    let ?U = "others e (stmts t1) (seqs t1) (view t1)" and ?V = "others_seq e (stmts t1) (seqs t1)"
    have law: "view_law L tz (view t1, seqs t1) (?U, ?V)" by (rule relyD [OF assms(2)])
    have "exec e (update_stmt (upsertAvailabilitySQL ?new)) t1 = (Inr (), t)" using rest False by simp
    from exec_ok(5) [OF this] have t: "view t = snd (upsertAvailabilitySQL ?new ?U)"
      by (auto simp: update_stmt_def)
    have "views_ok L tz (view t)" if ok: "seats_ok L (view t1)" "views_ok L tz (view t1)"
    proof -
      have U: "seats_ok L ?U" "extends (view t1) ?U" "views_ok L tz ?U" using law ok by (auto simp: view_law_def)
      obtain ms where ms: "seat_messages L (view t1) s = Inr ms" "Fold L ms = Inr st"
        using LoadSeat_loaded [OF load seats_ok_log [OF ok(1)]] by blast
      show ?thesis unfolding t by (rule upserted_views_ok [OF ok(1) U assms(3) ms False])
    qed
    moreover have "streams_law L (?U, ?V) (view t, seqs t)" unfolding t by (rule streams_law_same) simp
    ultimately have "view_law L tz (view t1, seqs t1) (view t, seqs t)"
      using law unfolding view_law_def streams_law_def seats_step_def extends_def fst_conv
      by (meson prefix_order.trans)
    with one show ?thesis by (rule views.law_trans)
  qed
qed

interpretation view_service: service_law "view_law L tz" L enc tz B rb for L enc tz B rb
proof (unfold_locales, goal_cases)
  case (1 e cmd s ids inc db t)
  note srel = service_rely_seats [OF 1(1)]
  have "view_law L tz (view (begin_tx db), seqs (begin_tx db)) (view t, seqs t)"
    by (rule views.applyCommand_law [OF 1(2,5)], rule view_append [OF srel _ _ _ 1(2)])
      (use 1(3) Decide_events Fold_wf in \<open>auto simp: server_def\<close>)
  then show ?case by simp
next
  case (2 e row T0 S0 db ids claimed t)
  note srel = service_rely_seats [OF 2(1)]
  have fired: "view_law L tz (T, S) (snd (markFiredSQL e i T), S)" for T S i by (intro view_law_same) simp_all
  have "view_law L tz (view (begin_tx db), seqs (begin_tx db)) (view t, seqs t)"
    by (rule views.claimAndFire_law [OF 2(2,6) fired], rule view_append [OF srel _ _ _ 2(2)])
      (use 2(3) Expire_events_valid in \<open>auto simp: server_def outcome_defs\<close>)
  then show ?case using 2(5) views.law_trans by simp
next
  case (3 e locked db batch t1 t)
  show ?case by (rule views.marked_law [OF 3(2,4,6)], intro view_law_same) (simp_all add: markSQL_def)
next
  case (4 e s t0 t)
  then show ?case using view_project [OF service_rely_seats [OF 4(1)] 4(2) _ 4(4)] by (simp add: server_def)
next
  case (5 T S)
  have rows: "stream_rows (snd (clearSQL T)) = stream_rows T" by (rule stream_rows_same_events) (simp add: clearSQL_def)
  have "streams_law L (T, S) (snd (clearSQL T), S)" by (rule streams_law_same) (simp add: clearSQL_def)
  moreover have "views_ok L tz (snd (clearSQL T))" by (simp add: views_ok_def view_ok_def view_ids_def clearSQL_def)
  ultimately show ?case by (auto simp: view_law_def streams_law_def seats_step_def)
qed (auto intro!: view_law_same simp: outbox_pruneSQL_def timers_pruneSQL_def inbox_pruneSQL_def)

lemma reachable_view:
  assumes "reachable L enc tz B rb (T, S)" "tstz e = tz"
  shows "view_ok L e T"
proof -
  have "seats_ok L (tbl empty_db)" using reachable_streams [OF reachable_start] by simp
  moreover have "views_ok L tz (tbl empty_db)"
    by (simp add: views_ok_def view_ok_def view_ids_def empty_db_def empty_tables_def)
  ultimately show ?thesis
    using view_service.service_obeys(2) [OF assms(1) [unfolded reachable_def]] assms(2)
    by (simp add: view_law_def views_ok_def)
qed

section \<open>The view only moves forward\<close>

text \<open>As long as nobody rebuilds it, no row of the view is taken back or lost.\<close>

abbreviation forward_law :: "state \<Rightarrow> state \<Rightarrow> bool" where
  "forward_law x y \<equiv> view_forward (fst x) (fst y)"

lemma forward_same: "seat_availability T' = seat_availability T \<Longrightarrow> view_forward T T'"
  by (simp add: view_forward_def row_for_def)

interpretation moving: statement_law forward_law
proof (unfold_locales, goal_cases)
  case (2 x y z)
  then show ?case by (rule view_forward_trans)
qed (auto intro!: forward_same simp: inbox_markSQL_frame [OF refl] scheduleSQL_def enqueueSQL_def)

lemma forward_AppendSeat:
  assumes "rely forward_law e" "AppendSeat L e s v evts meta t = (r, t')"
  shows "forward_law (view t, seqs t) (view t', seqs t')"
proof (rule keeps_stateD [OF moving.keeps_AppendSeat [OF assms(1)] assms(2)])
  fix cs T S x T' S'
  assume "appendSQL e s v cs T S = (Inr (x, T'), S')"
  then have "seat_availability T' = seat_availability T" by (auto elim: appendSQL_okD)
  then show "forward_law (T, S) (T', S')" by (simp add: forward_same)
qed

interpretation moving_service: service_law forward_law L enc tz B False for L enc tz B
proof (unfold_locales, goal_cases)
  case (1 e cmd s ids inc db t)
  then show ?case using moving.applyCommand_law [OF 1(2,5)] forward_AppendSeat by force
next
  case (2 e row T0 S0 db ids claimed t)
  have "forward_law (T, S) (snd (markFiredSQL e i T), S)" for T S i by (rule forward_same) simp
  then have "forward_law (state_of db) (view t, seqs t)"
    using moving.claimAndFire_law [OF 2(2,6)] forward_AppendSeat 2(2) by force
  with 2(5) show ?case by (rule moving.law_trans)
next
  case (3 e locked db batch t1 t)
  show ?case by (rule moving.marked_law [OF 3(2,4,6)]) (simp add: forward_same markSQL_def)
next
  case (4 e s t0 t)
  then show ?case using keeps_stateD [OF moving.keeps_project [OF 4(2)] 4(4)] view_forward_upsert by simp
qed (auto intro!: forward_same simp: outbox_pruneSQL_def timers_pruneSQL_def inbox_pruneSQL_def)

section \<open>Properties\<close>

text \<open>
  C8. The view never shows what was not the case: in every state the service can reach, with projections
  and rebuilds racing each other and the commands, every row of the view is, column by column, what
  the first so many events of its seat's committed stream fold to, and no seat has two rows.
\<close>

theorem view_shows_history:
  assumes "reachable L enc tz B rb (T, S)" "row \<in> set (seat_availability T)" "tstz e = tz"
  shows "distinct (view_ids T) \<and> (\<exists>ms n st. seat_messages L T (av_seat_id row) = Inr ms \<and>
    0 < n \<and> n \<le> length ms \<and> av_version row = int n \<and>
    Fold L (take n ms) = Inr st \<and> row = availability_row e (av_seat_id row) st)"
proof -
  have "distinct (view_ids T)" "row_ok L e T row"
    using reachable_view [OF assms(1,3)] assms(2) by (auto simp: view_ok_def list_all_iff)
  then show ?thesis
    by (auto simp: row_ok_def split: sum.splits intro!: exI [of _ "nat (av_version row)"])
qed

text \<open>The seat is held, and projected.\<close>

lemma demo_projected_run:
  "\<exists>db::database. demo_reach {} (state_of db) \<and> seat_messages demo_lib (tbl db) ''14A'' = Inr [demo_held ''h1''] \<and>
     consumed (tbl db) = {(Consumer, ''/booking'', ''1'')} \<and>
     row_for (tbl db) ''14A'' = Some (availability_row calm_env ''14A'' demo_state)"
proof -
  obtain db :: database where db: "demo_reach {} (state_of db)" "seat_messages demo_lib (tbl db) ''14A'' = Inr [demo_held ''h1'']"
    "consumed (tbl db) = {(Consumer, ''/booking'', ''1'')}"
    using demo_held_step by blast
  have ok: "seats_ok demo_lib (tbl db)" using reachable_streams [OF db(1)] by simp
  have "view_ok demo_lib calm_env (tbl db)" using db(1) by (rule reachable_view) (simp add: calm_env_def)
  note row = upsert_derived [OF this db(2) held_tables_fold]
  let ?db = "db\<lparr>tbl := snd (upsertAvailabilitySQL (availability_row calm_env ''14A'' demo_state) (tbl db))\<rparr>"
  have pr: "Project demo_lib calm_env ''14A'' db = (Inr (), ?db)"
    by (rule quiet_Project [OF quiet_calm_env seats_ok_log [OF ok] db(2) held_tables_fold]) simp
  have "service_step demo_lib demo_enc (\<lambda>t. t) {} False (state_of db) (state_of ?db)"
    using rely_calm server_demo pr by (rule service_intros(4))
  then have "demo_reach {} (state_of ?db)" using db(1) by (blast intro: reachable_steps service_steps_one)
  moreover have "seat_messages demo_lib (tbl ?db) ''14A'' = Inr [demo_held ''h1'']"
    using db(2) by (simp add: seat_messages_def stream_rows_same_events [OF upsert_events])
  moreover have "row_for (tbl ?db) ''14A'' = Some (availability_row calm_env ''14A'' demo_state)" using row by simp
  moreover have "consumed (tbl ?db) = {(Consumer, ''/booking'', ''1'')}"
    using db(3) by (simp add: consumed_def upsertAvailabilitySQL_def)
  ultimately show ?thesis by blast
qed

theorem view_shows_history_witness:
  "\<exists>T S ms n st. demo_reach {} (T, S) \<and> availability_row calm_env ''14A'' demo_state \<in> set (seat_availability T) \<and>
     seat_messages demo_lib T ''14A'' = Inr ms \<and> Fold demo_lib (take n ms) = Inr st \<and>
     availability_row calm_env ''14A'' demo_state = availability_row calm_env ''14A'' st"
proof -
  obtain T S where T: "demo_reach {} (T, S)" "row_for T ''14A'' = Some (availability_row calm_env ''14A'' demo_state)"
    using demo_projected_run by (metis (no_types))
  have mem: "availability_row calm_env ''14A'' demo_state \<in> set (seat_availability T)" using row_for_mem [OF T(2)] by simp
  have "tstz calm_env = (\<lambda>t. t)" by (simp add: calm_env_def)
  from view_shows_history [OF T(1) mem this] show ?thesis
    using T(1) mem by (auto simp: availability_row_def)
qed

text \<open>
  C30. The view never goes back: in every run of the service in which nobody rebuilds it, whatever late
  or repeated projections race each other, a seat that has a row keeps one, at the version it had or a
  later one.
\<close>

theorem view_never_goes_back:
  assumes "service_steps L enc tz B False (T, S) (T', S')" "row_for T s = Some r"
  shows "\<exists>r'. row_for T' s = Some r' \<and> av_version r \<le> av_version r'"
  using moving_service.service_obeys(2) [OF assms(1)] assms(2) by (simp add: view_forward_def)

theorem view_never_goes_back_witness:
  "\<exists>db db' r'. service_steps demo_lib demo_enc (\<lambda>t. t) {} False (state_of db) (state_of db') \<and>
     seat_messages demo_lib (tbl db') ''14A'' = Inr [demo_held ''h1'', demo_released ''h1''] \<and>
     row_for (tbl db') ''14A'' = Some r' \<and> 1 \<le> av_version r'"
proof -
  note defs = demo_commands demo_messages outcome_defs Fold_def zero_SeatState_def freed_def
    status_defs demo_lib_def table_lib_def
  obtain db :: database where db: "demo_reach {} (state_of db)" "seat_messages demo_lib (tbl db) ''14A'' = Inr [demo_held ''h1'']"
    "consumed (tbl db) = {(Consumer, ''/booking'', ''1'')}"
    "row_for (tbl db) ''14A'' = Some (availability_row calm_env ''14A'' demo_state)"
    using demo_projected_run by blast
  obtain db' where db': "Handle demo_lib demo_enc (\<lambda>_. calm_env) (\<lambda>_. demo_ids) (demo_envelope ''2'')
      (demo_release ''h1'') db = (Inr (), 1, db')"
    "seat_messages demo_lib (tbl db') ''14A'' = Inr [demo_held ''h1'', demo_released ''h1'']"
    using demo_command_step [OF db(1) _ _ _ db(2), of "demo_release ''h1''" "''2''" demo_state _ "demo_released ''h1''" "''3''"]
    by (auto simp: defs db(3) demo_state_def)
  have "service_step demo_lib demo_enc (\<lambda>t. t) {} False (state_of db) (state_of db')"
    using db'(1) by (rule service_intros(1) [rotated 2]) (simp_all add: rely_calm server_demo)
  then have run: "service_steps demo_lib demo_enc (\<lambda>t. t) {} False (state_of db) (state_of db')" by (rule service_steps_one)
  obtain r' where "row_for (tbl db') ''14A'' = Some r'" "1 \<le> av_version r'"
    using view_never_goes_back [OF run db(4)] by (auto simp: availability_row_def demo_state_def)
  with run db'(2) show ?thesis by blast
qed

end
