(* ===== verification/Inventory.thy ===== *)
theory Inventory
  imports LiveView
begin

text \<open>
  What the service promises, without streams, tables, timers or messages: each seat is free or held
  under one hold, a seat is taken only while it is free and freed only of the hold it is under. Every
  run of the service, with all its instances, retries, failures and interleavings, is a run of this
  machine, whose actions are, seat by seat, the events the run has appended.
\<close>

section \<open>The abstract inventory\<close>

type_synonym inventory = "string \<Rightarrow> string option"

datatype action = Takes (seat_of: string) string | Frees (seat_of: string) string

fun do_action :: "action \<Rightarrow> inventory \<Rightarrow> inventory option" where
  "do_action (Takes s h) f = (if f s = None then Some (f(s \<mapsto> h)) else None)"
| "do_action (Frees s h) f = (if f s = Some h then Some (f(s := None)) else None)"

fun do_actions :: "action list \<Rightarrow> inventory \<Rightarrow> inventory option" where
  "do_actions [] f = Some f"
| "do_actions (a # as) f = (case do_action a f of None \<Rightarrow> None | Some f' \<Rightarrow> do_actions as f')"

lemma do_actions_append:
  "do_actions (as @ bs) f = (case do_actions as f of None \<Rightarrow> None | Some f' \<Rightarrow> do_actions bs f')"
  by (induction as arbitrary: f) (auto split: option.split)

section \<open>What the tables say\<close>

definition holds :: "protolib \<Rightarrow> tables \<Rightarrow> inventory" where
  "holds L T s =
     (case seat_messages L T s of
        Inl _ \<Rightarrow> None
      | Inr ms \<Rightarrow> (case Fold L ms of Inl _ \<Rightarrow> None | Inr st \<Rightarrow> live_hold st))"

fun action_of :: "string \<Rightarrow> message \<Rightarrow> action option" where
  "action_of s (SeatHeldMsg ev) = Some (Takes s (sh_HoldId ev))"
| "action_of s (SeatHoldReleasedMsg ev) = Some (Frees s (sr_HoldId ev))"
| "action_of s (SeatHoldExpiredMsg ev) = Some (Frees s (se_HoldId ev))"
| "action_of s _ = None"

fun actions_of :: "string \<Rightarrow> message list \<Rightarrow> action list" where
  "actions_of s [] = []"
| "actions_of s (m # ms) = (case action_of s m of None \<Rightarrow> actions_of s ms | Some a \<Rightarrow> a # actions_of s ms)"

lemma actions_of_seat: "a \<in> set (actions_of s ms) \<Longrightarrow> seat_of a = s"
proof (induction ms)
  case (Cons m ms)
  then show ?case by (cases "(s, m)" rule: action_of.cases) auto
qed simp

text \<open>The events of one seat are actions on that seat.\<close>

lemma do_actions_of:
  "live_after (f s) ms = Some h \<Longrightarrow> do_actions (actions_of s ms) f = Some (f(s := h))"
proof (induction ms arbitrary: f)
  case Nil
  then show ?case by auto
next
  case (Cons m ms)
  show ?case using Cons.prems Cons.IH by (cases "f s"; cases m) (auto split: if_splits)
qed

lemma holds_live:
  assumes "seat_messages L T s = Inr ms" "valid_history ms"
  shows "live_after None ms = Some (holds L T s)"
proof -
  obtain h where h: "live_after None ms = Some h" using assms(2) by (auto simp: valid_history_def)
  then show ?thesis using Fold_refines [OF h, of L] assms(1) by (auto simp: holds_def)
qed

lemma extended_actions:
  assumes "seats_ok L T" "seats_ok L T'" "extends T T'"
  obtains ms evts where "seat_messages L T s = Inr ms" "seat_messages L T' s = Inr (ms @ evts)"
    "live_after (holds L T s) evts = Some (holds L T' s)"
proof -
  obtain ms where ms: "seat_messages L T s = Inr ms" "valid_history ms" using seats_okD [OF assms(1)] by blast
  obtain evts where evts: "seat_messages L T' s = Inr (ms @ evts)" using messages_extend [OF assms, of s] ms(1) by auto
  have "valid_history (ms @ evts)" using seats_okD [OF assms(2), of s] evts by auto
  from holds_live [OF evts this] holds_live [OF ms] have "live_after (holds L T s) evts = Some (holds L T' s)"
    by (simp add: live_after_append)
  with ms(1) evts show ?thesis by (rule that)
qed

text \<open>Seat after seat, as many as have events.\<close>

lemma do_seats:
  assumes "distinct ss" "\<And>s. live_after (f s) (evts s) = Some (f' s)"
  shows "do_actions (concat (map (\<lambda>s. actions_of s (evts s)) ss)) f = Some (\<lambda>s. if s \<in> set ss then f' s else f s)"
  using assms
proof (induction ss arbitrary: f rule: rev_induct)
  case (snoc s ss)
  have "do_actions (concat (map (\<lambda>s. actions_of s (evts s)) ss)) f = Some (\<lambda>s. if s \<in> set ss then f' s else f s)"
    using snoc by simp
  moreover have "do_actions (actions_of s (evts s)) (\<lambda>s. if s \<in> set ss then f' s else f s) =
      Some ((\<lambda>s. if s \<in> set ss then f' s else f s)(s := f' s))"
    using snoc.prems by (intro do_actions_of) simp
  ultimately show ?case by (auto simp: do_actions_append fun_eq_iff)
qed simp

lemma actions_on_seat:
  assumes "distinct ss" "s \<notin> set ss \<Longrightarrow> evts s = []"
  shows "filter (\<lambda>a. seat_of a = s) (concat (map (\<lambda>s. actions_of s (evts s)) ss)) = actions_of s (evts s)"
proof -
  have other: "filter (\<lambda>a. seat_of a = s) (concat (map (\<lambda>s. actions_of s (evts s)) us)) = []" if "s \<notin> set us" for us
    using that actions_of_seat by (fastforce simp: filter_empty_conv)
  have own: "filter (\<lambda>a. seat_of a = s) (actions_of s (evts s)) = actions_of s (evts s)"
    using actions_of_seat by (auto simp: filter_id_conv)
  show ?thesis
  proof (cases "s \<in> set ss")
    case True
    then obtain us vs where ss: "ss = us @ s # vs" by (auto simp: in_set_conv_decomp)
    then have "s \<notin> set us" "s \<notin> set vs" using assms(1) by auto
    then show ?thesis using other own by (simp add: ss)
  next
    case False
    then show ?thesis using other assms(2) by simp
  qed
qed

section \<open>Property\<close>

text \<open>
  C2. The service refines the abstract inventory: from any state it can reach to any state it goes on
  to reach, the seats change as by a sequence of actions the abstract inventory allows, and for every
  seat the actions on it are exactly the events appended to its stream in between, in their order.
\<close>

theorem service_refines_inventory:
  assumes "reachable L enc tz B rb (T, S)" "service_steps L enc tz B rb (T, S) (T', S')"
  shows "\<exists>as. do_actions as (holds L T) = Some (holds L T') \<and>
    (\<forall>s. \<exists>ms evts. seat_messages L T s = Inr ms \<and> seat_messages L T' s = Inr (ms @ evts) \<and>
       filter (\<lambda>a. seat_of a = s) as = actions_of s evts)"
proof -
  have ok: "seats_ok L T" using reachable_streams [OF assms(1)] by simp
  have "seats_step L T T'" using streams_service.service_obeys(2) [OF assms(2)] by (simp add: streams_law_def)
  then have ok': "seats_ok L T'" and ext: "extends T T'" using ok by (simp_all add: seats_step_def)
  have "\<exists>evts. \<exists>ms. seat_messages L T s = Inr ms \<and> seat_messages L T' s = Inr (ms @ evts) \<and>
      live_after (holds L T s) evts = Some (holds L T' s)" for s
    using extended_actions [OF ok ok' ext, of s] by metis
  then obtain evts where evts: "\<And>s. \<exists>ms. seat_messages L T s = Inr ms \<and> seat_messages L T' s = Inr (ms @ evts s)"
    "\<And>s. live_after (holds L T s) (evts s) = Some (holds L T' s)" by metis
  let ?ss = "remdups (map ev_stream_id (events T'))"
  let ?as = "concat (map (\<lambda>s. actions_of s (evts s)) ?ss)"
  have none: "evts s = []" if "s \<notin> set ?ss" for s
    using evts(1) [of s] stream_rows_absent [of s T'] that by (auto simp: seat_messages_def)
  have "do_actions ?as (holds L T) = Some (\<lambda>s. if s \<in> set ?ss then holds L T' s else holds L T s)"
    by (rule do_seats) (simp_all add: evts(2))
  moreover have "holds L T s = holds L T' s" if "s \<notin> set ?ss" for s using evts(2) [of s] none [OF that] by simp
  ultimately have "do_actions ?as (holds L T) = Some (holds L T')" by (auto simp: fun_eq_iff)
  moreover have "filter (\<lambda>a. seat_of a = s) ?as = actions_of s (evts s)" for s
    by (rule actions_on_seat) (simp_all add: none [simplified])
  ultimately show ?thesis using evts(1) by blast
qed

theorem service_refines_inventory_witness:
  "\<exists>T S as. demo_reach {} (T, S) \<and> do_actions as (holds demo_lib (tbl empty_db)) = Some (holds demo_lib T) \<and>
     filter (\<lambda>a. seat_of a = ''14A'') as = [Takes ''14A'' ''h1'', Frees ''14A'' ''h1'', Takes ''14A'' ''h2'']"
proof -
  obtain T S where T: "demo_reach {} (T, S)"
    "seat_messages demo_lib T ''14A'' = Inr [demo_held ''h1'', demo_released ''h1'', demo_held ''h2'']"
    using demo_service_run by fastforce
  from service_refines_inventory [OF reachable_start T(1) [unfolded reachable_def]] obtain as where as:
    "do_actions as (holds demo_lib (tbl empty_db)) = Some (holds demo_lib T)"
    "\<exists>ms evts. seat_messages demo_lib (tbl empty_db) ''14A'' = Inr ms \<and> seat_messages demo_lib T ''14A'' = Inr (ms @ evts) \<and>
       filter (\<lambda>a. seat_of a = ''14A'') as = actions_of ''14A'' evts" by blast
  have "seat_messages demo_lib (tbl empty_db) ''14A'' = Inr []" using seat_messages_empty by simp
  with as(2) T(2) have "filter (\<lambda>a. seat_of a = ''14A'') as =
      actions_of ''14A'' [demo_held ''h1'', demo_released ''h1'', demo_held ''h2'']" by auto
  then show ?thesis using T(1) as(1) by (auto simp: demo_messages)
qed

end
