(* ===== verification/Overdue.thy ===== *)
theory Overdue
  imports Deadlines
begin

text \<open>
  What one pass of the timer scheduler achieves while the rest of the service goes on: a timer whose
  firing succeeded is spent and stays spent, so a seat that is still held after the pass has a timer
  that was not due yet, was set during the pass, or whose firing failed and was logged.
\<close>

section \<open>A spent timer stays spent\<close>

definition spent :: "int \<Rightarrow> tables \<Rightarrow> bool" where
  "spent i T \<longleftrightarrow> list_all (\<lambda>r. tm_id r = i \<longrightarrow> tm_fired_at r \<noteq> None) (timers T)"

text \<open>A pending timer is either new or has been pending, as it is, all along.\<close>

definition pending_law :: "state \<Rightarrow> state \<Rightarrow> bool" where
  "pending_law x y \<longleftrightarrow> (schema_ok x \<longrightarrow> schema_ok y \<and> rows_kept x y \<and>
     (\<forall>r \<in> set (timers (fst y)). tm_fired_at r = None \<and> tm_id r \<le> timers_seq (snd x) \<longrightarrow> r \<in> set (timers (fst x))))"

lemma pending_stmt:
  assumes "schema_law (T, S) (T', S')"
    and "\<And>r. r \<in> set (timers T') \<Longrightarrow> tm_fired_at r = None \<Longrightarrow> tm_id r \<le> timers_seq S \<Longrightarrow> r \<in> set (timers T)"
  shows "pending_law (T, S) (T', S')"
  using assms by (auto simp: pending_law_def schema_law_def)

lemma pending_same: "schema_law (T, S) (T', S') \<Longrightarrow> timers T' = timers T \<Longrightarrow> pending_law (T, S) (T', S')"
  by (rule pending_stmt) simp_all

lemma pending_trans:
  assumes "pending_law x y" "pending_law y z"
  shows "pending_law x z"
proof -
  have "rows_kept x y \<Longrightarrow> timers_seq (snd x) \<le> timers_seq (snd y)" by (simp add: rows_kept_def seqs_le_def)
  then show ?thesis using assms unfolding pending_law_def by (meson rows_kept_trans order_trans)
qed

lemma spent_stays:
  assumes "pending_law x y" "schema_ok x" "i \<le> timers_seq (snd x)" "spent i (fst x)"
  shows "spent i (fst y)"
  using assms by (auto simp: pending_law_def spent_def list_all_iff)

interpretation pending: statement_law pending_law
proof (unfold_locales, goal_cases)
  case (1 x)
  show ?case by (simp add: pending_law_def rows_kept_refl)
next
  case (2 x y z)
  then show ?case by (rule pending_trans)
next
  case (3 S S' T)
  then show ?case by (intro pending_same schema_law_drawn) simp_all
next
  case (4 c s i T S e)
  then show ?case by (intro pending_same schema_consume) (simp_all add: inbox_markSQL_frame [OF refl])
next
  case (5 e fa s k T S x T' S')
  then show ?case by (intro pending_stmt schema_schedule) (auto simp: scheduleSQL_def)
next
  case (6 ms T S x T' S')
  then show ?case by (intro pending_same schema_enqueue) (auto simp: enqueueSQL_def)
qed

lemma pending_append:
  "append_columns 0 evs = Inr cs \<Longrightarrow> appendSQL e s v cs T S = (Inr (x, T'), S') \<Longrightarrow> pending_law (T, S) (T', S')"
  by (intro pending_same schema_append) (auto dest: appendSQL_timers)

lemma pending_mark_fired: "pending_law (T, S) (snd (markFiredSQL e i T), S)"
  by (rule pending_stmt [OF schema_mark_fired]) (auto simp: markFiredSQL_def split: if_splits)

lemma pending_AppendSeat:
  assumes "rely pending_law e" "AppendSeat L e s v evts meta t = (r, t')"
  shows "pending_law (view t, seqs t) (view t', seqs t')"
  using pending.keeps_AppendSeat [OF assms(1) pending_append] assms(2) by (rule keeps_stateD)

lemma pending_claimAndFire:
  assumes "rely pending_law e" "claimAndFire (Fire L enc ids) e tm t0 = (Inr claimed, t)"
  shows "pending_law (view t0, seqs t0) (view t, seqs t)"
  by (rule pending.claimAndFire_law [OF assms pending_mark_fired]) (rule pending_AppendSeat [OF assms(1)])

interpretation pending_service: service_law pending_law L enc tz B rb for L enc tz B rb
proof (unfold_locales, goal_cases)
  case (1 e cmd s ids inc db t)
  from pending.applyCommand_law [OF 1(2,5)] pending_AppendSeat [OF 1(2)] show ?case by simp
next
  case (2 e row T0 S0 db ids claimed t)
  from 2(5) pending_claimAndFire [OF 2(2,6)] show ?case by (simp add: pending_trans)
next
  case (3 e locked db batch t1 t)
  show ?case by (rule pending.marked_law [OF 3(2,4,6)]) (intro pending_same schema_mark, simp add: markSQL_def)
next
  case (4 e s t0 t)
  have "pending_law (T, S) (snd (upsertAvailabilitySQL new T), S)" for T S new
    by (intro pending_same schema_upsert) (simp add: upsertAvailabilitySQL_def)
  then show ?case using keeps_stateD [OF pending.keeps_project [OF 4(2)] 4(4)] by simp
next
  case (5 T S)
  show ?case by (intro pending_same schema_deletes) (simp add: clearSQL_def)
next
  case (6 T S e d)
  show ?case by (intro pending_same schema_deletes) (simp add: outbox_pruneSQL_def)
next
  case (7 T S e d)
  show ?case by (intro pending_stmt schema_deletes) (auto simp: timers_pruneSQL_def)
next
  case (8 T S e d)
  show ?case by (intro pending_same schema_deletes) (simp add: inbox_pruneSQL_def)
qed

lemma service_rely_pending: "rely (service_steps L enc tz B rb) e \<Longrightarrow> rely pending_law e"
  by (erule rely_mono) (rule pending_service.service_obeys(2))

section \<open>One pass\<close>

lemma markFired_spends: "spent i (snd (markFiredSQL e i T))"
proof -
  have "list_all (\<lambda>r. tm_id r = i \<longrightarrow> tm_fired_at r \<noteq> None)
      (map (\<lambda>r. if tm_id r = i \<and> tm_fired_at r = None then r\<lparr>tm_fired_at := Some (now e)\<rparr> else r) rs)" for rs
    by (induction rs) simp_all
  then show ?thesis by (simp add: spent_def markFiredSQL_def)
qed

lemma MarkFired_spends:
  assumes "MarkFired e i t = (Inr got, t')"
  shows "spent i (view t')"
  unfolding MarkFired_ok(1) [OF assms] by (rule markFired_spends)

lemma claimAndFire_spends:
  assumes "rely pending_law e" "claimAndFire (Fire L enc ids) e tm t0 = (Inr claimed, t)"
    and "schema_ok (view t0, seqs t0)" "tr_ID tm \<le> timers_seq (seqs t0)"
  shows "spent (tr_ID tm) (view t)"
proof -
  have marked: "schema_ok (view t1, seqs t1) \<and> tr_ID tm \<le> timers_seq (seqs t1) \<and> spent (tr_ID tm) (view t1)"
    if "MarkFired e (tr_ID tm) t0 = (Inr got, t1)" for got t1
  proof -
    have "pending_law (view t0, seqs t0) (view t1, seqs t1)"
      using keeps_stateD [OF pending.keeps_MarkFired [OF assms(1) pending_mark_fired] that] .
    then show ?thesis using assms(3,4) MarkFired_spends [OF that] by (auto simp: pending_law_def rows_kept_def seqs_le_def)
  qed
  have stays: "spent (tr_ID tm) (view t)"
    if "MarkFired e (tr_ID tm) t0 = (Inr got, t1)" "pending_law (view t1, seqs t1) (view t, seqs t)" for got t1
    using spent_stays [OF that(2)] marked [OF that(1)] by simp
  show ?thesis
    using assms(2)
  proof (cases rule: claimAndFire_ok_cases)
    case lost
    then show ?thesis using marked by blast
  next
    case (stale st m t1)
    from stays [OF stale(1) pending.loaded_law [OF stale(2) assms(1)]] show ?thesis .
  next
    case (expired st m out msgs t1 t2 t3)
    have "pending_law (view t1, seqs t1) (view t3, seqs t3)"
      using pending.loaded_law [OF expired(2) assms(1)] pending_AppendSeat [OF assms(1) expired(5)] by (rule pending_trans)
    then have "pending_law (view t1, seqs t1) (view t, seqs t)"
      using pending.enqueued_law [OF expired(7) assms(1)] by (rule pending_trans)
    with expired(1) show ?thesis by (rule stays)
  qed
qed

lemma fireOne_law:
  assumes "rely pending_law e" "fireOne (Fire L enc ids) e tm db = (r, db')"
  shows "pending_law (state_of db) (state_of db')"
  using assms(2) [unfolded fireOne_def] expirer.keeps_base_claimAndFire pending.law_refl
  by (rule pending.WithTx_law [OF assms(1)]) (use pending_claimAndFire [OF assms(1)] in fastforce)

lemma fireOne_spends:
  assumes "rely pending_law e" "fireOne (Fire L enc ids) e tm db = (Inr claimed, db')"
    and "schema_ok (state_of db)" "tr_ID tm \<le> timers_seq (sqs db)"
  shows "spent (tr_ID tm) (tbl db')"
proof -
  from expirer.atomic [OF assms(2)] obtain u where u:
    "claimAndFire (Fire L enc ids) e tm (begin_tx db) = (Inr claimed, u)"
    "tbl db' = others e (stmts u) (seqs u) (view u)"
    by auto
  have "pending_law (state_of db) (view u, seqs u)" using pending_claimAndFire [OF assms(1) u(1)] by simp
  then have "schema_ok (view u, seqs u)" "tr_ID tm \<le> timers_seq (seqs u)"
    using assms(3,4) by (auto simp: pending_law_def rows_kept_def seqs_le_def)
  moreover have "spent (tr_ID tm) (view u)" using claimAndFire_spends [OF assms(1) u(1)] assms(3,4) by simp
  ultimately show ?thesis using spent_stays [OF relyD [OF assms(1), of "view u" "seqs u" "stmts u"]] u(2) by simp
qed

lemma fireEach_spends:
  assumes "\<And>i. rely pending_law (envs i)" "\<And>i. \<not> cancelled i"
    and "schema_ok (state_of db)" "\<And>t. t \<in> set ts \<Longrightarrow> tr_ID t \<le> timers_seq (sqs db)"
    and "fireEach (Fire L enc ids) envs cancelled i ts db = ((fired, logged), db')"
  shows "pending_law (state_of db) (state_of db') \<and>
    (\<forall>t \<in> set ts. tr_ID t \<in> fst ` set logged \<or> spent (tr_ID t) (tbl db'))"
  using assms(3-)
proof (induction ts arbitrary: db i fired logged)
  case Nil
  then show ?case by (simp add: pending.law_refl)
next
  case (Cons t ts)
  obtain r db1 where one: "fireOne (Fire L enc ids) (envs i) t db = (r, db1)"
    by (cases "fireOne (Fire L enc ids) (envs i) t db")
  obtain fired1 logged1 where rest: "fireEach (Fire L enc ids) envs cancelled (Suc i) ts db1 = ((fired1, logged1), db')"
    using Cons.prems(3) one by (auto split: prod.splits sum.splits)
  have log: "set logged = set logged1 \<union> (case r of Inl err \<Rightarrow> {(tr_ID t, err)} | Inr _ \<Rightarrow> {})"
    using Cons.prems(3) one rest assms(2) [of i] by (auto split: sum.splits if_splits)
  note law = fireOne_law [OF assms(1) one]
  have ok1: "schema_ok (state_of db1)" and ids1: "tr_ID u \<le> timers_seq (sqs db1)" if "u \<in> set (t # ts)" for u
    using law Cons.prems(1,2) that by (auto simp: pending_law_def rows_kept_def seqs_le_def intro: order_trans)
  note ih = Cons.IH [OF ok1 [of t] ids1 rest, simplified]
  have "tr_ID t \<in> fst ` set logged \<or> spent (tr_ID t) (tbl db')"
  proof (cases r)
    case (Inr claimed)
    with fireOne_spends [OF assms(1)] one Cons.prems(1,2) have "spent (tr_ID t) (tbl db1)" by simp
    then show ?thesis using spent_stays [of "state_of db1" "state_of db'"] ih ok1 [of t] ids1 [of t] by simp
  qed (simp add: log)
  then show ?case using ih law log by (auto intro: pending_trans)
qed

lemma Due_ok_cases:
  assumes "rely pending_law e" "Due e n db = (Inr due, db1)"
  obtains T0 S0 where "due = map timer_of (dueSQL e n T0)" "pending_law (state_of db) (T0, S0)"
    "pending_law (T0, S0) (state_of db1)"
proof -
  have "pool_exec e (select_stmt (\<lambda>T. map timer_of (dueSQL e n T))) db = (Inr due, db1)"
    using assms(2) by (auto simp: Due_def wrapE_def split: prod.splits sum.splits)
  then show ?thesis using pending.pool_select_law [OF assms(1)] that by metis
qed

lemma dueSQL_subset: "set (dueSQL e n T) \<subseteq> set (timers T)"
  by (auto simp: dueSQL_def dest!: in_set_takeD)

lemma due_all:
  assumes "length (dueSQL e n T) < n" "r \<in> set (timers T)" "tm_fired_at r = None" "tm_fire_at r \<le> now e"
  shows "r \<in> set (dueSQL e n T)"
  using assms by (auto simp: dueSQL_def is_due_def min_def split: if_splits)

lemma Tick_spends:
  assumes "\<And>i. rely pending_law (envs i)" "\<And>i. \<not> cancelled i" "schema_ok (state_of db)"
    and "Tick (Fire L enc ids) envs cancelled db = (Inr (fired, logged), db')"
    and "Due (envs 0) Scheduler_BatchSize db = (Inr due, db1)" "length due < Scheduler_BatchSize"
    and "r \<in> set (timers (tbl db'))" "tm_fired_at r = None"
  shows "now (envs 0) < tm_fire_at r \<or> timers_seq (sqs db) < tm_id r \<or> tm_id r \<in> fst ` set logged"
proof (rule ccontr)
  assume "\<not> ?thesis"
  then have r: "tm_fire_at r \<le> now (envs 0)" "tm_id r \<le> timers_seq (sqs db)" "tm_id r \<notin> fst ` set logged" by auto
  obtain T0 S0 where T0: "due = map timer_of (dueSQL (envs 0) Scheduler_BatchSize T0)"
    "pending_law (state_of db) (T0, S0)" "pending_law (T0, S0) (state_of db1)"
    using Due_ok_cases [OF assms(1,5)] .
  have fire: "fireEach (Fire L enc ids) envs cancelled 1 due db1 = ((fired, logged), db')"
    using assms(4,5) by (auto simp: Tick_def split: prod.splits)
  have ok: "schema_ok (T0, S0)" "schema_ok (state_of db1)" "timers_seq (sqs db) \<le> timers_seq S0"
    "timers_seq S0 \<le> timers_seq (sqs db1)"
    using T0(2,3) assms(3) by (auto simp: pending_law_def rows_kept_def seqs_le_def)
  have "tr_ID t \<le> timers_seq (sqs db1)" if t: "t \<in> set due" for t
  proof -
    obtain q where "q \<in> set (timers T0)" "tr_ID t = tm_id q"
      using t dueSQL_subset by (fastforce simp: T0(1) timer_of_def)
    then show ?thesis using ok by (force simp: schema_ok_def timers_wf_def list_all_iff)
  qed
  note fired = fireEach_spends [OF assms(1,2) ok(2) this fire]
  then have "pending_law (T0, S0) (state_of db')" using T0(3) pending_trans by blast
  then have "r \<in> set (timers T0)" using assms(7,8) r(2) ok by (auto simp: pending_law_def)
  then have "timer_of r \<in> set due" using due_all [of "envs 0" Scheduler_BatchSize T0 r] assms(6,8) r(1) by (simp add: T0(1))
  then have "spent (tm_id r) (tbl db')" using fired r(3) by (force simp: timer_of_def)
  then show False using assms(7,8) by (auto simp: spent_def list_all_iff)
qed

section \<open>Property\<close>

text \<open>
  C10. No hold outlives its deadline unnoticed: after a pass of the scheduler that read all the due
  timers, run against any failures and any interleaving with the other sessions, a seat that is still
  held has a pending timer for that very hold, and that timer was not due when the pass began, was set
  while it ran, or belongs to a firing that failed and is in the log, to be tried again.
\<close>

theorem overdue_holds_expire:
  assumes "reachable L enc tz B rb (state_of db)" "\<forall>i. rely (service_steps L enc tz B rb) (envs i) \<and> server L tz (envs i)"
    and "\<forall>i. \<not> cancelled i" "Tick (Fire L enc ids) envs cancelled db = (Inr (fired, logged), db')"
    and "Due (envs 0) Scheduler_BatchSize db = (Inr due, db1)" "length due < Scheduler_BatchSize"
    and "seat_messages L (tbl db') s = Inr ms" "Fold L ms = Inr st" "ss_Status st = StatusHeld"
  shows "\<exists>r \<in> set (timers (tbl db')). tm_subject r = s \<and> tm_token r = ss_HoldID st \<and>
    tm_fire_at r = tz (ss_ExpiresAt st) \<and> tm_fired_at r = None \<and>
    (now (envs 0) < tm_fire_at r \<or> timers_seq (sqs db) < tm_id r \<or> tm_id r \<in> fst ` set logged)"
proof -
  have "service_step L enc tz B rb (state_of db) (state_of db')"
    using assms(2,4) by (intro service_intros(2)) blast+
  then have "reachable L enc tz B rb (state_of db')" using assms(1) by (blast intro: reachable_steps service_steps_one)
  then obtain r where r: "r \<in> set (timers (tbl db'))" "tm_subject r = s" "tm_token r = ss_HoldID st"
    "tm_fire_at r = tz (ss_ExpiresAt st)" "tm_fired_at r = None"
    using reachable_armed [of L enc tz B rb "tbl db'" "sqs db'", OF _ assms(7-9)] unfolding armed_def by auto
  moreover have "now (envs 0) < tm_fire_at r \<or> timers_seq (sqs db) < tm_id r \<or> tm_id r \<in> fst ` set logged"
    using assms(2,3) reachable_schema [OF assms(1)] r(1,5)
    by (intro Tick_spends [OF _ _ _ assms(4-6)]) (auto intro: service_rely_pending)
  ultimately show ?thesis by blast
qed

definition early_env :: env where
  "early_env = calm_env\<lparr>now := 500\<rparr>"

lemma early_env: "quiet early_env" "server demo_lib (\<lambda>t. t) early_env" "now early_env = 500"
  using server_demo by (simp_all add: early_env_def server_def codec_ok_def quiet_def calm_env_def)

theorem overdue_holds_expire_witness:
  "\<exists>db r. demo_reach {} (state_of db) \<and>
     Tick (Fire demo_lib demo_enc demo_ids) (\<lambda>_. early_env) (\<lambda>_. False) db = (Inr (0, []), db) \<and>
     r \<in> set (timers (tbl db)) \<and> tm_token r = ''h1'' \<and> tm_fired_at r = None \<and>
     (now early_env < tm_fire_at r \<or> timers_seq (sqs db) < tm_id r)"
proof -
  obtain db :: database and n where db: "demo_reach {} (state_of db)" "seat_messages demo_lib (tbl db) ''14A'' = Inr [demo_held ''h1'']"
    "timers (tbl db) = timer_rows calm_env n ''14A'' [\<lparr>st_FireAt = 900, st_Token = ''h1''\<rparr>]"
    using demo_held_step by blast
  have due: "Due early_env Scheduler_BatchSize db = (Inr [], db)"
    by (simp add: Due_def wrapE_def quiet_pool_select early_env dueSQL_def db(3) is_due_def) (simp add: calm_env_def)
  have tick: "Tick (Fire demo_lib demo_enc demo_ids) (\<lambda>_. early_env) (\<lambda>_. False) db = (Inr (0, []), db)"
    by (simp add: Tick_def due)
  have env: "rely (service_steps demo_lib demo_enc (\<lambda>t. t) {} False) early_env"
    by (rule rely_quiet [OF early_env(1)]) (rule service_intros)
  have "\<exists>r \<in> set (timers (tbl db)). tm_subject r = ''14A'' \<and> tm_token r = ss_HoldID demo_state \<and>
      tm_fire_at r = ss_ExpiresAt demo_state \<and> tm_fired_at r = None \<and>
      (now early_env < tm_fire_at r \<or> timers_seq (sqs db) < tm_id r \<or> tm_id r \<in> fst ` set [])"
    using overdue_holds_expire [where envs = "\<lambda>_. early_env" and cancelled = "\<lambda>_. False", OF db(1) _ _ tick due _ db(2) held_tables_fold]
    by (simp add: env early_env(2) Scheduler_BatchSize_def demo_state_def)
  then show ?thesis using db(1) tick by (fastforce simp: demo_state_def)
qed

end
