(* ===== verification/Answers.thy ===== *)
theory Answers
  imports Delivery
begin

text \<open>
  A command is never swallowed: whatever the inbox says was consumed has an answer in the outbox or on
  the broker, in every run of the service. It is the second of the two dues of theory Delivery.
\<close>

section \<open>The answer to a command\<close>

text \<open>On the events topic, naming as its cause the message the command came in.\<close>

definition answer_to :: "string \<Rightarrow> Message \<Rightarrow> bool" where
  "answer_to i m \<longleftrightarrow> msg_Topic m = EventsTopic \<and> map_get (msg_Headers m) ''ce_causationid'' = i"

abbreviation answered :: "krecord set \<Rightarrow> tables \<Rightarrow> string \<Rightarrow> bool" where
  "answered B T i \<equiv> met answer_to B T i"

abbreviation answered_upto ::
  "krecord set \<Rightarrow> (string \<times> string \<times> string) set \<Rightarrow> state \<Rightarrow> state \<Rightarrow> bool" where
  "answered_upto \<equiv> owed_upto consumed (\<lambda>k. answer_to (snd (snd k)))"

abbreviation answer_law :: "krecord set \<Rightarrow> state \<Rightarrow> state \<Rightarrow> bool" where
  "answer_law B \<equiv> answered_upto B {}"

lemma met_answer: "met (\<lambda>k. answer_to (snd (snd k))) B T k = answered B T (snd (snd k))"
  by (simp add: met_def)

lemma answer_same:
  assumes "delivery_law B (T, S) (T', S')" "inbox T' = inbox T"
  shows "answer_law B (T, S) (T', S')"
  using assms by (intro owed_upto_same) (simp_all add: consumed_def)

lemma answer_append:
  assumes "append_columns 0 evs = Inr cs" "appendSQL e s v cs T S = (Inr (x, T'), S')"
  shows "answer_law B (T, S) (T', S')"
  using delivery_append [OF assms] assms(2) by (intro answer_same) (auto elim: appendSQL_okD)

lemma answer_AppendSeat:
  assumes "rely (answer_law B) e" "AppendSeat L e s v evts meta t = (r, t')"
  shows "answer_law B (view t, seqs t) (view t', seqs t')"
  by (rule keeps_stateD [OF owing.keeps_AppendSeat [OF assms(1) answer_append] assms(2)])

lemma answer_scheduled:
  assumes "rely (answer_law B) e" "scheduleTimers e s ts t = (r, t')"
  shows "answer_law B (view t, seqs t) (view t', seqs t')"
proof (rule keeps_stateD [OF owing.keeps_scheduleTimers_if [OF assms(1)] assms(2)])
  fix fa k x T S T' S'
  assume run: "scheduleSQL e fa s k T S = (Inr (x, T'), S')"
  then show "answer_law B (T, S) (T', S')"
    using delivery.schedule_stmt [OF run] by (intro answer_same) (auto simp: scheduleSQL_def)
qed

lemma answer_enqueue:
  assumes "validate_messages 0 ms = None" "enqueueSQL ms T S = (Inr (x, T'), S')"
  shows "answer_law B (T, S) (T', S')"
  using delivery.enqueue_stmt [OF assms] assms(2) by (intro answer_same) (auto simp: enqueueSQL_def)

lemma answer_enqueued:
  assumes "rely (answer_law B) e" "Enqueue e ms t = (r, t')"
  shows "answer_law B (view t, seqs t) (view t', seqs t')"
  by (rule keeps_stateD [OF owing.keeps_Enqueue_if [OF assms(1) answer_enqueue] assms(2)])

section \<open>A command\<close>

lemma MarkConsumed_upto:
  assumes "rely (answer_law B) e" "MarkConsumed e c s i t = (Inr first, t')"
  shows "answered_upto B (if first then {(c, s, i)} else {}) (view t, seqs t) (view t', seqs t')"
    "\<not> first \<Longrightarrow> (c, s, i) \<in> consumed (view t')"
proof -
  let ?U = "others e (stmts t) (seqs t) (view t)" and ?V = "others_seq e (stmts t) (seqs t)"
  obtain n where run: "exec e (update_stmt (inbox_markSQL e c s i)) t = (Inr n, t')" "first = (n = 1)"
    and ne: "c \<noteq> []" "s \<noteq> []" "i \<noteq> []"
    using assms(2) by (auto simp: MarkConsumed_def bindE_eq_Inr_iff split: if_splits)
  have t': "view t' = snd (inbox_markSQL e c s i ?U)" "seqs t' = ?V" "n = fst (inbox_markSQL e c s i ?U)"
    using exec_ok(5) [OF run(1)] by (auto simp: update_stmt_def)
  have new: "consumed (view t') \<subseteq> consumed ?U \<union> (if first then {(c, s, i)} else {})"
    using run(2) t'(3) unfolding t'(1) inbox_markSQL_consumed inbox_markSQL_rows by (auto split: if_splits)
  have "delivery_law B (?U, ?V) (view t', seqs t')" unfolding t' by (rule delivery.consume_stmt [OF ne])
  then have "answered_upto B (if first then {(c, s, i)} else {}) (?U, ?V) (view t', seqs t')"
    using new by (rule owed_upto_same)
  from owed_upto_trans [OF relyD [OF assms(1)] this]
  show "answered_upto B (if first then {(c, s, i)} else {}) (view t, seqs t) (view t', seqs t')" by simp
  show "(c, s, i) \<in> consumed (view t')" if "\<not> first"
    unfolding t'(1) inbox_markSQL_consumed by simp
qed

text \<open>The messages of a decision, once enqueued, answer the command.\<close>

lemma enqueue_answers:
  assumes "rely (answer_law B) e" "outgoing enc ids ms (reply_envelope inc s) = Inr msgs" "ms \<noteq> []"
    and "Enqueue e msgs t = (Inr (), t')" "delivery_ok B (view t, seqs t)"
  shows "answered B (view t') (env_ID inc)"
  using assms(4)
proof (cases rule: Enqueue_ok_cases)
  case none
  then show ?thesis using outgoing_from_topics [OF assms(2) [unfolded outgoing_def]] assms(3) by simp
next
  case (enqueued t1)
  obtain m ms' p rest where "ms = m # ms'" "msgs = outgoing_message (ids 0) (reply_envelope inc s) m p # rest"
    using assms(2,3) by (cases ms) (auto simp: outgoing_def split: sum.splits)
  then have "\<exists>o' \<in> set msgs. answer_to (env_ID inc) o'"
    by (simp add: answer_to_def outgoing_message_def Let_def reply_envelope_def map_get_Headers)
  then have "answered B (view t1) (env_ID inc)" using enqueued(4) unfolding met_def by blast
  moreover have "answer_law B (view t, seqs t) (view t1, seqs t1)"
    by (rule owing.exec_law [OF assms(1) draws_enqueueSQL enqueued(1)]) (rule answer_enqueue [OF enqueued(3)])
  moreover have "answer_law B (view t1, seqs t1) (view t', seqs t')"
    using keeps_stateD [OF owing.keeps_pg_notify [OF assms(1)] enqueued(2)] .
  ultimately show ?thesis using assms(5) met_kept [of B "view t1" "view t'" answer_to "env_ID inc"] by (simp add: owed_upto_def)
qed

definition all_answered :: "krecord set \<Rightarrow> state \<Rightarrow> bool" where
  "all_answered B x \<longleftrightarrow> delivery_ok B x \<and> (\<forall>k \<in> consumed (fst x). answered B (fst x) (snd (snd k)))"

lemma all_answered_step: "answer_law B x y \<Longrightarrow> all_answered B x \<Longrightarrow> all_answered B y"
  using met_kept [of B "fst x" "fst y" answer_to] by (auto simp: owed_upto_def all_answered_def met_answer)

lemma answer_command:
  assumes "rely (answer_law B) e" "applyCommand L enc e ids inc cmd s t0 = (Inr (), t)"
  shows "answer_law B (view t0, seqs t0) (view t, seqs t)"
    "all_answered B (view t0, seqs t0) \<Longrightarrow> answered B (view t) (env_ID inc)"
proof -
  let ?key = "(Consumer, env_Source inc, env_ID inc)"
  have "answer_law B (view t0, seqs t0) (view t, seqs t) \<and>
      (all_answered B (view t0, seqs t0) \<longrightarrow> answered B (view t) (env_ID inc))"
    using assms(2)
  proof (cases rule: applyCommand_ok_cases)
    case again
    have law: "answer_law B (view t0, seqs t0) (view t, seqs t)" using MarkConsumed_upto(1) [OF assms(1) again] by simp
    moreover have "?key \<in> consumed (view t)" using MarkConsumed_upto(2) [OF assms(1) again] by simp
    then have "answered B (view t) (env_ID inc)" if "all_answered B (view t0, seqs t0)"
      using all_answered_step [OF law that] by (force simp: all_answered_def)
    ultimately show ?thesis by blast
  next
    case (applied st m out msgs t1 t2 t3 t4)
    have "answered_upto B {?key} (view t0, seqs t0) (view t1, seqs t1)" using MarkConsumed_upto(1) [OF assms(1) applied(1)] by simp
    moreover have "answer_law B (view t1, seqs t1) (view t4, seqs t4)"
      using owing.loaded_law [OF applied(2) assms(1)] answer_AppendSeat [OF assms(1) applied(4)]
        answer_scheduled [OF assms(1) applied(5)] by (blast intro: owing.law_trans)
    ultimately have upto4: "answered_upto B {?key} (view t0, seqs t0) (view t4, seqs t4)"
      using owed_upto_trans by fastforce
    then have upto: "answered_upto B {?key} (view t0, seqs t0) (view t, seqs t)"
      using owed_upto_trans [OF _ answer_enqueued [OF assms(1) applied(7)]] by fastforce
    have "Messages out \<noteq> []" using Decide_reply [OF applied(3)] by auto
    then have "answered B (view t) (env_ID inc)" if "delivery_ok B (view t0, seqs t0)"
      using enqueue_answers [OF assms(1) applied(6) _ applied(7)] upto4 that by (simp add: owed_upto_def)
    then show ?thesis using owed_upto_done [OF upto] by (simp add: met_answer all_answered_def)
  qed
  then show "answer_law B (view t0, seqs t0) (view t, seqs t)"
    "all_answered B (view t0, seqs t0) \<Longrightarrow> answered B (view t) (env_ID inc)" by blast+
qed

section \<open>The service\<close>

interpretation answer_service: service_law "answer_law B" L enc tz B rb for L enc tz B rb
proof (unfold_locales, goal_cases)
  case (1 e cmd s ids inc db t)
  then show ?case using answer_command(1) [OF 1(2,5)] by simp
next
  case (2 e row T0 S0 db ids claimed t)
  have fired: "answer_law B (T, S) (snd (markFiredSQL e i T), S)" for T S i
    by (intro answer_same delivery_same schema_mark_fired) (simp_all add: markFiredSQL_def)
  have mark: "answer_law B (state_of db) (view t1, seqs t1)" if "MarkFired e i (begin_tx db) = (r, t1)" for i r t1
    using keeps_stateD [OF owing.keeps_MarkFired [OF 2(2) fired] that] by simp
  from 2(6) have "answer_law B (state_of db) (view t, seqs t)"
  proof (cases rule: claimAndFire_ok_cases)
    case lost
    then show ?thesis by (rule mark)
  next
    case (stale st m t1)
    then show ?thesis using mark owing.loaded_law 2(2) by (blast intro: owing.law_trans)
  next
    case (expired st m out msgs t1 t2 t3)
    have "answer_law B (view t1, seqs t1) (view t, seqs t)"
      using owing.loaded_law [OF expired(2) 2(2)] answer_AppendSeat [OF 2(2) expired(5)]
        answer_enqueued [OF 2(2) expired(7)] by (blast intro: owing.law_trans)
    then show ?thesis using mark [OF expired(1)] by (blast intro: owing.law_trans)
  qed
  with 2(5) show ?case by (rule owing.law_trans)
next
  case (3 e locked db batch t1 t)
  from service_rely_schema [OF 3(1)] 3(2,4-6) show ?case by (rule owed_drain) (simp add: markSQL_def consumed_def)
next
  case (4 e s t0 t)
  have "answer_law B (T, S) (snd (upsertAvailabilitySQL new T), S)" for T S new
    by (intro answer_same delivery_same schema_upsert) (simp_all add: upsertAvailabilitySQL_def)
  then show ?case using keeps_stateD [OF owing.keeps_project [OF 4(2)] 4(4)] by simp
next
  case (5 T S)
  show ?case by (intro answer_same delivery_same schema_deletes) (simp_all add: clearSQL_def)
next
  case (6 T S e d)
  show ?case by (intro answer_same delivery_prune) (simp add: outbox_pruneSQL_def)
next
  case (7 T S e d)
  show ?case by (intro answer_same delivery_same schema_deletes) (simp_all add: timers_pruneSQL_def)
next
  case (8 T S e d)
  have "delivery_law B (T, S) (snd (inbox_pruneSQL e d T), S)"
    by (intro delivery_same schema_deletes) (simp add: inbox_pruneSQL_def)
  then show ?case by (rule owed_upto_same) (auto simp: inbox_pruneSQL_def consumed_def)
qed

lemma reachable_answered:
  assumes "reachable L enc tz B rb x"
  shows "all_answered B x"
proof -
  have "delivery_ok B (state_of empty_db)"
    using reachable_schema [OF reachable_start]
    by (simp add: delivery_ok_def) (simp add: published_ok_def empty_db_def empty_tables_def)
  then have "all_answered B (state_of empty_db)"
    by (simp add: all_answered_def consumed_def) (simp add: empty_db_def empty_tables_def)
  with answer_service.service_obeys(2) [OF assms [unfolded reachable_def]] show ?thesis by (rule all_answered_step)
qed

text \<open>A call that returned without an error has been answered.\<close>

lemma attempt_answered:
  assumes "rely (service_steps L enc tz B rb) e" "all_answered B (state_of db)"
    and "applyInOneTransaction L enc e ids inc cmd db = (Inr (), db')"
  shows "answered B (tbl db') (env_ID inc)"
proof -
  have law: "rely (answer_law B) e"
    using assms(1) by (rule rely_mono) (rule answer_service.service_obeys(2))
  obtain s where "WithTx e (applyCommand L enc e ids inc cmd s) db = (Inr (), db')"
    using assms(3) by (auto simp: applyInOneTransaction_def split: sum.splits)
  from this keeps_base_applyCommand show ?thesis
  proof (cases rule: WithTx_cases)
    case (all x t)
    have run: "applyCommand L enc e ids inc cmd s (begin_tx db) = (Inr (), t)" using all(1) by simp
    note cmd = answer_command [OF law run]
    have "answered B (view t) (env_ID inc)" "delivery_ok B (view t, seqs t)"
      using cmd assms(2) by (simp_all add: all_answered_def owed_upto_def)
    moreover have "answer_law B (view t, seqs t) (state_of db')"
      unfolding all(3) by (rule owing.applied_law [OF law owing.law_refl])
    ultimately show ?thesis using met_kept [of B "view t" "tbl db'" answer_to] by (simp add: owed_upto_def)
  qed simp
qed

lemma Handle_answered:
  assumes "\<And>i. rely (service_steps L enc tz B rb) (envs i)" "\<And>i. server L tz (envs i)"
    and "reachable L enc tz B rb (state_of db)" "Handle L enc envs ids inc cmd db = (Inr (), k, db')"
  shows "answered B (tbl db') (env_ID inc)"
proof -
  have law: "rely (answer_law B) (envs i)" for i
    using assms(1) by (rule rely_mono) (rule answer_service.service_obeys(2))
  have "answered B (tbl db') (env_ID inc)"
    if "attempts L enc envs ids inc cmd i n err db = (Inr (), k, db')" "all_answered B (state_of db)" "0 < n" for i n err db
    using that
  proof (induction n arbitrary: i err db)
    case (Suc n)
    obtain r1 db1 where run: "applyInOneTransaction L enc (envs i) (ids i) inc cmd db = (r1, db1)"
      by (cases "applyInOneTransaction L enc (envs i) (ids i) inc cmd db")
    have "all_answered B (state_of db1)"
      using all_answered_step [OF answer_service.attempt_law [OF assms(1) law assms(2) run] Suc.prems(2)] .
    then show ?case
      using Suc.IH Suc.prems run attempt_answered [OF assms(1) Suc.prems(2)]
      by (cases n) (auto split: sum.splits if_splits)
  qed simp
  from this [OF assms(4) [unfolded Handle_def] reachable_answered [OF assms(3)]] show ?thesis by simp
qed

section \<open>Property\<close>

text \<open>
  C6. No command is swallowed: in every state the service can reach, whatever the inbox records as
  consumed has an answer, a message on the events topic that names the command as its cause, in the
  outbox or on the broker. So ignoring a redelivery never loses a reply.
\<close>

theorem consumed_commands_answered:
  assumes "reachable L enc tz B rb (T, S)" "r \<in> set (inbox T)"
  shows "\<exists>m. ((\<exists>ob \<in> set (outbox T). row_message ob = m) \<or> record_of m \<in> B) \<and>
    msg_Topic m = EventsTopic \<and> map_get (msg_Headers m) ''ce_causationid'' = ib_event_id r"
proof -
  have "inbox_key r \<in> consumed T" using assms(2) by (simp add: consumed_def)
  then have "answered B T (ib_event_id r)"
    using reachable_answered [OF assms(1)] by (auto simp: all_answered_def inbox_key_def)
  then show ?thesis unfolding met_def answer_to_def by blast
qed

theorem consumed_commands_answered_witness:
  "\<exists>T S r m. demo_reach {} (T, S) \<and> r \<in> set (inbox T) \<and> ib_event_id r = ''1'' \<and>
     m \<in> row_message ` set (outbox T) \<and> map_get (msg_Headers m) ''ce_causationid'' = ''1''"
proof -
  obtain db :: database where db: "demo_reach {} (state_of db)" "consumed (tbl db) = {(Consumer, ''/booking'', ''1'')}"
    using demo_held_step by blast
  have "(Consumer, ''/booking'', ''1'') \<in> inbox_key ` set (inbox (tbl db))" using db(2) by (simp add: consumed_def)
  then obtain r where r: "r \<in> set (inbox (tbl db))" "ib_event_id r = ''1''" by (auto simp: inbox_key_def)
  from consumed_commands_answered [OF db(1) r(1)]
  obtain m where "m \<in> row_message ` set (outbox (tbl db))" "map_get (msg_Headers m) ''ce_causationid'' = ''1''"
    using r(2) by auto
  with db(1) r show ?thesis by blast
qed

end
