(* ===== verification/Group.thy ===== *)
theory Group
  imports Kafka
begin

text \<open>
  The consumers of one group, over polls, commits, rebalances and restarts. The code is \<open>poll\<close> of
  \<open>Kafka\<close>, unchanged; around it stands what \<^verbatim>\<open>consumer.go\<close> says the options of \<open>NewConsumer\<close> make
  franz-go do: a poll returns the records of the member's partitions from its position on
  (\<^verbatim>\<open>PollRecords\<close>), nothing moves a partition while a batch is being handled
  (\<^verbatim>\<open>BlockRebalanceOnPoll\<close>), only marked offsets are committed (\<^verbatim>\<open>AutoCommitMarks\<close>, on a timer, on
  revocation and on \<^verbatim>\<open>Close\<close>), and a partition is resumed from its committed offset.
\<close>

type_synonym partition = "string \<times> int"

record 's member =
  mb_world :: "'s world"
  mb_position :: "partition \<Rightarrow> nat"
  mb_done :: bool

text \<open>\<open>gr_settled\<close>: the records any member has marked so far.\<close>

record 's group =
  gr_log :: "partition \<Rightarrow> krecord list"
  gr_committed :: "partition \<Rightarrow> nat"
  gr_owner :: "partition \<Rightarrow> nat option"
  gr_member :: "nat \<Rightarrow> 's member"
  gr_settled :: "krecord set"

definition of_partition :: "partition \<Rightarrow> krecord list \<Rightarrow> krecord list" where
  "of_partition tp krs = filter (\<lambda>kr. topicPartition kr = tp) krs"

text \<open>What a poll may return to a member.\<close>

definition fetchable :: "'s group \<Rightarrow> nat \<Rightarrow> krecord list \<Rightarrow> bool" where
  "fetchable g m krs \<longleftrightarrow> length krs \<le> pollBatch \<and>
     (\<forall>kr \<in> set krs. gr_owner g (topicPartition kr) = Some m) \<and>
     (\<forall>tp. prefix (of_partition tp krs) (drop (mb_position (gr_member g m) tp) (gr_log g tp)))"

definition polled :: "krecord list \<Rightarrow> bool option \<times> 's world \<Rightarrow> nat \<Rightarrow> 's group \<Rightarrow> 's group" where
  "polled krs out m g =
     (let mb = gr_member g m in
      g\<lparr>gr_member := (gr_member g)(m :=
           \<lparr>mb_world = snd out,
            mb_position = (\<lambda>tp. mb_position mb tp + length (of_partition tp krs)),
            mb_done = (fst out \<noteq> Some False)\<rparr>),
        gr_settled := gr_settled g \<union> set (marks (snd out))\<rparr>)"

text \<open>\<^verbatim>\<open>CommitMarkedOffsets\<close>, of one partition.\<close>

definition commit_marked :: "nat \<Rightarrow> partition \<Rightarrow> 's group \<Rightarrow> 's group" where
  "commit_marked m tp g =
     g\<lparr>gr_committed := (gr_committed g)(tp :=
         max (gr_committed g tp) (nat (committed (marks (mb_world (gr_member g m))) tp)))\<rparr>"

definition forget_marks :: "partition \<Rightarrow> 's member \<Rightarrow> 's member" where
  "forget_marks tp mb =
     mb\<lparr>mb_world := (mb_world mb)\<lparr>marks := filter (\<lambda>kr. topicPartition kr \<noteq> tp) (marks (mb_world mb))\<rparr>\<rparr>"

definition resume :: "partition \<Rightarrow> nat \<Rightarrow> 's member \<Rightarrow> 's member" where
  "resume tp offset mb = mb\<lparr>mb_position := (mb_position mb)(tp := offset)\<rparr>"

definition restart :: "'s \<Rightarrow> 's member \<Rightarrow> 's member" where
  "restart s mb = mb\<lparr>mb_world := (mb_world mb)\<lparr>hs := s, marks := []\<rparr>, mb_done := False\<rparr>"

text \<open>
  A revocation drops the marks that were not committed: committing them first is the step \<open>commits\<close>,
  which may have failed. A member that crashed is one whose partitions are revoked before it restarts.
\<close>

inductive broker_step :: "'s group \<Rightarrow> 's group \<Rightarrow> bool" where
  produced: "topicPartition kr = tp \<Longrightarrow> kr_Offset kr = int (length (gr_log g tp)) \<Longrightarrow>
     broker_step g (g\<lparr>gr_log := (gr_log g)(tp := gr_log g tp @ [kr])\<rparr>)"
| commits: "gr_owner g tp = Some m \<Longrightarrow> broker_step g (commit_marked m tp g)"
| revoked: "gr_owner g tp = Some m \<Longrightarrow>
     broker_step g
       (g\<lparr>gr_owner := (gr_owner g)(tp := None),
          gr_member := (gr_member g)(m := forget_marks tp (gr_member g m))\<rparr>)"
| assigned: "gr_owner g tp = None \<Longrightarrow>
     broker_step g
       (g\<lparr>gr_owner := (gr_owner g)(tp := Some m),
          gr_member := (gr_member g)(m := resume tp (gr_committed g tp) (forget_marks tp (gr_member g m)))\<rparr>)"
| restarted: "\<forall>tp. gr_owner g tp \<noteq> Some m \<Longrightarrow>
     broker_step g (g\<lparr>gr_member := (gr_member g)(m := restart s (gr_member g m))\<rparr>)"

text \<open>
  Between two polls of a member what its handler works on (the database) may change in any way: only
  whether its context is done is the member's own. What the broker does with the dead letters, if the
  consumer has a producer for them at all, differs from poll to poll.
\<close>

definition with_fate :: "(Record \<Rightarrow> nat \<Rightarrow> ack) \<Rightarrow> 's ConsumerConfig \<Rightarrow> 's ConsumerConfig" where
  "with_fate fate cfg = cfg\<lparr>cfg_DLQ := map_option (\<lambda>_. fate) (cfg_DLQ cfg)\<rparr>"

inductive group_step ::
  "'s ConsumerConfig \<Rightarrow> 's handler \<Rightarrow> ('s \<Rightarrow> bool) \<Rightarrow> 's group \<Rightarrow> 's group \<Rightarrow> bool"
  for cfg handler cancelled where
  polls: "\<not> mb_done (gr_member g m) \<Longrightarrow> fetchable g m (f_records f) \<Longrightarrow>
     cancelled s = cancelled (hs (mb_world (gr_member g m))) \<Longrightarrow>
     group_step cfg handler cancelled g
       (polled (f_records f) (poll (with_fate fate cfg) handler cancelled rnd f ((mb_world (gr_member g m))\<lparr>hs := s\<rparr>)) m g)"
| broker: "broker_step g g' \<Longrightarrow> group_step cfg handler cancelled g g'"

definition fresh_member :: "'s \<Rightarrow> 's member" where
  "fresh_member s =
     \<lparr>mb_world = \<lparr>hs = s, dlq_log = [], marks = [], waits = [], calls = 0, refused = []\<rparr>,
      mb_position = (\<lambda>_. 0), mb_done = False\<rparr>"

definition fresh_group :: "'s \<Rightarrow> 's group" where
  "fresh_group s = \<lparr>gr_log = (\<lambda>_. []), gr_committed = (\<lambda>_. 0), gr_owner = (\<lambda>_. None),
     gr_member = (\<lambda>_. fresh_member s), gr_settled = {}\<rparr>"

section \<open>What the consumer code needs of its surroundings\<close>

text \<open>
  A context that is done stays done (\<^verbatim>\<open>context.Context\<close>): no call of the handler undoes it. Of the
  broker nothing is assumed: it may refuse any dead letter. A record can then be left behind while its
  partition goes on (\<open>unsettled_skipped_by_next_poll\<close>), and \<open>skipped\<close> says which those are: the ones
  whose dead letter a member has logged as refused, and those that follow such a record closely enough
  to have come in the same batch.
\<close>

definition stays_cancelled :: "'s handler \<Rightarrow> ('s \<Rightarrow> bool) \<Rightarrow> bool" where
  "stays_cancelled handler cancelled \<longleftrightarrow> (\<forall>r s. cancelled s \<longrightarrow> cancelled (snd (handler r s)))"

definition refusals :: "'s group \<Rightarrow> krecord set" where
  "refusals g = (\<Union>m. set (refused (mb_world (gr_member g m))))"

definition skipped :: "'s group \<Rightarrow> partition \<Rightarrow> nat \<Rightarrow> bool" where
  "skipped g tp i \<longleftrightarrow> (\<exists>j \<le> i. i < j + pollBatch \<and> gr_log g tp ! j \<in> refusals g)"

section \<open>One batch\<close>

lemma attempt_from_cancelled:
  "attempt_from cfg handler cancelled rnd n r w = (res, w') \<Longrightarrow> stays_cancelled handler cancelled \<Longrightarrow>
     cancelled (hs w) \<Longrightarrow> cancelled (hs w')"
proof (induction cfg handler cancelled rnd n r w arbitrary: res w' rule: attempt_from.induct)
  case (1 cfg handler cancelled rnd n r w)
  obtain r0 s where h: "handler r (hs w) = (r0, s)" by (cases "handler r (hs w)")
  have "cancelled s" using 1(3,4) h unfolding stays_cancelled_def by (metis snd_conv)
  then show ?case
    using 1(2) h by (subst (asm) attempt_from.simps) (auto simp: Let_def split: option.splits if_splits)
qed

lemma deadLetter_keeps: "hs (snd (deadLetter cfg r err w)) = hs w" "set (dlq_log w) \<subseteq> set (dlq_log (snd (deadLetter cfg r err w)))"
proof -
  show "hs (snd (deadLetter cfg r err w)) = hs w"
    by (auto simp: deadLetter_def split: option.split prod.split sum.split)
  have "set (dlq_log w) \<subseteq> set log" if "Publish fate ms (dlq_log w) = (x, log)" for fate ms x log
    using that by (auto simp: Publish_def split: if_splits prod.splits option.splits dest: ProduceSync_mono)
  then show "set (dlq_log w) \<subseteq> set (dlq_log (snd (deadLetter cfg r err w)))"
    by (auto simp: deadLetter_def split: option.split prod.split sum.split)
qed

lemma deadLetter_frame:
  "marks (snd (deadLetter cfg r err w)) = marks w" "refused (snd (deadLetter cfg r err w)) = refused w"
  by (auto simp: deadLetter_def split: option.split prod.split sum.split)

lemma deadLetter_written:
  "deadLetter cfg r err w = (None, w') \<Longrightarrow> record_of (dlq_message r err) \<in> set (dlq_log w')"
  by (auto simp: deadLetter_def split: option.splits prod.splits sum.splits dest: Publish_ok)

text \<open>
  A record is settled by its handler having accepted it or by its dead letter being written; when it
  is not, the context is done.
\<close>

definition settled :: "'s handler \<Rightarrow> krecord list \<Rightarrow> krecord \<Rightarrow> bool" where
  "settled handler log kr \<longleftrightarrow>
     (\<exists>s s'. handler (toRecord kr) s = (None, s')) \<or> (\<exists>err. record_of (dlq_message (toRecord kr) err) \<in> set log)"

lemma settled_mono: "settled handler log kr \<Longrightarrow> set log \<subseteq> set log' \<Longrightarrow> settled handler log' kr"
  by (auto simp: settled_def)

lemma attempt_from_ok:
  "attempt_from cfg handler cancelled rnd n r w = (Some None, w') \<Longrightarrow> \<exists>s s'. handler r s = (None, s')"
proof (induction cfg handler cancelled rnd n r w arbitrary: w' rule: attempt_from.induct)
  case (1 cfg handler cancelled rnd n r w)
  obtain r0 s where h: "handler r (hs w) = (r0, s)" by (cases "handler r (hs w)")
  show ?case
    using 1(2) 1(1) [OF h [symmetric] refl] h
    by (subst (asm) attempt_from.simps) (auto simp: Let_def split: option.splits if_splits)
qed

lemma handle_outcome:
  assumes "handle cfg handler cancelled rnd kr w = (res, w')"
  shows "set (dlq_log w) \<subseteq> set (dlq_log w')" "set (refused w) \<subseteq> set (refused w')"
    "res = Some False \<Longrightarrow> cancelled (hs w') \<or> kr \<in> set (refused w')"
    "res = Some True \<Longrightarrow> settled handler (dlq_log w') kr"
    "stays_cancelled handler cancelled \<Longrightarrow> cancelled (hs w) \<Longrightarrow> cancelled (hs w')"
proof -
  obtain a w1 where at: "attempt_from cfg handler cancelled rnd 1 (toRecord kr) w = (a, w1)"
    by (cases "attempt_from cfg handler cancelled rnd 1 (toRecord kr) w")
  obtain d w2 where dl: "deadLetter cfg (toRecord kr) (the (the a)) w1 = (d, w2)" by (metis prod.collapse)
  note run = assms(1) [unfolded handle_def attempt_def at Let_def]
  note w1 = attempt_from_world [OF at]
  have w2: "set (dlq_log w1) \<subseteq> set (dlq_log w2)" "refused w2 = refused w1" "hs w2 = hs w1"
    using deadLetter_keeps [where w = w1 and cfg = cfg and r = "toRecord kr" and err = "the (the a)"]
      deadLetter_frame [of cfg "toRecord kr" "the (the a)" w1] dl by simp_all
  show "set (dlq_log w) \<subseteq> set (dlq_log w')" "set (refused w) \<subseteq> set (refused w')"
    using run w1 w2 dl by (auto split: option.splits if_splits prod.splits)
  show "cancelled (hs w') \<or> kr \<in> set (refused w')" if "res = Some False"
    using run that by (auto split: option.splits if_splits prod.splits)
  show "settled handler (dlq_log w') kr" if "res = Some True"
    using run that attempt_from_ok [of cfg handler cancelled rnd 1 "toRecord kr" w w1] at
    by (auto simp: settled_def split: option.splits if_splits prod.splits dest: deadLetter_written)
  show "cancelled (hs w')" if "stays_cancelled handler cancelled" "cancelled (hs w)"
    using run attempt_from_cancelled [OF at that] w2 dl by (auto split: option.splits if_splits prod.splits)
qed

text \<open>
  In each partition the batch is marked to its end, or up to a record whose dead letter was refused.
\<close>

definition stops_at_refusal :: "krecord list \<Rightarrow> krecord list \<Rightarrow> krecord list \<Rightarrow> partition \<Rightarrow> bool" where
  "stops_at_refusal refs krs ms tp \<longleftrightarrow>
     (\<exists>rest. of_partition tp krs = of_partition tp ms @ rest \<and> (rest \<noteq> [] \<longrightarrow> hd rest \<in> set refs))"

lemma stops_marked: "stops_at_refusal refs krs ms tp \<Longrightarrow> stops_at_refusal refs (kr # krs) (kr # ms) tp"
  by (auto simp: stops_at_refusal_def of_partition_def)

lemma stops_elsewhere: "stops_at_refusal refs krs ms tp \<Longrightarrow> topicPartition kr \<noteq> tp \<Longrightarrow> stops_at_refusal refs (kr # krs) ms tp"
  by (auto simp: stops_at_refusal_def of_partition_def)

lemma stops_here:
  assumes "kr \<in> set refs" "\<forall>k \<in> set ms. topicPartition k \<noteq> topicPartition kr"
  shows "stops_at_refusal refs (kr # krs) ms (topicPartition kr)"
proof -
  have "of_partition (topicPartition kr) ms = []" using assms(2) by (auto simp: of_partition_def filter_empty_conv)
  then show ?thesis using assms(1) by (simp add: stops_at_refusal_def of_partition_def)
qed

lemma handle_records_outcome:
  assumes "handle_records cfg handler cancelled rnd stalled krs w = (res, w')" "stays_cancelled handler cancelled"
  shows "set (dlq_log w) \<subseteq> set (dlq_log w') \<and> set (refused w) \<subseteq> set (refused w') \<and>
    (cancelled (hs w) \<longrightarrow> cancelled (hs w')) \<and>
    (\<forall>kr \<in> set (marks w') - set (marks w). settled handler (dlq_log w') kr)"
  using assms(1)
proof (induction krs arbitrary: stalled w)
  case (Cons kr krs)
  show ?case
  proof (cases "topicPartition kr \<in> set stalled")
    case True
    then show ?thesis using Cons.IH [of stalled w] Cons.prems by auto
  next
    case False
    obtain b w1 where h: "handle cfg handler cancelled (rnd kr) kr w = (b, w1)"
      by (cases "handle cfg handler cancelled (rnd kr) kr w")
    note m1 = handle_marks [OF h] and o1 = handle_outcome [OF h]
    show ?thesis
    proof (cases b)
      case None
      then show ?thesis using Cons.prems False h m1 o1(1,2,5) assms(2) by auto
    next
      case (Some x)
      then obtain st where "handle_records cfg handler cancelled rnd st krs w1 = (res, w')"
        using Cons.prems False h by (auto split: bool.splits)
      note ih = Cons.IH [OF this]
      have "settled handler (dlq_log w') k" if "k \<in> set (marks w1) - set (marks w)" for k
        using that m1 o1(4) ih settled_mono [of handler "dlq_log w1" k "dlq_log w'"] by (auto split: if_splits)
      then show ?thesis using ih o1(1,2,5) assms(2) by blast
    qed
  qed
qed simp

lemma handle_records_stops:
  assumes "handle_records cfg handler cancelled rnd stalled krs w = (Some (), w')" "stays_cancelled handler cancelled"
    and "\<not> cancelled (hs w')" "marks w' = marks w @ ms" "tp \<notin> set stalled"
  shows "stops_at_refusal (refused w') krs ms tp"
  using assms(1,4,5)
proof (induction krs arbitrary: stalled w ms)
  case Nil
  then show ?case by (simp add: stops_at_refusal_def of_partition_def)
next
  case (Cons kr krs)
  show ?case
  proof (cases "topicPartition kr \<in> set stalled")
    case True
    then have "topicPartition kr \<noteq> tp" using Cons.prems(3) by metis
    then show ?thesis using Cons True by (intro stops_elsewhere) auto
  next
    case False
    obtain b w1 where h: "handle cfg handler cancelled (rnd kr) kr w = (b, w1)"
      by (cases "handle cfg handler cancelled (rnd kr) kr w")
    note m1 = handle_marks [OF h] and o1 = handle_outcome [OF h]
    obtain x where x: "b = Some x" using Cons.prems(1) False h by (cases b) auto
    show ?thesis
    proof (cases x)
      case True
      then have rest: "handle_records cfg handler cancelled rnd stalled krs w1 = (Some (), w')"
        using Cons.prems(1) False h x by simp
      from handle_records_prefix [OF this] obtain ms' where ms': "marks w' = marks w1 @ ms'" by blast
      then have "ms = kr # ms'" using Cons.prems(2) m1 x True by simp
      then show ?thesis using Cons.IH [OF rest ms' Cons.prems(3)] stops_marked by simp
    next
      case unsettled: False
      then have rest: "handle_records cfg handler cancelled rnd (topicPartition kr # stalled) krs w1 = (Some (), w')"
        using Cons.prems(1) False h x by simp
      have ms: "marks w' = marks w1 @ ms" using Cons.prems(2) m1 x unsettled by simp
      note out = handle_records_outcome [OF rest assms(2)]
      show ?thesis
      proof (cases "topicPartition kr = tp")
        case True
        have "kr \<in> set (refused w')" using o1(3) x unsettled out assms(3) by auto
        moreover have "\<forall>k \<in> set ms. topicPartition k \<noteq> topicPartition kr"
          using handle_records_prefix [OF rest] ms by auto
        ultimately show ?thesis using stops_here True by blast
      next
        case False
        then show ?thesis using Cons.IH [OF rest ms] Cons.prems(3) by (intro stops_elsewhere) auto
      qed
    qed
  qed
qed

section \<open>The group\<close>

definition safe_upto :: "'s group \<Rightarrow> partition \<Rightarrow> nat \<Rightarrow> bool" where
  "safe_upto g tp n \<longleftrightarrow>
     (\<forall>i < n. i < length (gr_log g tp) \<and> (gr_log g tp ! i \<in> gr_settled g \<or> skipped g tp i))"

definition log_in_order :: "'s group \<Rightarrow> bool" where
  "log_in_order g \<longleftrightarrow> (\<forall>tp. \<forall>i < length (gr_log g tp).
     topicPartition (gr_log g tp ! i) = tp \<and> kr_Offset (gr_log g tp ! i) = int i)"

text \<open>
  Everything below a committed offset, below a mark and, unless the member is stopping, below its
  position is settled or was skipped.
\<close>

definition group_ok :: "'s handler \<Rightarrow> ('s \<Rightarrow> bool) \<Rightarrow> 's group \<Rightarrow> bool" where
  "group_ok handler cancelled g \<longleftrightarrow> log_in_order g \<and> (\<forall>tp. safe_upto g tp (gr_committed g tp)) \<and>
     (\<forall>m tp. gr_owner g tp = Some m \<longrightarrow>
        (\<forall>kr \<in> set (marks (mb_world (gr_member g m))). topicPartition kr = tp \<longrightarrow> safe_upto g tp (Suc (nat (kr_Offset kr)))) \<and>
        (\<not> mb_done (gr_member g m) \<and> \<not> cancelled (hs (mb_world (gr_member g m))) \<longrightarrow>
           safe_upto g tp (mb_position (gr_member g m) tp))) \<and>
     (\<forall>m. set (marks (mb_world (gr_member g m))) \<subseteq> gr_settled g) \<and>
     (\<forall>kr \<in> gr_settled g. \<exists>m. settled handler (dlq_log (mb_world (gr_member g m))) kr)"

lemma group_okD:
  assumes "group_ok handler cancelled g"
  shows "log_in_order g" "safe_upto g tp (gr_committed g tp)"
    "gr_owner g tp = Some m \<Longrightarrow> kr \<in> set (marks (mb_world (gr_member g m))) \<Longrightarrow> topicPartition kr = tp \<Longrightarrow>
       safe_upto g tp (Suc (nat (kr_Offset kr)))"
    "gr_owner g tp = Some m \<Longrightarrow> \<not> mb_done (gr_member g m) \<Longrightarrow> \<not> cancelled (hs (mb_world (gr_member g m))) \<Longrightarrow>
       safe_upto g tp (mb_position (gr_member g m) tp)"
    "set (marks (mb_world (gr_member g m))) \<subseteq> gr_settled g"
    "kr \<in> gr_settled g \<Longrightarrow> \<exists>m. settled handler (dlq_log (mb_world (gr_member g m))) kr"
  using assms unfolding group_ok_def by blast+

lemma safe_upto_mono:
  assumes "safe_upto g tp n" "prefix (gr_log g tp) (gr_log g' tp)" "gr_settled g \<subseteq> gr_settled g'" "refusals g \<subseteq> refusals g'"
  shows "safe_upto g' tp n"
proof -
  obtain more where log: "gr_log g' tp = gr_log g tp @ more" using assms(2) by (auto simp: prefix_def)
  have at: "gr_log g' tp ! i = gr_log g tp ! i" if "i < length (gr_log g tp)" for i
    using that by (simp add: log nth_append)
  have "skipped g' tp i" if "skipped g tp i" "i < length (gr_log g tp)" for i
    using that assms(4) at unfolding skipped_def by (metis le_less_trans subsetD)
  then show ?thesis using assms(1,3) at log by (auto simp: safe_upto_def)
qed

lemma safe_upto_more:
  assumes "safe_upto g tp n" "m \<le> length (gr_log g tp)"
    and "\<And>i. n \<le> i \<Longrightarrow> i < m \<Longrightarrow> gr_log g tp ! i \<in> gr_settled g \<or> skipped g tp i"
  shows "safe_upto g tp m"
  using assms unfolding safe_upto_def by (meson less_le_trans not_le)

lemma safe_upto_le: "safe_upto g tp n \<Longrightarrow> k \<le> n \<Longrightarrow> safe_upto g tp k"
  by (simp add: safe_upto_def)

lemma less_committed: "int i < committed ms tp \<longleftrightarrow> (\<exists>kr \<in> set ms. topicPartition kr = tp \<and> int i \<le> kr_Offset kr)"
  unfolding committed_def by (induction ms) auto

text \<open>Committing: what is committed lies below a mark, or was committed before.\<close>

lemma safe_committed:
  assumes "\<And>kr. kr \<in> set ms \<Longrightarrow> topicPartition kr = tp \<Longrightarrow> safe_upto g tp (Suc (nat (kr_Offset kr)))"
  shows "safe_upto g tp (nat (committed ms tp))"
proof -
  have "i < length (gr_log g tp) \<and> (gr_log g tp ! i \<in> gr_settled g \<or> skipped g tp i)" if "int i < committed ms tp" for i
  proof -
    from that obtain kr where kr: "kr \<in> set ms" "topicPartition kr = tp" "int i \<le> kr_Offset kr"
      unfolding less_committed by blast
    from assms [OF kr(1,2)] kr(3) show ?thesis unfolding safe_upto_def by simp
  qed
  then show ?thesis by (simp add: safe_upto_def)
qed

text \<open>
  Handling a batch: the marks of a partition are a prefix of what was fetched from its position on, and
  what is left of the batch begins with a refused record.
\<close>

lemma safe_batch:
  assumes "log_in_order g" "prefix (of_partition tp krs) (drop n (gr_log g tp))" "safe_upto g tp n"
    and "prefix (of_partition tp ms) (of_partition tp krs)" "set ms \<subseteq> gr_settled g"
  shows "k \<le> length (of_partition tp ms) \<Longrightarrow> safe_upto g tp (n + k)"
    "kr \<in> set ms \<Longrightarrow> topicPartition kr = tp \<Longrightarrow> safe_upto g tp (Suc (nat (kr_Offset kr)))"
proof -
  have pre: "prefix (of_partition tp ms) (drop n (gr_log g tp))" using assms(4,2) by (rule prefix_order.trans)
  have at: "n + j < length (gr_log g tp)" "gr_log g tp ! (n + j) = of_partition tp ms ! j"
    if "j < length (of_partition tp ms)" for j
    using prefix_drop_nth [OF pre that] by simp_all
  have in_ms: "gr_log g tp ! i \<in> gr_settled g" if "n \<le> i" "i < n + length (of_partition tp ms)" for i
  proof -
    have j: "i - n < length (of_partition tp ms)" using that by linarith
    then have "of_partition tp ms ! (i - n) \<in> set ms" using nth_mem [OF j] by (simp add: of_partition_def)
    then show ?thesis using at [OF j] that(1) assms(5) by auto
  qed
  show 1: "safe_upto g tp (n + k)" if "k \<le> length (of_partition tp ms)" for k
  proof (rule safe_upto_more [OF assms(3)])
    show "n + k \<le> length (gr_log g tp)"
      using at(1) [of "k - 1"] that assms(3) by (cases k; cases n) (auto simp: safe_upto_def Suc_le_eq)
  qed (use in_ms that in auto)
  show "safe_upto g tp (Suc (nat (kr_Offset kr)))" if kr: "kr \<in> set ms" "topicPartition kr = tp"
  proof -
    have "kr \<in> set (of_partition tp ms)" using kr by (simp add: of_partition_def)
    then obtain j where j: "j < length (of_partition tp ms)" "of_partition tp ms ! j = kr" by (auto simp: in_set_conv_nth)
    have "kr_Offset kr = int (n + j)" using assms(1) at [OF j(1)] j(2) unfolding log_in_order_def by metis
    then have "nat (kr_Offset kr) = n + j" by linarith
    then show ?thesis using 1 [of "Suc j"] j(1) by simp
  qed
qed

lemma safe_stopped_batch:
  assumes "prefix (of_partition tp krs) (drop n (gr_log g tp))" "length krs \<le> pollBatch"
    and "safe_upto g tp (n + length (of_partition tp ms))" "stops_at_refusal refs krs ms tp" "set refs \<subseteq> refusals g"
  shows "safe_upto g tp (n + length (of_partition tp krs))"
proof -
  obtain rest where rest: "of_partition tp krs = of_partition tp ms @ rest" "rest \<noteq> [] \<longrightarrow> hd rest \<in> refusals g"
    using assms(4,5) by (auto simp: stops_at_refusal_def)
  let ?k = "length (of_partition tp ms)" and ?l = "length (of_partition tp krs)"
  have small: "?l \<le> pollBatch" using assms(2) by (auto simp: of_partition_def intro: order_trans [OF length_filter_le])
  have at: "n + j < length (gr_log g tp)" "gr_log g tp ! (n + j) = of_partition tp krs ! j" if "j < ?l" for j
    using prefix_drop_nth [OF assms(1) that] by simp_all
  have "skipped g tp i" if "n + ?k \<le> i" "i < n + ?l" for i
  proof -
    have ne: "rest \<noteq> []" using that rest(1) by auto
    then have "gr_log g tp ! (n + ?k) = hd rest" using at(2) [of ?k] rest(1) by (simp add: nth_append hd_conv_nth)
    then have "gr_log g tp ! (n + ?k) \<in> refusals g" using rest(2) ne by simp
    moreover have "i < n + ?k + pollBatch" using that small by linarith
    ultimately show ?thesis unfolding skipped_def using that(1) by (intro exI [of _ "n + ?k"]) simp
  qed
  moreover have "n + ?l \<le> length (gr_log g tp)"
    using at(1) [of "?l - 1"] rest(1) assms(3) by (cases ?l; cases n) (auto simp: safe_upto_def Suc_le_eq)
  ultimately show ?thesis using safe_upto_more [OF assms(3)] by blast
qed

lemma safe_upto_cong:
  "gr_log g' = gr_log g \<Longrightarrow> gr_settled g' = gr_settled g \<Longrightarrow> refusals g' = refusals g \<Longrightarrow> safe_upto g' = safe_upto g"
  by (intro ext) (simp add: safe_upto_def skipped_def)

lemma poll_cases:
  assumes "poll cfg handler cancelled rnd f w = (res, w')"
  obtains (stops) "res = Some True" "w' = w"
    | (batch) r where "\<not> cancelled (hs w)" "handle_records cfg handler cancelled rnd [] (f_records f) w = (r, w')"
        "res = Some False \<Longrightarrow> r = Some ()" "res \<noteq> Some True"
  using assms by (auto simp: poll_def handleBatch_def split: if_splits prod.splits option.splits)

text \<open>What one poll does to the member and to the records that are settled.\<close>

lemma poll_settles:
  assumes "poll cfg handler cancelled rnd f (w\<lparr>hs := s\<rparr>) = (res, w')" "stays_cancelled handler cancelled"
    and "cancelled s = cancelled (hs w)"
  shows "\<exists>ms. marks w' = marks w @ ms \<and> (\<forall>tp. prefix (of_partition tp ms) (of_partition tp (f_records f))) \<and>
    set (dlq_log w) \<subseteq> set (dlq_log w') \<and> set (refused w) \<subseteq> set (refused w') \<and>
    (\<forall>kr \<in> set ms. kr \<in> set (marks w) \<or> settled handler (dlq_log w') kr) \<and>
    (ms \<noteq> [] \<longrightarrow> \<not> cancelled (hs w)) \<and>
    (res = Some False \<and> \<not> cancelled (hs w') \<longrightarrow>
       \<not> cancelled (hs w) \<and> (\<forall>tp. stops_at_refusal (refused w') (f_records f) ms tp))"
  using assms(1)
proof (cases rule: poll_cases)
  case (batch r)
  from handle_records_prefix [OF batch(2)] obtain ms where
    "marks w' = marks w @ ms" "\<forall>tp. prefix (of_partition tp ms) (of_partition tp (f_records f))"
    unfolding of_partition_def by auto
  moreover have "\<forall>tp. stops_at_refusal (refused w') (f_records f) ms tp" if "res = Some False" "\<not> cancelled (hs w')"
    using handle_records_stops [of cfg handler cancelled rnd "[]" "f_records f" "w\<lparr>hs := s\<rparr>" w' ms] batch(2,3) that assms(2)
      \<open>marks w' = marks w @ ms\<close> by (simp del: split_paired_All)
  ultimately show ?thesis using handle_records_outcome [OF batch(2) assms(2)] batch(1) assms(3)
    by (intro exI [of _ ms]) (auto simp del: split_paired_All)
qed (simp add: of_partition_def)

lemma polled_fields:
  assumes "marks w' = marks (mb_world (gr_member g m)) @ ms" "set (marks (mb_world (gr_member g m))) \<subseteq> gr_settled g"
  shows "gr_log (polled krs (res, w') m g) = gr_log g" "gr_owner (polled krs (res, w') m g) = gr_owner g"
    "gr_committed (polled krs (res, w') m g) = gr_committed g"
    "gr_settled (polled krs (res, w') m g) = gr_settled g \<union> set ms"
    "n \<noteq> m \<Longrightarrow> gr_member (polled krs (res, w') m g) n = gr_member g n"
    "mb_world (gr_member (polled krs (res, w') m g) m) = w'"
    "mb_position (gr_member (polled krs (res, w') m g) m) tp =
       mb_position (gr_member g m) tp + length (of_partition tp krs)"
  using assms by (auto simp: polled_def Let_def)

lemma polled_refusals:
  assumes "set (refused (mb_world (gr_member g m))) \<subseteq> set (refused w')"
  shows "refusals (polled krs (res, w') m g) = refusals g \<union> set (refused w')"
proof -
  have "refused (mb_world (gr_member (polled krs (res, w') m g) n)) =
      (if n = m then refused w' else refused (mb_world (gr_member g n)))" for n
    by (simp add: polled_def Let_def)
  then show ?thesis using assms unfolding refusals_def by (auto split: if_splits) (metis subsetD)
qed

lemma polled_settled:
  fixes krs :: "krecord list" and res :: "bool option"
  assumes ok: "group_ok handler cancelled g" and ms: "marks w' = marks (mb_world (gr_member g m)) @ ms"
    and log: "set (dlq_log (mb_world (gr_member g m))) \<subseteq> set (dlq_log w')"
    and new: "\<And>kr. kr \<in> set ms \<Longrightarrow> kr \<in> set (marks (mb_world (gr_member g m))) \<or> settled handler (dlq_log w') kr"
  defines "g' \<equiv> polled krs (res, w') m g"
  shows "set (marks (mb_world (gr_member g' n))) \<subseteq> gr_settled g \<union> set ms"
    "kr \<in> gr_settled g \<union> set ms \<Longrightarrow> \<exists>n. settled handler (dlq_log (mb_world (gr_member g' n))) kr"
proof -
  note g' = polled_fields [OF ms group_okD(5) [OF ok], where krs = krs and res = res, folded g'_def]
  show "set (marks (mb_world (gr_member g' n))) \<subseteq> gr_settled g \<union> set ms"
    using group_okD(5) [OF ok] g'(5,6) ms by (cases "n = m") auto
  show "\<exists>n. settled handler (dlq_log (mb_world (gr_member g' n))) kr" if "kr \<in> gr_settled g \<union> set ms"
  proof (cases "kr \<in> gr_settled g")
    case True
    then obtain n where n: "settled handler (dlq_log (mb_world (gr_member g n))) kr" using group_okD(6) [OF ok] by blast
    then show ?thesis using settled_mono [OF n] log g'(5,6) by (cases "n = m") (auto intro: exI [of _ n])
  next
    case False
    then have "settled handler (dlq_log w') kr" using that new group_okD(5) [OF ok] by blast
    then show ?thesis using g'(6) by (intro exI [of _ m]) simp
  qed
qed

lemma polls_ok:
  assumes ok: "group_ok handler cancelled g" and "stays_cancelled handler cancelled"
    and "\<not> mb_done (gr_member g m)" and fetched: "fetchable g m (f_records f)"
    and run: "poll cfg handler cancelled rnd f ((mb_world (gr_member g m))\<lparr>hs := s\<rparr>) = (res, w')"
    and "cancelled s = cancelled (hs (mb_world (gr_member g m)))"
  shows "group_ok handler cancelled (polled (f_records f) (res, w') m g)"
proof -
  let ?mb = "gr_member g m" and ?g' = "polled (f_records f) (res, w') m g"
  obtain ms where ms: "marks w' = marks (mb_world ?mb) @ ms" "\<And>tp. prefix (of_partition tp ms) (of_partition tp (f_records f))"
    "set (dlq_log (mb_world ?mb)) \<subseteq> set (dlq_log w')" "set (refused (mb_world ?mb)) \<subseteq> set (refused w')"
    "\<And>kr. kr \<in> set ms \<Longrightarrow> kr \<in> set (marks (mb_world ?mb)) \<or> settled handler (dlq_log w') kr"
    "ms \<noteq> [] \<Longrightarrow> \<not> cancelled (hs (mb_world ?mb))"
    "\<And>tp. res = Some False \<Longrightarrow> \<not> cancelled (hs w') \<Longrightarrow>
       \<not> cancelled (hs (mb_world ?mb)) \<and> stops_at_refusal (refused w') (f_records f) ms tp"
    using poll_settles [OF run assms(2,6)] by blast
  note g' = polled_fields [OF ms(1) group_okD(5) [OF ok], where krs = "f_records f" and res = res]
  note g'_refusals = polled_refusals [OF ms(4), where krs = "f_records f" and res = res]
  have grow: "safe_upto g tp n \<Longrightarrow> safe_upto ?g' tp n" for tp n
    by (rule safe_upto_mono) (auto simp: g' g'_refusals)
  have ordered: "log_in_order ?g'" using group_okD(1) [OF ok] by (simp add: log_in_order_def g')
  have part: "prefix (of_partition tp (f_records f)) (drop (mb_position ?mb tp) (gr_log ?g' tp))" for tp
    using fetched unfolding fetchable_def g' by blast
  have batch: "safe_upto ?g' tp (mb_position ?mb tp + length (of_partition tp ms))"
      "\<And>kr. kr \<in> set ms \<Longrightarrow> topicPartition kr = tp \<Longrightarrow> safe_upto ?g' tp (Suc (nat (kr_Offset kr)))"
    if "gr_owner g tp = Some m" "\<not> cancelled (hs (mb_world ?mb))" for tp
    using safe_batch [OF ordered part grow [OF group_okD(4) [OF ok that(1) assms(3) that(2)]] ms(2)] by (auto simp: g')
  have "safe_upto ?g' tp (Suc (nat (kr_Offset kr)))"
    if "gr_owner g tp = Some n" "kr \<in> set (marks (mb_world (gr_member ?g' n)))" "topicPartition kr = tp" for n tp kr
  proof (cases "kr \<in> set (marks (mb_world (gr_member g n)))")
    case True
    then show ?thesis using group_okD(3) [OF ok that(1)] that(3) by (intro grow) simp
  next
    case False
    have nm: "n = m" using False that(2) g'(5) [of n] by metis
    have kr: "kr \<in> set ms" using False that(2) unfolding nm g'(6) ms(1) by simp
    have "\<not> cancelled (hs (mb_world ?mb))" using kr by (intro ms(6)) auto
    with that(1) show ?thesis unfolding nm by (rule batch(2)) (use kr that(3) in simp_all)
  qed
  moreover have "safe_upto ?g' tp (mb_position (gr_member ?g' n) tp)"
    if "gr_owner g tp = Some n" "\<not> mb_done (gr_member ?g' n)" "\<not> cancelled (hs (mb_world (gr_member ?g' n)))" for n tp
  proof (cases "n = m")
    case True
    have go: "res = Some False" "\<not> cancelled (hs w')" "gr_owner g tp = Some m"
      using that g'(6) unfolding True by (simp_all add: polled_def Let_def)
    have "length (f_records f) \<le> pollBatch" using fetched by (simp add: fetchable_def)
    moreover have stop: "\<not> cancelled (hs (mb_world ?mb))" "stops_at_refusal (refused w') (f_records f) ms tp"
      using ms(7) [OF go(1,2)] by blast+
    ultimately show ?thesis
      using safe_stopped_batch [OF part _ batch(1) [OF go(3) stop(1)] stop(2)] unfolding True g'(7) g'_refusals by simp
  next
    case False
    then show ?thesis using group_okD(4) [OF ok that(1)] that(2,3) g'(5) by (intro grow) simp
  qed
  ultimately show ?thesis
    using grow group_okD(2) [OF ok] ordered polled_settled [OF ok ms(1,3,5), where krs = "f_records f" and res = res]
    unfolding group_ok_def g' by blast
qed

lemma group_okI:
  assumes "group_ok handler cancelled g" "gr_log g' = gr_log g" "gr_settled g' = gr_settled g"
    and "\<And>tp. safe_upto g tp (gr_committed g' tp)"
    and "\<And>m. set (marks (mb_world (gr_member g' m))) \<subseteq> set (marks (mb_world (gr_member g m)))"
    and "\<And>m. dlq_log (mb_world (gr_member g' m)) = dlq_log (mb_world (gr_member g m))" "refusals g' = refusals g"
    and "\<And>tp m kr. gr_owner g' tp = Some m \<Longrightarrow> kr \<in> set (marks (mb_world (gr_member g' m))) \<Longrightarrow> topicPartition kr = tp \<Longrightarrow>
       gr_owner g tp = Some m"
    and "\<And>tp m. gr_owner g' tp = Some m \<Longrightarrow> \<not> mb_done (gr_member g' m) \<Longrightarrow> \<not> cancelled (hs (mb_world (gr_member g' m))) \<Longrightarrow>
       safe_upto g tp (mb_position (gr_member g' m) tp)"
  shows "group_ok handler cancelled g'"
proof -
  note same = safe_upto_cong [OF assms(2,3,7)]
  have "log_in_order g'" using group_okD(1) [OF assms(1)] by (simp add: log_in_order_def assms(2))
  moreover have "safe_upto g tp (Suc (nat (kr_Offset kr)))"
    if "gr_owner g' tp = Some m" "kr \<in> set (marks (mb_world (gr_member g' m)))" "topicPartition kr = tp" for tp m kr
    using group_okD(3) [OF assms(1) assms(8) [OF that]] assms(5) that(2,3) by blast
  ultimately show ?thesis
    using assms(4,5,9) group_okD(5,6) [OF assms(1)] unfolding group_ok_def same assms(3,6) by blast
qed

lemma broker_refusals:
  assumes "broker_step g g'"
  shows "refusals g' = refusals g"
proof -
  have "refused (mb_world (gr_member g' m)) = refused (mb_world (gr_member g m))" for m
    using assms by (induction) (auto simp: commit_marked_def forget_marks_def resume_def restart_def)
  then show ?thesis by (simp add: refusals_def)
qed

lemma group_ok_broker:
  assumes "broker_step g g'" and ok: "group_ok handler cancelled g"
  shows "group_ok handler cancelled g'"
  using assms(1)
proof cases
  case (produced kr tp)
  have "prefix (gr_log g t) (gr_log g' t)" for t by (simp add: produced)
  then have grow: "safe_upto g t n \<Longrightarrow> safe_upto g' t n" for t n
    using safe_upto_mono [of g t n g'] broker_refusals [OF assms(1)] by (simp add: produced(1))
  have "log_in_order g'"
    using group_okD(1) [OF ok] produced(2,3) 
    by (simp add: produced(1) log_in_order_def nth_append less_Suc_eq del: split_paired_All)
  moreover have "gr_settled g' = gr_settled g" "gr_owner g' = gr_owner g" "gr_member g' = gr_member g"
    "gr_committed g' = gr_committed g" by (simp_all add: produced(1))
  ultimately show ?thesis using grow group_okD(2-6) [OF ok] unfolding group_ok_def by metis
next
  case (commits tp m)
  have "safe_upto g t (gr_committed g' t)" for t
    using group_okD(2) [OF ok] safe_committed [OF group_okD(3) [OF ok commits(2)]]
    by (simp add: commits(1) commit_marked_def max_def)
  then show ?thesis using group_okD(4) [OF ok] by (intro group_okI [OF ok _ _ _ _ _ broker_refusals [OF assms(1)]]) (simp_all add: commits(1) commit_marked_def)
next
  case (revoked tp m)
  then show ?thesis
    using group_okD(2,4) [OF ok]
    by (intro group_okI [OF ok _ _ _ _ _ broker_refusals [OF assms(1)]]) (auto simp: forget_marks_def split: if_splits)
next
  case (assigned tp m)
  then show ?thesis
    using group_okD(2,4) [OF ok]
    by (intro group_okI [OF ok _ _ _ _ _ broker_refusals [OF assms(1)]]) (auto simp: forget_marks_def resume_def split: if_splits)
next
  case (restarted m s)
  then show ?thesis
    using group_okD(2,4) [OF ok] by (intro group_okI [OF ok _ _ _ _ _ broker_refusals [OF assms(1)]]) (auto simp: restart_def split: if_splits)
qed

lemma group_ok_step:
  assumes "group_step cfg handler cancelled g g'" "stays_cancelled handler cancelled"
    and "group_ok handler cancelled g"
  shows "group_ok handler cancelled g'"
  using assms(1)
proof cases
  case (polls m f s fate rnd)
  then show ?thesis using polls_ok [OF assms(3,2)] by (metis prod.collapse)
next
  case broker
  then show ?thesis using group_ok_broker assms(3) by blast
qed

text \<open>What is settled is in the logs; a record produced since an earlier state was not settled then.\<close>

definition settled_logged :: "'s group \<Rightarrow> bool" where
  "settled_logged g \<longleftrightarrow> (\<forall>kr \<in> gr_settled g. kr \<in> set (gr_log g (topicPartition kr)))"

lemma settled_logged_step:
  assumes "group_step cfg handler cancelled g g'" "stays_cancelled handler cancelled"
    and "group_ok handler cancelled g" "settled_logged g"
  shows "settled_logged g'"
  using assms(1)
proof cases
  case (polls m f s fate rnd)
  obtain res w' where run: "poll (with_fate fate cfg) handler cancelled rnd f ((mb_world (gr_member g m))\<lparr>hs := s\<rparr>) = (res, w')"
    by (cases "poll (with_fate fate cfg) handler cancelled rnd f ((mb_world (gr_member g m))\<lparr>hs := s\<rparr>)")
  obtain ms where ms: "marks w' = marks (mb_world (gr_member g m)) @ ms"
    "\<And>tp. prefix (of_partition tp ms) (of_partition tp (f_records f))"
    using poll_settles [OF run assms(2) polls(4)] by blast
  note g' = polled_fields [OF ms(1) group_okD(5) [OF assms(3)], where krs = "f_records f" and res = res]
  have "kr \<in> set (gr_log g (topicPartition kr))" if "kr \<in> set ms" for kr
  proof -
    let ?tp = "topicPartition kr"
    have "kr \<in> set (of_partition ?tp ms)" using that by (simp add: of_partition_def)
    moreover have "prefix (of_partition ?tp (f_records f)) (drop (mb_position (gr_member g m) ?tp) (gr_log g ?tp))"
      using polls(3) unfolding fetchable_def by blast
    then have "prefix (of_partition ?tp ms) (drop (mb_position (gr_member g m) ?tp) (gr_log g ?tp))"
      using ms(2) by (blast intro: prefix_order.trans)
    ultimately show ?thesis by (meson in_set_dropD set_mono_prefix subsetD)
  qed
  then show ?thesis using assms(4) by (auto simp: polls(1) run settled_logged_def g')
next
  case broker
  then show ?thesis using assms(4)
    by (induction) (auto simp: settled_logged_def commit_marked_def)
qed

lemma group_run_ok:
  assumes "(group_step cfg handler cancelled)\<^sup>*\<^sup>* g g'" "stays_cancelled handler cancelled"
    and "group_ok handler cancelled g" "settled_logged g"
  shows "group_ok handler cancelled g' \<and> settled_logged g'"
  using assms(1)
  by (induction rule: rtranclp_induct)
    (use assms(3,4) group_ok_step [OF _ assms(2)] settled_logged_step [OF _ assms(2)] in blast)+

lemma fresh_group_ok: "group_ok handler cancelled (fresh_group s)" "settled_logged (fresh_group s)"
  by (simp_all add: group_ok_def fresh_group_def fresh_member_def log_in_order_def safe_upto_def settled_logged_def)

lemma group_ok_run:
  assumes "(group_step cfg handler cancelled)\<^sup>*\<^sup>* (fresh_group s) g" "stays_cancelled handler cancelled"
  shows "group_ok handler cancelled g"
  using group_run_ok [OF assms fresh_group_ok] by blast

lemma produced_since_unsettled:
  assumes "group_ok handler cancelled g1" "settled_logged g1" "group_ok handler cancelled g"
    and "length (gr_log g1 tp) \<le> i" "i < length (gr_log g tp)"
  shows "gr_log g tp ! i \<notin> gr_settled g1"
proof
  let ?kr = "gr_log g tp ! i"
  have kr: "topicPartition ?kr = tp" "kr_Offset ?kr = int i"
    using group_okD(1) [OF assms(3)] assms(5) unfolding log_in_order_def by blast+
  assume "?kr \<in> gr_settled g1"
  then have "?kr \<in> set (gr_log g1 tp)" using assms(2) kr(1) by (metis settled_logged_def)
  then obtain j where j: "j < length (gr_log g1 tp)" "gr_log g1 tp ! j = ?kr" unfolding in_set_conv_nth by blast
  then have "kr_Offset ?kr = int j" using group_okD(1) [OF assms(1)] unfolding log_in_order_def by metis
  then show False using kr(2) j(1) assms(4) by simp
qed

section \<open>Property\<close>

text \<open>
  Consumed at least once: however the members of a group poll, crash, restart, commit and lose
  commits, however partitions move between them and whatever the broker does with dead letters, every
  record below a committed offset has been marked by a member, because the handler accepted it or
  because its dead letter was written, unless a member has logged the refusal of the dead letter of
  that record or of one fewer than \<open>pollBatch\<close> records before it in the partition.
\<close>

theorem consumed_at_least_once:
  assumes "stays_cancelled handler cancelled"
    and "(group_step cfg handler cancelled)\<^sup>*\<^sup>* (fresh_group s) g" "i < gr_committed g tp" "\<not> skipped g tp i"
  shows "i < length (gr_log g tp) \<and> gr_log g tp ! i \<in> gr_settled g \<and>
    ((\<exists>s s'. handler (toRecord (gr_log g tp ! i)) s = (None, s')) \<or>
     (\<exists>m err. record_of (dlq_message (toRecord (gr_log g tp ! i)) err) \<in> set (dlq_log (mb_world (gr_member g m)))))"
proof -
  note ok = group_ok_run [OF assms(2,1)]
  have "i < length (gr_log g tp) \<and> gr_log g tp ! i \<in> gr_settled g"
    using group_okD(2) [OF ok, of tp] assms(3,4) unfolding safe_upto_def by blast
  moreover from this have "\<exists>m. settled handler (dlq_log (mb_world (gr_member g m))) (gr_log g tp ! i)"
    using group_okD(6) [OF ok] by blast
  ultimately show ?thesis unfolding settled_def by blast
qed

definition accepting_cfg :: "unit ConsumerConfig" where
  "accepting_cfg = demo_cfg\<lparr>cfg_DLQ := Some (\<lambda>_ _. Acked)\<rparr>"

abbreviation demo_steps :: "unit group \<Rightarrow> unit group \<Rightarrow> bool" where
  "demo_steps \<equiv> (group_step accepting_cfg picky never)\<^sup>*\<^sup>*"

lemma demo_refused:
  "\<exists>w'. handle accepting_cfg picky never rnd (demo_krecord 0) w = (Some True, w') \<and> marks w' = marks w @ [demo_krecord 0] \<and> refused w' = refused w"
proof -
  have "picky (toRecord (demo_krecord 0)) (hs w) = (Some (Errorf [] ErrPermanent '': bad payload''), ())"
    by (simp add: picky_def toRecord_def demo_krecord_def)
  from handle_permanent [of picky "demo_krecord 0" w, OF this] show ?thesis
    by (simp add: never_def accepting_cfg_def deadLetter_def Publish_def Let_def)
qed

text \<open>A record the handler refuses for good is produced, polled by the first member and committed.\<close>

lemma demo_group_run:
  "\<exists>g. demo_steps (fresh_group ()) g \<and> gr_log g (''t'', 3) = [demo_krecord 0] \<and>
     gr_committed g (''t'', 3) = 1 \<and> refusals g = {}"
proof -
  let ?tp = "(''t'', 3::int)" and ?kr = "demo_krecord 0" and ?f = "\<lparr>f_closed = False, f_records = [demo_krecord 0]\<rparr>"
  let ?step = "group_step accepting_cfg picky never" and ?ack = "\<lambda>_ _. Acked"
  let ?g1 = "fresh_group ()\<lparr>gr_log := (gr_log (fresh_group ()))(?tp := [?kr])\<rparr>"
  let ?g2 = "?g1\<lparr>gr_owner := (gr_owner ?g1)(?tp := Some 0),
      gr_member := (gr_member ?g1)(0 := resume ?tp (gr_committed ?g1 ?tp) (forget_marks ?tp (gr_member ?g1 0)))\<rparr>"
  let ?out = "poll accepting_cfg picky never (\<lambda>_ _. 0) ?f (mb_world (gr_member ?g2 0))"
  let ?g3 = "polled [?kr] ?out 0 ?g2"
  have same: "with_fate ?ack accepting_cfg = accepting_cfg" by (simp add: with_fate_def accepting_cfg_def)
  have tp: "topicPartition ?kr = ?tp" by (simp add: topicPartition_def demo_krecord_def)
  have "?step (fresh_group ()) ?g1"
    using produced [of ?kr ?tp "fresh_group ()"] tp by (intro broker) (simp add: fresh_group_def demo_krecord_def)
  moreover have "?step ?g1 ?g2" using assigned [of ?g1 ?tp 0] by (intro broker) (simp add: fresh_group_def)
  moreover have "?step ?g2 ?g3"
    using polls [of ?g2 0 ?f never "()" accepting_cfg picky ?ack "\<lambda>_ _. 0"] tp
    by (simp add: same fetchable_def fresh_group_def fresh_member_def resume_def forget_marks_def of_partition_def pollBatch_def)
  moreover have "?step ?g3 (commit_marked 0 ?tp ?g3)"
    using commits [of ?g3 ?tp 0] by (intro broker) (simp add: polled_def Let_def)
  ultimately have "demo_steps (fresh_group ()) (commit_marked 0 ?tp ?g3)"
    by (meson converse_rtranclp_into_rtranclp rtranclp.rtrancl_refl)
  moreover have out: "marks (snd ?out) = [?kr]" "refused (snd ?out) = []"
    using demo_refused [of "\<lambda>_. 0" "mb_world (gr_member ?g2 0)"]
    by (auto simp: poll_def handleBatch_def never_def fresh_group_def fresh_member_def resume_def forget_marks_def)
  have "refused (mb_world (gr_member (commit_marked 0 ?tp ?g3) m)) = []" for m
    using out(2) by (simp add: commit_marked_def polled_def Let_def fresh_group_def fresh_member_def)
  then have "refusals (commit_marked 0 ?tp ?g3) = {}" by (simp add: refusals_def)
  moreover have "gr_committed (commit_marked 0 ?tp ?g3) ?tp = 1"
    using tp out(1) by (simp add: commit_marked_def polled_def Let_def committed_def fresh_group_def demo_krecord_def)
  moreover have "gr_log (commit_marked 0 ?tp ?g3) ?tp = [?kr]" by (simp add: commit_marked_def polled_def Let_def)
  ultimately show ?thesis by blast
qed

theorem consumed_at_least_once_witness:
  "\<exists>g m err. demo_steps (fresh_group ()) g \<and> gr_committed g (''t'', 3) = 1 \<and>
     record_of (dlq_message (toRecord (demo_krecord 0)) err) \<in> set (dlq_log (mb_world (gr_member g m)))"
proof -
  obtain g where g: "demo_steps (fresh_group ()) g" "gr_log g (''t'', 3) = [demo_krecord 0]" "gr_committed g (''t'', 3) = 1"
    "refusals g = {}"
    using demo_group_run by blast
  have "stays_cancelled picky never" by (simp add: stays_cancelled_def never_def)
  from consumed_at_least_once [OF this g(1), of 0 "(''t'', 3)"] g(2-4) show ?thesis
    using g(1) by (auto simp: picky_def toRecord_def demo_krecord_def skipped_def)
qed

end
