(* ===== verification/Cluster.thy ===== *)
theory Cluster
  imports LiveView Answers Group
begin

text \<open>
  The consumers of a group together with the database their handlers share: polls, commits,
  rebalances and restarts as in theory Group, the handlers of \<^verbatim>\<open>consumers.go\<close>, and between and during
  them everything else the service does (theory System).

  What a record achieves is stated by the locale \<open>shared_effect\<close>: a handler that accepts a record
  leaves a database in which the record has had its effect, and nothing the service does takes it
  back. Its consequence, that every record below a committed offset has had its effect, has been
  dead-lettered or was skipped after a refused dead letter, is proved once and interpreted on both
  handlers.
\<close>

section \<open>What a batch achieves\<close>

definition dead_lettered :: "krecord list \<Rightarrow> krecord \<Rightarrow> bool" where
  "dead_lettered log kr \<longleftrightarrow> (\<exists>err. record_of (dlq_message (toRecord kr) err) \<in> set log)"

locale record_effect =
  fixes handler :: "'s handler" and inv :: "'s \<Rightarrow> bool" and effect :: "Record \<Rightarrow> 's \<Rightarrow> bool"
  assumes accepted: "inv s \<Longrightarrow> handler r s = (None, s') \<Longrightarrow> effect r s'"
    and kept: "inv s \<Longrightarrow> handler r s = (x, s') \<Longrightarrow> inv s' \<and> (\<forall>q. effect q s \<longrightarrow> effect q s')"
begin

lemma attempt_effect_of:
  "attempt_from cfg h cancelled rnd n r w = (res, w') \<Longrightarrow> h = handler \<Longrightarrow> inv (hs w) \<Longrightarrow>
     inv (hs w') \<and> (\<forall>q. effect q (hs w) \<longrightarrow> effect q (hs w')) \<and> (res = Some None \<longrightarrow> effect r (hs w'))"
proof (induction cfg h cancelled rnd n r w arbitrary: res w' rule: attempt_from.induct)
  case (1 cfg h cancelled rnd n r w)
  obtain x s where h: "h r (hs w) = (x, s)" by (cases "h r (hs w)")
  note k = kept [OF 1(4) h [unfolded 1(3)]] and a = accepted [OF 1(4), of r s]
  show ?case
    using 1(2) 1(1) [OF h [symmetric] refl] h k a 1(3)
    by (subst (asm) attempt_from.simps) (auto simp: Let_def split: option.splits if_splits)
qed

lemmas attempt_effect = attempt_effect_of [OF _ refl]

definition dealt :: "krecord \<Rightarrow> 's world \<Rightarrow> bool" where
  "dealt kr w \<longleftrightarrow> effect (toRecord kr) (hs w) \<or> dead_lettered (dlq_log w) kr"

lemma dealt_mono:
  assumes "\<forall>q. effect q (hs w) \<longrightarrow> effect q (hs w')" "set (dlq_log w) \<subseteq> set (dlq_log w')" "dealt kr w"
  shows "dealt kr w'"
  using assms by (auto simp: dealt_def dead_lettered_def)

lemma handle_effect:
  assumes "handle cfg handler cancelled rnd kr w = (res, w')" "inv (hs w)"
  shows "inv (hs w')" "\<forall>q. effect q (hs w) \<longrightarrow> effect q (hs w')" "res = Some True \<Longrightarrow> dealt kr w'"
proof -
  obtain a w1 where at: "attempt_from cfg handler cancelled rnd 1 (toRecord kr) w = (a, w1)"
    by (cases "attempt_from cfg handler cancelled rnd 1 (toRecord kr) w")
  note run = assms(1) [unfolded handle_def attempt_def at Let_def]
  note eff = attempt_effect [OF at assms(2)]
  have "deadLetter cfg (toRecord kr) err w1 = (d, w2) \<Longrightarrow> hs w2 = hs w1" for err d w2
    using deadLetter_keeps(1) [of cfg "toRecord kr" err w1] by simp
  with run have hs: "hs w' = hs w1" by (auto split: option.splits if_splits prod.splits)
  show "inv (hs w')" "\<forall>q. effect q (hs w) \<longrightarrow> effect q (hs w')" using eff hs by simp_all
  show "dealt kr w'" if "res = Some True"
    using run eff hs that
    by (auto simp: dealt_def dead_lettered_def split: option.splits if_splits prod.splits dest: deadLetter_written)
qed

lemma handle_records_effect:
  assumes "handle_records cfg handler cancelled rnd stalled krs w = (res, w')" "inv (hs w)"
  shows "inv (hs w') \<and> (\<forall>q. effect q (hs w) \<longrightarrow> effect q (hs w')) \<and> set (dlq_log w) \<subseteq> set (dlq_log w') \<and>
    (\<forall>kr \<in> set (marks w') - set (marks w). dealt kr w')"
  using assms
proof (induction krs arbitrary: stalled w)
  case (Cons kr krs)
  show ?case
  proof (cases "topicPartition kr \<in> set stalled")
    case True
    then show ?thesis using Cons.IH [of stalled w] Cons.prems by simp
  next
    case False
    obtain b w1 where h: "handle cfg handler cancelled (rnd kr) kr w = (b, w1)"
      by (cases "handle cfg handler cancelled (rnd kr) kr w")
    note m1 = handle_marks [OF h] and log1 = handle_outcome(1) [OF h]
      and e1 = handle_effect [OF h Cons.prems(2)]
    show ?thesis
    proof (cases b)
      case None
      then show ?thesis using Cons.prems(1) False h m1 e1 log1 by auto
    next
      case (Some settled)
      then obtain stalled' where "handle_records cfg handler cancelled rnd stalled' krs w1 = (res, w')"
        using Cons.prems(1) False h by (auto split: bool.splits)
      from Cons.IH [OF this e1(1)] e1 log1 m1 Some show ?thesis
        using dealt_mono [of w1 w' kr] by (cases settled) auto
    qed
  qed
qed simp

lemma poll_effect:
  assumes "poll cfg handler cancelled rnd f w = (res, w')" "inv (hs w)"
  shows "inv (hs w') \<and> (\<forall>q. effect q (hs w) \<longrightarrow> effect q (hs w')) \<and> set (dlq_log w) \<subseteq> set (dlq_log w') \<and>
    (\<forall>kr \<in> set (marks w') - set (marks w). dealt kr w')"
  using assms(1)
proof (cases rule: poll_cases)
  case (batch r)
  from handle_records_effect [OF batch(2) assms(2)] show ?thesis .
qed (use assms(2) in simp)

end

section \<open>The group and the database\<close>

text \<open>
  A poll works on the database as the others have left it and leaves it to them; what happens during
  the poll is in the environments of the handler's transactions.
\<close>

inductive cluster_step ::
  "service ConsumerConfig \<Rightarrow> service handler \<Rightarrow> (service \<Rightarrow> bool) \<Rightarrow> (database \<Rightarrow> database \<Rightarrow> bool) \<Rightarrow>
     database \<times> service group \<Rightarrow> database \<times> service group \<Rightarrow> bool"
  for cfg handler cancelled moves where
  poll_step: "cluster_step cfg handler cancelled moves (sv_db s, g)
      (sv_db (hs w'), polled (f_records f) (res, w') m g)"
    if "\<not> mb_done (gr_member g m)" "fetchable g m (f_records f)"
      "cancelled s = cancelled (hs (mb_world (gr_member g m)))"
      "poll (with_fate fate cfg) handler cancelled rnd f ((mb_world (gr_member g m))\<lparr>hs := s\<rparr>) = (res, w')"
| group_moves: "broker_step g g' \<Longrightarrow> cluster_step cfg handler cancelled moves (db, g) (db, g')"
| elsewhere: "moves db db' \<Longrightarrow> cluster_step cfg handler cancelled moves (db, g) (db', g)"

lemma cluster_group:
  assumes "(cluster_step cfg handler cancelled moves)\<^sup>*\<^sup>* (db, g) (db', g')"
  shows "(group_step cfg handler cancelled)\<^sup>*\<^sup>* g g'"
  using assms
proof (induction rule: rtranclp_induct2)
  case (step db1 g1 db2 g2)
  from step(2) have "group_step cfg handler cancelled g1 g2 \<or> g2 = g1"
  proof cases
    case (poll_step m f s fate rnd res w')
    then show ?thesis using polls [of g1 m f cancelled s cfg handler fate rnd] by simp
  qed (auto intro: broker)
  then show ?case using step(3) by auto
qed simp

lemma broker_keeps:
  assumes "broker_step g g'"
  shows "gr_settled g' = gr_settled g" "dlq_log (mb_world (gr_member g' m)) = dlq_log (mb_world (gr_member g m))"
  using assms by (induction) (auto simp: commit_marked_def forget_marks_def resume_def restart_def)

lemma polled_world: "mb_world (gr_member (polled krs (res, w') m g) m) = w'"
  by (simp add: polled_def Let_def)

locale shared_effect =
  fixes handler :: "service handler" and inv :: "database \<Rightarrow> bool" and effect :: "Record \<Rightarrow> database \<Rightarrow> bool"
    and moves :: "database \<Rightarrow> database \<Rightarrow> bool"
  assumes handler_step: "inv (sv_db s) \<Longrightarrow> handler r s = (x, s') \<Longrightarrow> moves (sv_db s) (sv_db s')"
    and handler_accepts: "inv (sv_db s) \<Longrightarrow> handler r s = (None, s') \<Longrightarrow> effect r (sv_db s')"
    and moves_inv: "moves db db' \<Longrightarrow> inv db \<Longrightarrow> inv db'"
    and moves_keep: "moves db db' \<Longrightarrow> effect r db \<Longrightarrow> effect r db'"

sublocale shared_effect \<subseteq> per_record: record_effect handler "\<lambda>s. inv (sv_db s)" "\<lambda>r s. effect r (sv_db s)"
  by unfold_locales (auto intro: handler_accepts handler_step moves_inv moves_keep)

context shared_effect
begin

text \<open>The records settled since an earlier state, in which those in \<open>X\<close> were.\<close>

definition all_dealt :: "krecord set \<Rightarrow> database \<times> service group \<Rightarrow> bool" where
  "all_dealt X c \<longleftrightarrow> inv (fst c) \<and> (\<forall>kr \<in> gr_settled (snd c) - X. effect (toRecord kr) (fst c) \<or>
     (\<exists>m. dead_lettered (dlq_log (mb_world (gr_member (snd c) m))) kr))"

lemma polled_dealt:
  assumes "all_dealt X (sv_db s, g)" "group_ok handler cancelled g"
    and "poll cfg handler cancelled rnd f ((mb_world (gr_member g m))\<lparr>hs := s\<rparr>) = (res, w')"
  shows "all_dealt X (sv_db (hs w'), polled (f_records f) (res, w') m g)"
proof -
  let ?g' = "polled (f_records f) (res, w') m g" and ?w = "mb_world (gr_member g m)"
  have "inv (sv_db s)" using assms(1) by (simp add: all_dealt_def)
  then have eff: "inv (sv_db (hs w'))" "\<And>q. effect q (sv_db s) \<Longrightarrow> effect q (sv_db (hs w'))"
    "set (dlq_log ?w) \<subseteq> set (dlq_log w')" "\<And>kr. kr \<in> set (marks w') \<Longrightarrow> kr \<notin> set (marks ?w) \<Longrightarrow> per_record.dealt kr w'"
    using per_record.poll_effect [OF assms(3)] by auto
  have logs: "set (dlq_log (mb_world (gr_member g n))) \<subseteq> set (dlq_log (mb_world (gr_member ?g' n)))" for n
    using eff(3) by (simp add: polled_def Let_def)
  have "effect (toRecord kr) (sv_db (hs w')) \<or> (\<exists>n. dead_lettered (dlq_log (mb_world (gr_member ?g' n))) kr)"
    if kr: "kr \<in> gr_settled ?g'" "kr \<notin> X" for kr
  proof (cases "kr \<in> gr_settled g")
    case True
    then have "effect (toRecord kr) (sv_db s) \<or> (\<exists>n. dead_lettered (dlq_log (mb_world (gr_member g n))) kr)"
      using assms(1) kr(2) by (simp add: all_dealt_def)
    then show ?thesis using eff(2) logs unfolding dead_lettered_def by blast
  next
    case False
    then have "kr \<in> set (marks w')" "kr \<notin> set (marks ?w)"
      using kr(1) group_okD(5) [OF assms(2), of m] by (auto simp: polled_def Let_def)
    from eff(4) [OF this] show ?thesis
      using polled_world [of "f_records f" res w' m g] unfolding per_record.dealt_def by metis
  qed
  then show ?thesis using eff(1) by (simp add: all_dealt_def)
qed

lemma cluster_dealt:
  assumes "(cluster_step cfg handler cancelled moves)\<^sup>*\<^sup>* (db, g) (db', g')"
    and "stays_cancelled handler cancelled" "group_ok handler cancelled g" "settled_logged g" "inv db"
  shows "all_dealt (gr_settled g) (db', g')"
  using assms(1)
proof (induction rule: rtranclp_induct2)
  case refl
  show ?case using assms(5) by (simp add: all_dealt_def)
next
  case (step db1 g1 db2 g2)
  have ok: "group_ok handler cancelled g1" using group_run_ok [OF cluster_group [OF step(1)] assms(2-4)] by blast
  from step(2) show ?case
  proof cases
    case (poll_step m f s fate rnd res w')
    then show ?thesis using polled_dealt [OF _ ok] step(3) by simp
  next
    case group_moves
    then show ?thesis using step(3) broker_keeps [of g1 g2] by (simp add: all_dealt_def)
  next
    case elsewhere
    then show ?thesis using step(3) moves_inv moves_keep unfolding all_dealt_def fst_conv snd_conv by blast
  qed
qed

text \<open>A record produced since then and below a committed offset.\<close>

lemma committed_dealt:
  assumes "(cluster_step cfg handler cancelled moves)\<^sup>*\<^sup>* (db, g) (db', g')"
    and "stays_cancelled handler cancelled" "group_ok handler cancelled g" "settled_logged g" "inv db"
    and "length (gr_log g tp) \<le> i" "i < gr_committed g' tp"
  shows "i < length (gr_log g' tp) \<and> (effect (toRecord (gr_log g' tp ! i)) db' \<or> skipped g' tp i \<or>
    (\<exists>m. dead_lettered (dlq_log (mb_world (gr_member g' m))) (gr_log g' tp ! i)))"
proof -
  have ok: "group_ok handler cancelled g'" using group_run_ok [OF cluster_group [OF assms(1)] assms(2-4)] by blast
  then have "safe_upto g' tp (gr_committed g' tp)" by (rule group_okD)
  then have i: "i < length (gr_log g' tp)" "gr_log g' tp ! i \<in> gr_settled g' \<or> skipped g' tp i"
    using assms(7) unfolding safe_upto_def by blast+
  then show ?thesis
    using cluster_dealt [OF assms(1-5)] produced_since_unsettled [OF assms(3,4) ok assms(6) i(1)] by (auto simp: all_dealt_def)
qed

end

section \<open>The two handlers of the service\<close>

definition session :: "protolib \<Rightarrow> encoder \<Rightarrow> (time \<Rightarrow> time) \<Rightarrow> krecord set \<Rightarrow> bool \<Rightarrow> env \<Rightarrow> bool" where
  "session L enc tz B rb e \<longleftrightarrow> rely (service_steps L enc tz B rb) e \<and> server L tz e"

definition service_moves ::
  "protolib \<Rightarrow> encoder \<Rightarrow> (time \<Rightarrow> time) \<Rightarrow> krecord set \<Rightarrow> bool \<Rightarrow> database \<Rightarrow> database \<Rightarrow> bool" where
  "service_moves L enc tz B rb db db' \<longleftrightarrow> service_steps L enc tz B rb (state_of db) (state_of db')"

text \<open>
  A command has been executed when, on the way from the empty database to this one, a call of the
  command handler with the record's envelope and message returned without an error.
\<close>

definition executed ::
  "protolib \<Rightarrow> encoder \<Rightarrow> decoder \<Rightarrow> (time \<Rightarrow> time) \<Rightarrow> krecord set \<Rightarrow> bool \<Rightarrow> Record \<Rightarrow> database \<Rightarrow> bool" where
  "executed L enc dec tz B rb r db \<longleftrightarrow>
     (\<exists>inc cmd envs ids k db1 db2. Parse (r_Headers r) = Inr inc \<and> dec (r_Value r) = Inr cmd \<and>
        reachable L enc tz B rb (state_of db1) \<and> (\<forall>i. session L enc tz B rb (envs i)) \<and>
        Handle L enc envs ids inc cmd db1 = (Inr (), k, db2) \<and> service_moves L enc tz B rb db2 db)"


lemma moves_trans: "service_moves L enc tz B rb db1 db2 \<Longrightarrow> service_moves L enc tz B rb db2 db3 \<Longrightarrow> service_moves L enc tz B rb db1 db3"
  unfolding service_moves_def by (rule service_steps_trans)

lemma moves_refl: "service_moves L enc tz B rb db db"
  by (simp add: service_moves_def service_intros)

lemma moves_reachable:
  "service_moves L enc tz B rb db db' \<Longrightarrow> reachable L enc tz B rb (state_of db) \<Longrightarrow> reachable L enc tz B rb (state_of db')"
  unfolding service_moves_def by (rule reachable_steps)

lemma Handle_moves:
  assumes "\<And>i. session L enc tz B rb (envs i)" "Handle L enc envs ids inc cmd db = (r, k, db')"
  shows "service_moves L enc tz B rb db db'"
  using assms unfolding service_moves_def session_def by (intro service_steps_one service_intros(1)) auto


lemma Commands_handler_cases:
  assumes "Commands_handler L enc dec envs ids r s = (x, s')"
  obtains (refused) "sv_db s' = sv_db s" "x \<noteq> None"
    | (ran) inc cmd res k where "Parse (r_Headers r) = Inr inc" "dec (r_Value r) = Inr cmd"
        "Handle L enc (envs (sv_handled s)) (ids (sv_handled s)) inc cmd (sv_db s) = (res, k, sv_db s')"
        "x = None \<Longrightarrow> res = Inr ()"
  using assms by (auto simp: Commands_handler_def split: sum.splits prod.splits if_splits)


interpretation commands_cluster: shared_effect "Commands_handler L enc dec envs ids"
    "\<lambda>db. (\<forall>n i. session L enc tz B rb (envs n i)) \<and> reachable L enc tz B rb (state_of db)"
    "executed L enc dec tz B rb" "service_moves L enc tz B rb" for L enc dec envs ids tz B
proof (unfold_locales, goal_cases)
  case (1 s r x s')
  from 1(2) show ?case
  proof (cases rule: Commands_handler_cases)
    case (ran inc cmd res k)
    with 1(1) show ?thesis by (blast intro: Handle_moves)
  qed (simp add: moves_refl)
next
  case (2 s r s')
  from 2(2) show ?case
  proof (cases rule: Commands_handler_cases)
    case (ran inc cmd res k)
    with 2(1) moves_refl show ?thesis unfolding executed_def by blast
  qed simp
next
  case (3 db db')
  then show ?case by (blast intro: moves_reachable)
next
  case (4 db db' r)
  then show ?case unfolding executed_def by (blast intro: moves_trans)
qed





text \<open>What was executed has been answered, and the answer is still waiting or on the broker.\<close>

lemma executed_answered:
  assumes "executed L enc dec tz B rb r db" "Parse (r_Headers r) = Inr inc"
  shows "answered B (tbl db) (env_ID inc)"
proof -
  obtain cmd envs ids k db1 db2 where run: "reachable L enc tz B rb (state_of db1)" "\<forall>i. session L enc tz B rb (envs i)"
    "Handle L enc envs ids inc cmd db1 = (Inr (), k, db2)" "service_moves L enc tz B rb db2 db"
    using assms unfolding executed_def by auto
  have "answered B (tbl db2) (env_ID inc)"
    using Handle_answered [OF _ _ run(1,3)] run(2) by (simp add: session_def)
  moreover have "reachable L enc tz B rb (state_of db2)"
    using Handle_moves [OF _ run(3)] run(1,2) by (blast intro: moves_reachable)
  then have "delivery_ok B (state_of db2)" using reachable_answered by (simp add: all_answered_def)
  then have "nothing_lost B (tbl db2) (tbl db)"
    using answer_service.service_obeys(2) [OF run(4) [unfolded service_moves_def]] by (simp add: owed_upto_def)
  ultimately show ?thesis by (rule met_kept [rotated])
qed

section \<open>A run for the witnesses\<close>

text \<open>One record is produced, its partition assigned to member 0, polled, accepted and committed.\<close>

lemma one_record_run:
  assumes "handler (toRecord kr) s = (None, s')" "topicPartition kr = tp" "kr_Offset kr = 0"
  shows "\<exists>g. (cluster_step cfg handler (\<lambda>_. False) moves)\<^sup>*\<^sup>* (sv_db s, fresh_group s0) (sv_db s', g) \<and>
    gr_log g tp = [kr] \<and> gr_committed g tp = 1 \<and> (\<forall>m. dlq_log (mb_world (gr_member g m)) = []) \<and> refusals g = {}"
proof -
  let ?step = "cluster_step cfg handler (\<lambda>_. False) moves"
  let ?g0 = "fresh_group s0" and ?f = "\<lparr>f_closed = False, f_records = [kr]\<rparr>"
  let ?g1 = "?g0\<lparr>gr_log := (gr_log ?g0)(tp := [kr])\<rparr>"
  let ?g2 = "?g1\<lparr>gr_owner := (gr_owner ?g1)(tp := Some 0),
      gr_member := (gr_member ?g1)(0 := resume tp (gr_committed ?g1 tp) (forget_marks tp (gr_member ?g1 0)))\<rparr>"
  let ?w = "(mb_world (gr_member ?g2 0))\<lparr>hs := s\<rparr>"
  let ?w' = "?w\<lparr>hs := s', calls := 1, marks := [kr]\<rparr>"
  let ?g3 = "polled [kr] (Some False, ?w') 0 ?g2"
  have w: "calls ?w = 0" "marks ?w = []" by (simp_all add: fresh_group_def fresh_member_def resume_def forget_marks_def)
  have "?step (sv_db s, ?g0) (sv_db s, ?g1)"
    using produced [of kr tp ?g0] assms(2,3) by (intro group_moves) (simp add: fresh_group_def)
  moreover have "?step (sv_db s, ?g1) (sv_db s, ?g2)"
    using assigned [of ?g1 tp 0] by (intro group_moves) (simp add: fresh_group_def)
  moreover have "?step (sv_db s, ?g2) (sv_db s', ?g3)"
  proof -
    have "handle c handler (\<lambda>_. False) rnd kr ?w = (Some True, ?w')" for c rnd
      using handle_settled [of handler kr ?w s' c "\<lambda>_. False" rnd] assms(1) w by simp
    then have "poll (with_fate fate cfg) handler (\<lambda>_. False) (\<lambda>_ _. 0) ?f ?w = (Some False, ?w')" for fate
      by (simp add: poll_def handleBatch_def)
    moreover have "fetchable ?g2 0 [kr]"
      using assms(2) by (simp add: fetchable_def fresh_group_def fresh_member_def resume_def forget_marks_def
          of_partition_def pollBatch_def)
    moreover have "\<not> mb_done (gr_member ?g2 0)"
      by (simp add: fresh_group_def fresh_member_def resume_def forget_marks_def)
    ultimately show ?thesis
      using poll_step [of ?g2 0 ?f "\<lambda>_. False" s _ cfg handler "\<lambda>_ _. 0" "Some False" ?w' moves] by simp
  qed
  moreover have "?step (sv_db s', ?g3) (sv_db s', commit_marked 0 tp ?g3)"
    using commits [of ?g3 tp 0] by (intro group_moves) (simp add: polled_def Let_def)
  ultimately have "?step\<^sup>*\<^sup>* (sv_db s, ?g0) (sv_db s', commit_marked 0 tp ?g3)"
    by (meson converse_rtranclp_into_rtranclp rtranclp.rtrancl_refl)
  moreover have "gr_log (commit_marked 0 tp ?g3) tp = [kr]" "gr_committed (commit_marked 0 tp ?g3) tp = 1"
    using assms(2,3) by (simp_all add: commit_marked_def polled_def Let_def committed_def fresh_group_def)
  moreover have "dlq_log (mb_world (gr_member (commit_marked 0 tp ?g3) m)) = []" for m
    by (simp add: commit_marked_def polled_def Let_def fresh_group_def fresh_member_def resume_def forget_marks_def)
  moreover have "refused (mb_world (gr_member (commit_marked 0 tp ?g3) m)) = []" for m
    by (simp add: commit_marked_def polled_def Let_def fresh_group_def fresh_member_def resume_def forget_marks_def)
  then have "refusals (commit_marked 0 tp ?g3) = {}" by (simp add: refusals_def)
  ultimately show ?thesis by blast
qed

lemma calm_session: "session demo_lib demo_enc (\<lambda>t. t) {} False calm_env"
  by (simp add: session_def rely_calm server_demo)

definition demo_command_record :: krecord where
  "demo_command_record = record_of \<lparr>msg_Topic = CommandsTopic, msg_Key = ''14A'', msg_Payload = ''hold'',
     msg_Headers = Headers (demo_envelope ''1'')\<rparr>"

lemma demo_command_record:
  "Parse (r_Headers (toRecord demo_command_record)) = Inr (demo_envelope ''1'')"
  "topicPartition demo_command_record = (CommandsTopic, 0)" "kr_Offset demo_command_record = 0"
  "r_Value (toRecord demo_command_record) = ''hold''"
proof -
  have "map_of (r_Headers (toRecord demo_command_record)) = map_of (Headers (demo_envelope ''1''))"
    unfolding demo_command_record_def by (subst toRecord_headers) (simp_all add: distinct_Headers)
  then show "Parse (r_Headers (toRecord demo_command_record)) = Inr (demo_envelope ''1'')"
    by (subst Parse_cong) (auto simp: Parse_Headers demo_envelope_def)
qed (simp_all add: demo_command_record_def record_of_def topicPartition_def toRecord_def)

abbreviation hold_handler :: "service handler" where
  "hold_handler \<equiv> Commands_handler demo_lib demo_enc (\<lambda>b. Inr (demo_hold ''h1'')) (\<lambda>_ _. calm_env) (\<lambda>_ _. demo_ids)"

section \<open>Properties\<close>

text \<open>
  C9. No command goes missing unreported between the topic and the database, and every one executed is
  answered: however the members of the commands group poll, crash, restart, commit and lose commits,
  however partitions move between them, whatever the broker does with each dead letter and whatever the
  rest of the service does to the database meanwhile, every record below a committed offset has been
  executed by the command handler (its envelope parsed, its message decoded and a call of \<open>Handle\<close> for
  them returned without an error from a reachable database that led to the present one) and a message
  on the events topic that names it as its cause is in the outbox or on the broker; or its dead letter
  is written; or a member has logged that the dead letter of this record, or of one fewer than
  \<open>pollBatch\<close> = 100 records before it in its partition, was refused. The last case is real: C32 shows how
  such a record is committed past. Of the context it is assumed that once done it stays done, as
  \<^verbatim>\<open>context.Context\<close> documents.
\<close>

theorem committed_commands_answered:
  assumes "\<forall>n i. session L enc tz B rb (envs n i)"
    and "stays_cancelled (Commands_handler L enc dec envs ids) cancelled"
    and "(cluster_step cfg (Commands_handler L enc dec envs ids) cancelled (service_moves L enc tz B rb))\<^sup>*\<^sup>*
      (empty_db, fresh_group s) (db, g)"
    and "i < gr_committed g tp"
  shows "i < length (gr_log g tp) \<and>
    (executed L enc dec tz B rb (toRecord (gr_log g tp ! i)) db \<and>
       (\<exists>inc m. Parse (r_Headers (toRecord (gr_log g tp ! i))) = Inr inc \<and>
          ((\<exists>ob \<in> set (outbox (tbl db)). row_message ob = m) \<or> record_of m \<in> B) \<and>
          msg_Topic m = EventsTopic \<and> map_get (msg_Headers m) ''ce_causationid'' = env_ID inc) \<or>
     (\<exists>m. dead_lettered (dlq_log (mb_world (gr_member g m))) (gr_log g tp ! i)) \<or>
     (\<exists>m j. j \<le> i \<and> i < j + pollBatch \<and> gr_log g tp ! j \<in> set (refused (mb_world (gr_member g m)))))"
proof -
  let ?r = "toRecord (gr_log g tp ! i)"
  have dealt: "i < length (gr_log g tp)" "executed L enc dec tz B rb ?r db \<or> skipped g tp i \<or>
      (\<exists>m. dead_lettered (dlq_log (mb_world (gr_member g m))) (gr_log g tp ! i))"
    using commands_cluster.committed_dealt [OF assms(3,2) fresh_group_ok _ _ assms(4)] assms(1) reachable_start
    by (simp_all add: fresh_group_def)
  moreover have "\<exists>m j. j \<le> i \<and> i < j + pollBatch \<and> gr_log g tp ! j \<in> set (refused (mb_world (gr_member g m)))"
    if "skipped g tp i"
    using that by (auto simp: skipped_def refusals_def)
  moreover have "\<exists>inc m. Parse (r_Headers ?r) = Inr inc \<and>
      ((\<exists>ob \<in> set (outbox (tbl db)). row_message ob = m) \<or> record_of m \<in> B) \<and>
      msg_Topic m = EventsTopic \<and> map_get (msg_Headers m) ''ce_causationid'' = env_ID inc"
    if ex: "executed L enc dec tz B rb ?r db"
  proof -
    obtain inc where inc: "Parse (r_Headers ?r) = Inr inc" using ex unfolding executed_def by blast
    show ?thesis using executed_answered [OF ex inc] inc unfolding met_def answer_to_def by blast
  qed
  ultimately show ?thesis by blast
qed

theorem committed_commands_answered_witness:
  "\<exists>db g m. (cluster_step demo_consumer hold_handler (\<lambda>_. False) (service_moves demo_lib demo_enc (\<lambda>t. t) {} False))\<^sup>*\<^sup>*
      (empty_db, fresh_group demo_service) (db, g) \<and> gr_committed g (CommandsTopic, 0) = 1 \<and>
    executed demo_lib demo_enc (\<lambda>b. Inr (demo_hold ''h1'')) (\<lambda>t. t) {} False (toRecord demo_command_record) db \<and>
    m \<in> row_message ` set (outbox (tbl db)) \<and> map_get (msg_Headers m) ''ce_causationid'' = ''1''"
proof -
  obtain db :: database where "Handle demo_lib demo_enc (\<lambda>_. calm_env) (\<lambda>_. demo_ids) (demo_envelope ''1'')
      (demo_hold ''h1'') empty_db = (Inr (), 1, db)"
    using demo_held_step by blast
  then have run: "hold_handler (toRecord demo_command_record) demo_service = (None, \<lparr>sv_db = db, sv_handled = 1\<rparr>)"
    by (simp add: Commands_handler_def demo_command_record(1) demo_service_def)
  obtain g where g: "(cluster_step demo_consumer hold_handler (\<lambda>_. False) (service_moves demo_lib demo_enc (\<lambda>t. t) {} False))\<^sup>*\<^sup>*
      (empty_db, fresh_group demo_service) (db, g)" "gr_log g (CommandsTopic, 0) = [demo_command_record]"
      "gr_committed g (CommandsTopic, 0) = 1" "\<forall>m. dlq_log (mb_world (gr_member g m)) = []" "refusals g = {}"
    using one_record_run [where handler = hold_handler and cfg = demo_consumer and ?s0.0 = demo_service and
        moves = "service_moves demo_lib demo_enc (\<lambda>t. t) {} False", OF run demo_command_record(2,3)]
    by (auto simp: demo_service_def)
  have "stays_cancelled hold_handler (\<lambda>_. False)" by (simp add: stays_cancelled_def)
  from committed_commands_answered [OF _ this g(1), of 0 "(CommandsTopic, 0)"] g calm_session
  have "executed demo_lib demo_enc (\<lambda>b. Inr (demo_hold ''h1'')) (\<lambda>t. t) {} False (toRecord demo_command_record) db"
    "\<exists>m \<in> row_message ` set (outbox (tbl db)). map_get (msg_Headers m) ''ce_causationid'' = ''1''"
    by (auto simp: dead_lettered_def demo_command_record(1) refusals_def) (auto simp: demo_envelope_def)
  with g(1,3) show ?thesis by blast
qed



end
