(* ===== verification/Promises.thy ===== *)
theory Promises
  imports LiveView
begin

text \<open>
  What the service says is so: every message that ever stands in the outbox, in every run of the
  service, is borne out by the committed stream of the seat it is about. The converse, that every
  event is announced, is in theory Delivery.
\<close>

section \<open>What a message claims\<close>

text \<open>The seat was held at some moment of its history, in a state the message describes.\<close>

definition was_held :: "protolib \<Rightarrow> message list \<Rightarrow> (SeatState \<Rightarrow> bool) \<Rightarrow> bool" where
  "was_held L ms P \<longleftrightarrow>
     (\<exists>n st. n \<le> length ms \<and> Fold L (take n ms) = Inr st \<and> ss_Status st = StatusHeld \<and> P st)"

text \<open>
  A hold is announced only when the seat was held for that hold and booking until that time; a hold is
  refused only when the seat was held for another; an expiry is announced only when it is an event of
  the stream. A release is confirmed whether there was something to release or not. Nothing else is
  ever sent.
\<close>

fun borne_out :: "protolib \<Rightarrow> message list \<Rightarrow> message \<Rightarrow> bool" where
  "borne_out L ms (SeatHeldMsg x) =
     was_held L ms (\<lambda>st. ss_HoldID st = sh_HoldId x \<and> ss_BookingID st = sh_BookingId x \<and>
       (ss_ExpiresAt st = AsTime L (sh_ExpiresAt x) \<or> sh_ExpiresAt x = Some (TimestampNew L (ss_ExpiresAt st))))"
| "borne_out L ms (SeatUnavailableMsg x) = was_held L ms (\<lambda>st. ss_HoldID st \<noteq> su_HoldId x)"
| "borne_out L ms (SeatHoldExpiredMsg x) = (SeatHoldExpiredMsg x \<in> set ms)"
| "borne_out L ms (SeatHoldReleasedMsg x) = True"
| "borne_out L ms _ = False"

definition kept_promise :: "protolib \<Rightarrow> encoder \<Rightarrow> tables \<Rightarrow> Message \<Rightarrow> bool" where
  "kept_promise L enc T m \<longleftrightarrow>
     msg_Topic m = EventsTopic \<and>
     (\<exists>msg ms. enc msg = Inr (msg_Payload m) \<and> map_get (msg_Headers m) ''ce_type'' = TypeName msg \<and>
        snd (answers msg) = msg_Key m \<and> seat_messages L T (msg_Key m) = Inr ms \<and> borne_out L ms msg)"

definition promises_kept :: "protolib \<Rightarrow> encoder \<Rightarrow> tables \<Rightarrow> bool" where
  "promises_kept L enc T \<longleftrightarrow> (\<forall>r \<in> set (outbox T). kept_promise L enc T (row_message r))"

definition promise_law :: "protolib \<Rightarrow> encoder \<Rightarrow> state \<Rightarrow> state \<Rightarrow> bool" where
  "promise_law L enc x y \<longleftrightarrow>
     (seats_ok L (fst x) \<and> promises_kept L enc (fst x) \<longrightarrow>
        seats_ok L (fst y) \<and> extends (fst x) (fst y) \<and> promises_kept L enc (fst y))"

lemma was_held_mono: "was_held L ms P \<Longrightarrow> was_held L (ms @ ms') P"
  unfolding was_held_def by (metis le_add1 length_append order_trans take_append diff_is_0_eq append_Nil2 take_0)

lemma was_held_now: "Fold L ms = Inr st \<Longrightarrow> ss_Status st = StatusHeld \<Longrightarrow> P st \<Longrightarrow> was_held L ms P"
  unfolding was_held_def by (intro exI [of _ "length ms"] exI [of _ st]) simp

lemma borne_out_mono: "borne_out L ms msg \<Longrightarrow> borne_out L (ms @ ms') msg"
  by (cases msg) (auto intro: was_held_mono)

text \<open>The messages of a decision, once its events are in the stream.\<close>

lemma Decide_borne_out:
  assumes "Decide L st cmd = Inr out" "Fold L ms = Inr st" "SeatID cmd = Inr s" "msg \<in> set (Messages out)"
  shows "borne_out L (ms @ out_Events out) msg \<and> snd (answers msg) = s"
proof (cases cmd)
  case (HoldSeatMsg c)
  note wf = Fold_wf [OF assms(2)]
  show ?thesis
  proof (cases "live_hold st")
    case None
    then have free: "ss_Status st = StatusFree" using wf by (auto simp: live_hold_def seat_wf_def split: if_splits)
    let ?ev = "SeatHeldMsg \<lparr>sh_HoldId = hs_HoldId c, sh_BookingId = hs_BookingId c, sh_SeatId = hs_SeatId c,
               sh_ExpiresAt = hs_ExpiresAt c\<rparr>"
    obtain st' where st': "Apply L st ?ev = Inr st'" by simp
    have "borne_out L (ms @ [?ev]) ?ev"
      using st' by (auto intro!: was_held_now [OF Fold_snoc [OF assms(2) st']])
    then show ?thesis using HoldSeatMsg assms free by (auto simp: outcome_defs status_defs)
  next
    case (Some h)
    then have "ss_Status st = StatusHeld" by (simp add: live_hold_def split: if_splits)
    then show ?thesis using HoldSeatMsg assms
      by (auto simp: outcome_defs held_def status_defs intro!: was_held_now [OF assms(2)] split: if_splits)
  qed
next
  case (ReleaseSeatHoldMsg c)
  then show ?thesis using assms by (auto simp: outcome_defs split: if_splits)
qed (use assms in auto)

lemma Expire_borne_out:
  "msg \<in> set (Messages (Expire st s h)) \<Longrightarrow>
     borne_out L (ms @ out_Events (Expire st s h)) msg \<and> snd (answers msg) = s"
  by (auto simp: outcome_defs split: if_splits)

section \<open>Statement by statement\<close>

lemma kept_promise_extends:
  assumes "seats_ok L T" "seats_ok L T'" "extends T T'" "kept_promise L enc T m"
  shows "kept_promise L enc T' m"
  using assms(4) messages_extend [OF assms(1-3), of "msg_Key m"] borne_out_mono unfolding kept_promise_def
  by (fastforce split: sum.splits)

lemma promise_rows:
  assumes "streams_law L (T, S) (T', S')" "row_message ` set (outbox T') \<subseteq> row_message ` set (outbox T)"
  shows "promise_law L enc (T, S) (T', S')"
proof -
  have "promises_kept L enc T'" if "seats_ok L T" "seats_ok L T'" "extends T T'" "promises_kept L enc T"
    unfolding promises_kept_def
  proof
    fix r'
    assume "r' \<in> set (outbox T')"
    then obtain r where "r \<in> set (outbox T)" "row_message r' = row_message r" using assms(2) by blast
    then show "kept_promise L enc T' (row_message r')"
      using that(4) kept_promise_extends [OF that(1-3)] by (simp add: promises_kept_def)
  qed
  then show ?thesis using assms(1) by (simp add: promise_law_def streams_law_def seats_step_def)
qed

lemma promise_same:
  assumes "events T' = events T" "outbox T' = outbox T"
  shows "promise_law L enc (T, S) (T', S')"
  using assms by (intro promise_rows streams_law_same) simp_all

lemma promise_law_trans:
  assumes "promise_law L enc x y" "promise_law L enc y z"
  shows "promise_law L enc x z"
  using assms unfolding promise_law_def extends_def by (meson prefix_order.trans)

interpretation promises: bookkeeping_law "promise_law L enc" for L enc
proof (unfold_locales, goal_cases)
  case (1 x)
  show ?case by (simp add: promise_law_def extends_refl)
next
  case (2 x y z)
  then show ?case by (rule promise_law_trans)
qed (auto intro!: promise_same simp: inbox_markSQL_frame [OF refl] scheduleSQL_def)

lemma promise_enqueue:
  assumes "enqueueSQL msgs T S = (Inr (x, T'), S')" "seats_ok L T \<Longrightarrow> \<forall>m \<in> set msgs. kept_promise L enc T m"
  shows "promise_law L enc (T, S) (T', S')"
proof -
  have T': "T' = T\<lparr>outbox := outbox T @ outbox_rows (outbox_seq S) msgs\<rparr>" using assms(1) by (auto simp: enqueueSQL_def)
  have same: "stream_rows T' = stream_rows T" by (rule stream_rows_same_events) (simp add: T')
  have "kept_promise L enc T' = kept_promise L enc T" by (simp add: kept_promise_def seat_messages_def same fun_eq_iff)
  moreover have "row_message ` set (outbox_rows n msgs) = set msgs" for n
    using outbox_rows_messages [of n msgs] by (metis image_set)
  then have "row_message ` set (outbox T') = row_message ` set (outbox T) \<union> set msgs" by (simp add: T' image_Un)
  ultimately have "promises_kept L enc T'" if "seats_ok L T" "promises_kept L enc T"
    using that assms(2) unfolding promises_kept_def by (metis (no_types, lifting) UnE image_eqI image_iff)
  moreover have "streams_law L (T, S) (T', S')" by (rule streams_law_same) (simp add: T')
  ultimately show ?thesis by (simp add: promise_law_def streams_law_def seats_step_def)
qed

section \<open>Transaction by transaction\<close>

text \<open>A decision appended and its messages enqueued.\<close>

lemma promise_Enqueue:
  assumes "seats_rely L e" "rely (promise_law L enc) e" "Enqueue e msgs t = (Inr (), t')"
    and "seats_ok L (view t) \<Longrightarrow> \<forall>m \<in> set msgs. kept_promise L enc (view t) m"
  shows "promise_law L enc (view t, seqs t) (view t', seqs t')"
  using assms(3)
proof (cases rule: Enqueue_ok_cases)
  case none
  then show ?thesis using promises.law_refl by simp
next
  case (enqueued t1)
  let ?U = "others e (stmts t) (seqs t) (view t)" and ?V = "others_seq e (stmts t) (seqs t)"
  have law: "promise_law L enc (view t, seqs t) (?U, ?V)" by (rule relyD [OF assms(2)])
  have run: "enqueueSQL msgs ?U ?V = (Inr ((), view t1), seqs t1)" using exec_ok(5) [OF enqueued(1)] .
  have "promise_law L enc (?U, ?V) (view t1, seqs t1)" if ok: "seats_ok L (view t)"
    using kept_promise_extends [OF ok] assms(4) [OF ok] seats_relyD [OF assms(1)] ok
    by (intro promise_enqueue [OF run]) (auto simp: seats_step_def)
  then have "promise_law L enc (view t, seqs t) (view t1, seqs t1)"
    using law promise_law_trans by (metis (no_types, lifting) fst_conv promise_law_def)
  then show ?thesis
    using keeps_stateD [OF promises.keeps_pg_notify [OF assms(2)] enqueued(2)] by (rule promise_law_trans)
qed

text \<open>Loaded, decided, appended: what the decision says is borne out from then on.\<close>

lemma decision_kept:
  assumes "seats_rely L e" "codec_ok L e" "seats_ok L (view t2)"
    and "seat_messages L (view t2) s = Inr ms" "Fold L ms = Inr st"
    and "list_all is_seat_event (out_Events out)" "live_after (live_hold st) (out_Events out) \<noteq> None"
    and "\<And>msg. msg \<in> set (Messages out) \<Longrightarrow> borne_out L (ms @ out_Events out) msg \<and> snd (answers msg) = s"
    and "AppendSeat L e s (ss_Version st) (out_Events out) meta t2 = (Inr x, t3)"
    and "outgoing enc ids (Messages out) tmpl = Inr msgs" "env_Subject tmpl = s" "m \<in> set msgs"
  shows "kept_promise L enc (view t3) m"
proof -
  have "seat_messages L (view t3) s = Inr (ms @ out_Events out)"
  proof (cases "out_Events out = []")
    case True
    then show ?thesis using assms(4,9) by (simp add: AppendSeat_def)
  next
    case False
    then show ?thesis using AppendSeat_spec [OF assms(3) _ assms(2,6,4,5,7) _ assms(9)] assms(1) by (simp add: rely_streams)
  qed
  then show ?thesis
    using outgoing_origin [OF assms(10,12)] assms(8,11) unfolding kept_promise_def by auto
qed

lemma promise_decided:
  assumes "seats_rely L e" "rely (promise_law L enc) e" "codec_ok L e" "LoadSeat L e s t1 = (Inr (st, m), t2)"
    and "\<And>ms. Fold L ms = Inr st \<Longrightarrow> list_all is_seat_event (out_Events out) \<and>
      live_after (live_hold st) (out_Events out) \<noteq> None"
    and "\<And>ms msg. Fold L ms = Inr st \<Longrightarrow> msg \<in> set (Messages out) \<Longrightarrow>
      borne_out L (ms @ out_Events out) msg \<and> snd (answers msg) = s"
    and "AppendSeat L e s (ss_Version st) (out_Events out) meta t2 = (Inr x, t3)"
    and "promise_law L enc (view t3, seqs t3) (view t4, seqs t4)" "seats_step L (view t3) (view t4)"
    and "outgoing enc ids (Messages out) tmpl = Inr msgs" "env_Subject tmpl = s" "Enqueue e msgs t4 = (Inr (), t)"
  shows "promise_law L enc (view t2, seqs t2) (view t, seqs t)"
proof (cases "seats_ok L (view t2)")
  case ok: True
  obtain ms where ms: "seat_messages L (view t2) s = Inr ms" "Fold L ms = Inr st"
    using LoadSeat_loaded [OF assms(4) seats_ok_log [OF ok]] by blast
  note evs = assms(5) [OF ms(2)]
  have "promise_law L enc (view t2, seqs t2) (view t3, seqs t3)"
    by (rule promises.appended_law [OF assms(1,3,4,5,2,7)])
      (auto simp: promise_law_def [of L enc "(view t2, seqs t2)"] intro: promise_rows)
  then have "promise_law L enc (view t2, seqs t2) (view t4, seqs t4)" using assms(8) by (rule promise_law_trans)
  moreover have "seats_ok L (view t3)"
    using AppendSeat_step [OF ok assms(1,3) conjunct1 [OF evs] ms conjunct2 [OF evs] assms(7)] ok by (simp add: seats_step_def)
  then have "kept_promise L enc (view t4) o'" if "o' \<in> set msgs" for o'
    using decision_kept [OF assms(1,3) ok ms conjunct1 [OF evs] conjunct2 [OF evs] assms(6) [OF ms(2)] assms(7,10,11) that]
      kept_promise_extends assms(9) by (auto simp: seats_step_def)
  then have "promise_law L enc (view t4, seqs t4) (view t, seqs t)" by (intro promise_Enqueue [OF assms(1,2,12)]) simp
  ultimately show ?thesis by (rule promise_law_trans)
qed (simp add: promise_law_def)

lemma promise_command:
  assumes "seats_rely L e" "rely (promise_law L enc) e" "codec_ok L e" "SeatID cmd = Inr s"
    and "applyCommand L enc e ids inc cmd s t0 = (Inr (), t)"
  shows "promise_law L enc (view t0, seqs t0) (view t, seqs t)"
  using assms(5)
proof (cases rule: applyCommand_ok_cases)
  case again
  then show ?thesis using promises.consumed_law assms(2) by blast
next
  case (applied st m out msgs t1 t2 t3 t4)
  have "streams_law L (view t3, seqs t3) (view t4, seqs t4)"
    using streams.scheduled_law [OF applied(5)] assms(1) by (simp add: rely_streams)
  then have "promise_law L enc (view t2, seqs t2) (view t, seqs t)"
    using promise_decided [OF assms(1-3) applied(2) _ _ applied(4) promises.scheduled_law [OF applied(5) assms(2)] _
        applied(6) _ applied(7)] Decide_events [OF applied(3)] Fold_wf Decide_borne_out [OF applied(3) _ assms(4)]
    by (simp add: streams_law_def reply_envelope_def)
  then show ?thesis
    using promises.consumed_law [OF applied(1) assms(2)] promises.loaded_law [OF applied(2) assms(2)]
    by (blast intro: promise_law_trans)
qed

lemma promise_fire:
  assumes "seats_rely L e" "rely (promise_law L enc) e" "codec_ok L e"
    and "claimAndFire (Fire L enc ids) e tm t0 = (Inr claimed, t)"
  shows "promise_law L enc (view t0, seqs t0) (view t, seqs t)"
proof -
  have fired: "promise_law L enc (T, S) (snd (markFiredSQL e i T), S)" for T S i by (rule promise_same) simp_all
  have mark: "promise_law L enc (view t0, seqs t0) (view t1, seqs t1)" if "MarkFired e (tr_ID tm) t0 = (r, t1)" for r t1
    using keeps_stateD [OF promises.keeps_MarkFired [OF assms(2) fired] that] .
  show ?thesis
    using assms(4)
  proof (cases rule: claimAndFire_ok_cases)
    case lost
    then show ?thesis by (rule mark)
  next
    case (stale st m t1)
    then show ?thesis using mark promises.loaded_law assms(2) by (blast intro: promise_law_trans)
  next
    case (expired st m out msgs t1 t2 t3)
    have "list_all is_seat_event (out_Events out) \<and> live_after (live_hold st) (out_Events out) \<noteq> None"
      using Expire_events_valid by (auto simp: expired(3) outcome_defs)
    then have "promise_law L enc (view t2, seqs t2) (view t, seqs t)"
      using promise_decided [OF assms(1-3) expired(2) _ _ expired(5) promises.law_refl _ expired(6) _ expired(7)]
        Expire_borne_out [of _ st "tr_Subject tm" "tr_Token tm"] expired(3)
      by (simp add: expiry_envelope_def)
    then show ?thesis
      using mark [OF expired(1)] promises.loaded_law [OF expired(2) assms(2)] by (blast intro: promise_law_trans)
  qed
qed

interpretation promise_service: service_law "promise_law L enc" L enc tz B rb for L enc tz B rb
proof (unfold_locales, goal_cases)
  case (1 e cmd s ids inc db t)
  then show ?case using promise_command [OF service_rely_seats [OF 1(1)] 1(2) _ 1(4,5)] by (simp add: server_def)
next
  case (2 e row T0 S0 db ids claimed t)
  then have "promise_law L enc (state_of db) (view t, seqs t)"
    using promise_fire [OF service_rely_seats [OF 2(1)] 2(2) _ 2(6)] by (simp add: server_def)
  with 2(5) show ?case by (rule promise_law_trans)
next
  case (3 e locked db batch t1 t)
  have "promise_law L enc (T, S) (snd (markSQL e xs T), S)" for xs T S
    by (rule markSQL_map [of e xs T]) (auto intro!: promise_rows streams_law_same)
  then show ?case by (rule promises.marked_law [OF 3(2,4,6)])
next
  case (4 e s t0 t)
  have "promise_law L enc (T, S) (snd (upsertAvailabilitySQL new T), S)" for T S new
    by (rule promise_same) (simp_all add: upsertAvailabilitySQL_def)
  then show ?case using keeps_stateD [OF promises.keeps_project [OF 4(2)] 4(4)] by simp
next
  case (5 T S)
  show ?case by (rule promise_same) (simp_all add: clearSQL_def)
next
  case (6 T S e d)
  show ?case by (intro promise_rows streams_law_same) (auto simp: outbox_pruneSQL_def)
next
  case (7 T S e d)
  show ?case by (rule promise_same) (simp_all add: timers_pruneSQL_def)
next
  case (8 T S e d)
  show ?case by (rule promise_same) (simp_all add: inbox_pruneSQL_def)
qed

section \<open>Properties\<close>

text \<open>
  C5. Promises are kept: whatever the service puts into its outbox, by any number of instances and in any
  interleaving of their statements, is true of the seat it is about, and stays true when the record
  is read later. The message is one of the four answers, about the seat it is keyed by; a seat is said
  to be held only if at some moment of its committed history it was held for that hold and that
  booking until that time; a hold is refused only if the seat was held for another; and an expiry is
  announced only if it is in the history.
\<close>

theorem promises_are_kept:
  assumes "reachable L enc tz B rb (T, S)" "r \<in> set (outbox T)" "service_steps L enc tz B rb (T, S) (T', S')"
  shows "msg_Topic (row_message r) = EventsTopic \<and>
    (\<exists>msg ms. enc msg = Inr (msg_Payload (row_message r)) \<and>
       map_get (msg_Headers (row_message r)) ''ce_type'' = TypeName msg \<and>
       snd (answers msg) = msg_Key (row_message r) \<and>
       seat_messages L T' (msg_Key (row_message r)) = Inr ms \<and> borne_out L ms msg)"
proof -
  have "seats_ok L (tbl empty_db)" using reachable_streams [OF reachable_start] by simp
  moreover have "promises_kept L enc (tbl empty_db)" by (simp add: promises_kept_def empty_db_def empty_tables_def)
  ultimately have kept: "promises_kept L enc T"
    using promise_service.service_obeys(2) [OF assms(1) [unfolded reachable_def]] by (simp add: promise_law_def)
  have ok: "seats_ok L T" "seats_ok L T'"
    using reachable_streams [OF assms(1)] reachable_streams [OF reachable_steps [OF assms(1,3)]] by simp_all
  have "extends T T'"
    using promise_service.service_obeys(2) [OF assms(3)] ok kept by (simp add: promise_law_def)
  then have "kept_promise L enc T' (row_message r)"
    using kept assms(2) kept_promise_extends [OF ok] by (simp add: promises_kept_def)
  then show ?thesis by (simp add: kept_promise_def)
qed

theorem promises_are_kept_witness:
  "\<exists>T S r msg. demo_reach {} (T, S) \<and> outbox T = [r] \<and> row_message r = demo_msg ''1'' (demo_held ''h1'') \<and>
     demo_enc msg = Inr (msg_Payload (row_message r)) \<and> snd (answers msg) = ''14A'' \<and>
     borne_out demo_lib [demo_held ''h1''] msg"
proof -
  obtain db :: database and n where db: "demo_reach {} (state_of db)"
    "seat_messages demo_lib (tbl db) ''14A'' = Inr [demo_held ''h1'']"
    "outbox (tbl db) = outbox_rows n [demo_msg ''1'' (demo_held ''h1'')]"
    using demo_held_step by blast
  let ?row = "hd (outbox (tbl db))"
  have row: "outbox (tbl db) = [?row]" "row_message ?row = demo_msg ''1'' (demo_held ''h1'')"
    using db(3) by (simp_all add: row_message_def)
  have key: "msg_Key (row_message ?row) = ''14A''"
    unfolding row(2) by (simp add: outgoing_message_def Let_def reply_envelope_def)
  have "?row \<in> set (outbox (tbl db))" using row(1) by (metis list.set_intros(1))
  from promises_are_kept [OF db(1) this service_intros(10)] obtain msg where
    "demo_enc msg = Inr (msg_Payload (row_message ?row))" "snd (answers msg) = ''14A''"
    "borne_out demo_lib [demo_held ''h1''] msg"
    unfolding key db(2) by auto
  with db(1) row show ?thesis by blast
qed

end
