(* ===== verification/Redelivery.thy ===== *)
theory Redelivery
  imports Scenario
begin

text \<open>
  A command delivered again, while the rest of the service goes on: as long as its entry in the inbox
  has not been pruned, the call contributes nothing to the database, whatever fails and whatever the
  others commit between its statements.
\<close>

definition remembers :: "string \<times> string \<times> string \<Rightarrow> state \<Rightarrow> state \<Rightarrow> bool" where
  "remembers key x y \<longleftrightarrow> (key \<in> consumed (fst x) \<longrightarrow> key \<in> consumed (fst y))"

lemma consumed_again:
  assumes "rely (remembers (c, s, i)) e" "(c, s, i) \<in> consumed (view t)" "MarkConsumed e c s i t = (Inr first, t')"
  shows "\<not> first" "view t' = others e (stmts t) (seqs t) (view t)" "seqs t' = others_seq e (stmts t) (seqs t)"
    "pending t' = pending t"
proof -
  let ?U = "others e (stmts t) (seqs t) (view t)"
  obtain n where run: "exec e (update_stmt (inbox_markSQL e c s i)) t = (Inr n, t')" "first = (n = 1)"
    using assms(3) by (auto simp: MarkConsumed_def bindE_eq_Inr_iff split: if_splits)
  have "(c, s, i) \<in> consumed ?U" using relyD [OF assms(1)] assms(2) by (simp add: remembers_def)
  then have again: "inbox_markSQL e c s i ?U = (0, ?U)"
    by (auto simp: inbox_markSQL_def consumed_def list_ex_iff)
  then show "\<not> first" "view t' = ?U" "seqs t' = others_seq e (stmts t) (seqs t)"
    using exec_ok(5) [OF run(1)] run(2) by (auto simp: update_stmt_def)
  show "pending t' = pending t"
    using run(1) by (auto simp: exec_def Let_def interleave_def split: if_splits option.splits prod.splits sum.splits)
qed

context table_law
begin

text \<open>One attempt leaves what the others left.\<close>

lemma redelivered_attempt:
  assumes "rely R e" "rely (remembers (Consumer, env_Source inc, env_ID inc)) e"
    and "(Consumer, env_Source inc, env_ID inc) \<in> consumed (tbl db)"
    and "applyInOneTransaction L enc e ids inc cmd db = (r, db')"
  shows "R (state_of db) (state_of db') \<and> notices db' = notices db"
proof (cases "SeatID cmd")
  case (Inl err)
  then show ?thesis using assms(4) by (simp add: applyInOneTransaction_def law_refl)
next
  case (Inr s)
  then have run: "WithTx e (applyCommand L enc e ids inc cmd s) db = (r, db')"
    using assms(4) by (simp add: applyInOneTransaction_def)
  have app: "R (state_of db) (view t, seqs t) \<and> pending t = []"
    if ok: "applyCommand L enc e ids inc cmd s (begin_tx db) = (Inr v, t)" for v t
  proof -
    obtain first t1 where mark: "MarkConsumed e Consumer (env_Source inc) (env_ID inc) (begin_tx db) = (Inr first, t1)"
      using ok unfolding applyCommand_def bindE_eq_Inr_iff by blast
    note again = consumed_again [OF assms(2) _ mark]
    have "t = t1" using ok mark again(1) assms(3) by (auto simp: applyCommand_def bindE_eq_Inr_iff)
    then show ?thesis using again(2-4) assms(3) relyD [OF assms(1)] by simp
  qed
  have law: "R (state_of db) (state_of db')"
    using run by (rule WithTx_law [OF assms(1) _ keeps_base_applyCommand law_refl]) (use app in blast)
  from run keeps_base_applyCommand have "notices db' = notices db"
  proof (cases rule: WithTx_cases)
    case (all x t)
    then show ?thesis using app [OF all(1)] by (simp add: applied_tx_def interleave_def)
  qed
  with law show ?thesis ..
qed

end

interpretation remembering: table_law "remembers key" for key
  by unfold_locales (auto simp: remembers_def)

context table_law
begin

lemma redelivered_attempts:
  assumes "\<And>i. rely R (envs i)" "\<And>i. rely (remembers (Consumer, env_Source inc, env_ID inc)) (envs i)"
    and "(Consumer, env_Source inc, env_ID inc) \<in> consumed (tbl db)"
    and "attempts L enc envs ids inc cmd i n err db = (r, k, db')"
  shows "R (state_of db) (state_of db') \<and> notices db' = notices db"
  using assms(3,4)
proof (induction n arbitrary: i err db)
  case 0
  then show ?case by (simp add: law_refl)
next
  case (Suc n)
  obtain r1 db1 where run: "applyInOneTransaction L enc (envs i) (ids i) inc cmd db = (r1, db1)"
    by (cases "applyInOneTransaction L enc (envs i) (ids i) inc cmd db")
  have one: "R (state_of db) (state_of db1)" "notices db1 = notices db"
    using redelivered_attempt [OF assms(1,2) Suc.prems(1) run] by blast+
  have "(Consumer, env_Source inc, env_ID inc) \<in> consumed (tbl db1)"
    using remembering.redelivered_attempt [OF assms(2,2) Suc.prems(1) run] Suc.prems(1) by (simp add: remembers_def)
  then have "R (state_of db1) (state_of db') \<and> notices db' = notices db1"
    using Suc run by (auto split: sum.splits if_splits simp: law_refl)
  then show ?case using one by (auto intro: law_trans)
qed

end

section \<open>Property\<close>

text \<open>
  C18. A redelivered command writes nothing, under any interleaving and whatever fails: while the inbox
  still has its source and id, handling it again obeys every law the other sessions obey, so that any
  change between the database it found and the one it left is theirs; it notifies nobody; and with
  nobody else and no failure it is acknowledged at the first attempt and the database is as it was.
\<close>

theorem redelivery_writes_nothing:
  assumes "(Consumer, env_Source inc, env_ID inc) \<in> consumed (tbl db)"
    and "\<forall>i. rely (remembers (Consumer, env_Source inc, env_ID inc)) (envs i)"
    and "table_law R" "\<forall>i. rely R (envs i)" "Handle L enc envs ids inc cmd db = (r, k, db')"
  shows "R (state_of db) (state_of db') \<and> notices db' = notices db \<and>
    (quiet (envs 0) \<and> SeatID cmd = Inr s \<and> env_Source inc \<noteq> [] \<and> env_ID inc \<noteq> [] \<longrightarrow>
       r = Inr () \<and> k = 1 \<and> db' = db)"
  using table_law.redelivered_attempts [OF assms(3) _ _ assms(1) assms(5) [unfolded Handle_def]] assms(2,4)
    quiet_redelivery [of envs cmd s inc db L enc ids] assms(1,5) by auto

theorem redelivery_writes_nothing_witness:
  "\<exists>db::database. demo_reach {} (state_of db) \<and> (Consumer, ''/booking'', ''1'') \<in> consumed (tbl db) \<and>
     Handle demo_lib demo_enc (\<lambda>_. calm_env) (\<lambda>_. demo_ids) (demo_envelope ''1'') (demo_release ''h1'') db = (Inr (), 1, db) \<and>
     tbl (snd (snd (Handle demo_lib demo_enc (\<lambda>_. lossy_env) (\<lambda>_. demo_ids) (demo_envelope ''1'') (demo_release ''h1'') db)))
       = tbl db"
proof -
  let ?inc = "demo_envelope ''1''" and ?cmd = "demo_release ''h1''" and ?R = "\<lambda>x y :: state. fst y = fst x"
  let ?run = "\<lambda>e db. Handle demo_lib demo_enc (\<lambda>_. e) (\<lambda>_. demo_ids) ?inc ?cmd db"
  obtain db :: database where db: "demo_reach {} (state_of db)" "consumed (tbl db) = {(Consumer, ''/booking'', ''1'')}"
    using demo_held_step by blast
  have key: "(Consumer, env_Source ?inc, env_ID ?inc) \<in> consumed (tbl db)" using db(2) by (simp add: demo_envelope_def)
  have law: "table_law ?R" by unfold_locales auto
  have others: "rely (remembers k) e" "rely ?R e" if "e = calm_env \<or> e = lossy_env" for e k
    using that by (auto simp: rely_def remembers_def lossy_env_def calm_env_def)
  have "?run calm_env db = (Inr (), 1, db)"
    using redelivery_writes_nothing [where envs = "\<lambda>_. calm_env" and s = "''14A''", OF key _ law] others
    by (cases "?run calm_env db") (fastforce simp: quiet_calm_env demo_release_def demo_envelope_def)
  moreover have "tbl (snd (snd (?run lossy_env db))) = tbl db"
    using redelivery_writes_nothing [where envs = "\<lambda>_. lossy_env", OF key _ law] others
    by (cases "?run lossy_env db") fastforce
  ultimately show ?thesis using db by blast
qed

end
