(* ===== verification/Migrations.thy ===== *)
theory Migrations
  imports LiveView
begin

text \<open>
  \<^verbatim>\<open>internal/inventory/migrations\<close>: the SQL files the service embeds, statement by statement, each with
  the half that is run to create and the half that is run to drop, and a catalogue they act on. What
  decides which of them have run already is the migration library, third-party code.

  The first property is that the files apply in order to any database that has none of their names yet
  and that the drop halves undo the create halves. The second reads the rows of the model's tables as
  rows of the declared ones and shows that every reachable state satisfies what the files declare of
  keys and numbers: the primary keys, the unique constraints, the range of the \<^verbatim>\<open>INT\<close> columns and that
  a \<^verbatim>\<open>BIGSERIAL\<close> column holds nothing beyond what its sequence has handed out. The other column types and
  \<^verbatim>\<open>NOT NULL\<close> are how the rows of the model are typed, and nothing is claimed of them.
\<close>

section \<open>Statements and the catalogue\<close>

datatype sql_type = SqlBigserial | SqlInt | SqlText | SqlJsonb | SqlBytea | SqlTimestamptz

record column =
  c_name :: string
  c_type :: sql_type
  c_not_null :: bool
  c_default_now :: bool

record table_def =
  t_name :: string
  t_columns :: "column list"
  t_primary :: "string list"
  t_unique :: "string list list"

text \<open>\<open>x_where_null\<close>: the column of \<^verbatim>\<open>WHERE ... IS NULL\<close> of a partial index.\<close>

record index_def =
  x_name :: string
  x_table :: string
  x_columns :: "string list"
  x_where_null :: "string option"

datatype ddl =
    CreateTable table_def
  | CreateIndex index_def
  | CommentOn string "string option"
  | DropTable string

record catalogue =
  cat_tables :: "table_def list"
  cat_indexes :: "index_def list"

definition empty_catalogue :: catalogue where
  "empty_catalogue = \<lparr>cat_tables = [], cat_indexes = []\<rparr>"

definition find_table :: "catalogue \<Rightarrow> string \<Rightarrow> table_def option" where
  "find_table c n = find (\<lambda>t. t_name t = n) (cat_tables c)"

definition has_columns :: "table_def \<Rightarrow> string list \<Rightarrow> bool" where
  "has_columns t ns \<longleftrightarrow> list_all (\<lambda>n. n \<in> set (map c_name (t_columns t))) ns"

text \<open>A primary key column is not null, as PostgreSQL makes it.\<close>

definition well_declared :: "table_def \<Rightarrow> bool" where
  "well_declared t \<longleftrightarrow> distinct (map c_name (t_columns t)) \<and> t_primary t \<noteq> [] \<and>
     list_all (has_columns t) (t_primary t # t_unique t) \<and>
     list_all (\<lambda>c. c_name c \<in> set (t_primary t) \<longrightarrow> c_not_null c) (t_columns t)"

fun run_ddl :: "ddl \<Rightarrow> catalogue \<Rightarrow> catalogue option" where
  "run_ddl (CreateTable t) c =
     (if find_table c (t_name t) \<noteq> None \<or> \<not> well_declared t then None
      else Some (c\<lparr>cat_tables := cat_tables c @ [t]\<rparr>))"
| "run_ddl (CreateIndex x) c =
     (case find_table c (x_table x) of
        None \<Rightarrow> None
      | Some t \<Rightarrow>
          if list_ex (\<lambda>y. x_name y = x_name x) (cat_indexes c) \<or> \<not> has_columns t (x_columns x) \<or>
             \<not> has_columns t (case x_where_null x of None \<Rightarrow> [] | Some n \<Rightarrow> [n])
          then None
          else Some (c\<lparr>cat_indexes := cat_indexes c @ [x]\<rparr>))"
| "run_ddl (CommentOn n col) c =
     (case find_table c n of
        None \<Rightarrow> None
      | Some t \<Rightarrow> if has_columns t (case col of None \<Rightarrow> [] | Some k \<Rightarrow> [k]) then Some c else None)"
| "run_ddl (DropTable n) c =
     (if find_table c n = None then None
      else Some (c\<lparr>cat_tables := filter (\<lambda>t. t_name t \<noteq> n) (cat_tables c),
                   cat_indexes := filter (\<lambda>x. x_table x \<noteq> n) (cat_indexes c)\<rparr>))"

fun run_ddls :: "ddl list \<Rightarrow> catalogue \<Rightarrow> catalogue option" where
  "run_ddls [] c = Some c"
| "run_ddls (d # ds) c = (case run_ddl d c of None \<Rightarrow> None | Some c' \<Rightarrow> run_ddls ds c')"

record migration =
  mig_create :: "ddl list"
  mig_drop :: "ddl list"

section \<open>The files\<close>

abbreviation col :: "string \<Rightarrow> sql_type \<Rightarrow> bool \<Rightarrow> column" where
  "col n ty nn \<equiv> \<lparr>c_name = n, c_type = ty, c_not_null = nn, c_default_now = False\<rparr>"

abbreviation stamped :: "string \<Rightarrow> column" where
  "stamped n \<equiv> \<lparr>c_name = n, c_type = SqlTimestamptz, c_not_null = True, c_default_now = True\<rparr>"

definition events_table :: table_def where
  "events_table =
     \<lparr>t_name = ''events'',
      t_columns = [col ''global_seq'' SqlBigserial True, col ''stream_id'' SqlText True,
        col ''version'' SqlInt True, col ''type'' SqlText True, col ''data'' SqlJsonb True,
        col ''meta'' SqlJsonb True, stamped ''recorded_at''],
      t_primary = [''global_seq''], t_unique = [[''stream_id'', ''version'']]\<rparr>"

definition outbox_table :: table_def where
  "outbox_table =
     \<lparr>t_name = ''outbox'',
      t_columns = [col ''id'' SqlBigserial True, col ''topic'' SqlText True, col ''key'' SqlText True,
        col ''payload'' SqlBytea True, col ''headers'' SqlJsonb True, col ''published_at'' SqlTimestamptz False],
      t_primary = [''id''], t_unique = []\<rparr>"

definition inbox_table :: table_def where
  "inbox_table =
     \<lparr>t_name = ''inbox'',
      t_columns = [col ''consumer'' SqlText True, col ''source'' SqlText True, col ''event_id'' SqlText True,
        stamped ''handled_at''],
      t_primary = [''consumer'', ''source'', ''event_id''], t_unique = []\<rparr>"

definition timers_table :: table_def where
  "timers_table =
     \<lparr>t_name = ''timers'',
      t_columns = [col ''id'' SqlBigserial True, col ''fire_at'' SqlTimestamptz True, col ''subject'' SqlText True,
        col ''token'' SqlText True, col ''fired_at'' SqlTimestamptz False],
      t_primary = [''id''], t_unique = []\<rparr>"

definition seat_availability_table :: table_def where
  "seat_availability_table =
     \<lparr>t_name = ''seat_availability'',
      t_columns = [col ''seat_id'' SqlText True, col ''status'' SqlText True, col ''hold_id'' SqlText True,
        col ''booking_id'' SqlText True, col ''expires_at'' SqlTimestamptz False, col ''version'' SqlInt True],
      t_primary = [''seat_id''], t_unique = []\<rparr>"

definition migration_001 :: migration where
  "migration_001 =
     \<lparr>mig_create = [CreateTable events_table, CommentOn ''events'' (Some ''global_seq'')],
      mig_drop = [DropTable ''events'']\<rparr>"

definition migration_002 :: migration where
  "migration_002 =
     \<lparr>mig_create = [CreateTable outbox_table,
        CreateIndex \<lparr>x_name = ''outbox_unpublished'', x_table = ''outbox'', x_columns = [''id''],
          x_where_null = Some ''published_at''\<rparr>,
        CommentOn ''outbox'' (Some ''key'')],
      mig_drop = [DropTable ''outbox'']\<rparr>"

definition migration_003 :: migration where
  "migration_003 =
     \<lparr>mig_create = [CreateTable inbox_table, CommentOn ''inbox'' None],
      mig_drop = [DropTable ''inbox'']\<rparr>"

definition migration_004 :: migration where
  "migration_004 =
     \<lparr>mig_create = [CreateTable timers_table,
        CreateIndex \<lparr>x_name = ''timers_due'', x_table = ''timers'', x_columns = [''fire_at''],
          x_where_null = Some ''fired_at''\<rparr>,
        CommentOn ''timers'' (Some ''subject''), CommentOn ''timers'' (Some ''token''),
        CommentOn ''timers'' (Some ''fire_at'')],
      mig_drop = [DropTable ''timers'']\<rparr>"

definition migration_005 :: migration where
  "migration_005 =
     \<lparr>mig_create = [CreateTable seat_availability_table,
        CreateIndex \<lparr>x_name = ''seat_availability_browse'', x_table = ''seat_availability'',
          x_columns = [''status'', ''seat_id''], x_where_null = None\<rparr>,
        CommentOn ''seat_availability'' None, CommentOn ''seat_availability'' (Some ''status''),
        CommentOn ''seat_availability'' (Some ''version'')],
      mig_drop = [DropTable ''seat_availability'']\<rparr>"

text \<open>\<^verbatim>\<open>//go:embed *.sql\<close>: every file, in the order of its number.\<close>

definition FS :: "migration list" where
  "FS = [migration_001, migration_002, migration_003, migration_004, migration_005]"


definition create_all :: "migration list \<Rightarrow> catalogue \<Rightarrow> catalogue option" where
  "create_all fs = run_ddls (concat (map mig_create fs))"


definition migrated :: "migration list \<Rightarrow> nat \<Rightarrow> catalogue option" where
  "migrated fs n = create_all (take n fs) empty_catalogue"

section \<open>Applying and taking back\<close>


fun indexes :: "ddl list \<Rightarrow> index_def list" where
  "indexes [] = []"
| "indexes (CreateIndex x # ds) = x # indexes ds"
| "indexes (_ # ds) = indexes ds"

definition created_table :: "migration \<Rightarrow> table_def option" where
  "created_table m = (case mig_create m of CreateTable t # ds \<Rightarrow> Some t | _ \<Rightarrow> None)"

definition table_names :: "migration list \<Rightarrow> string list" where
  "table_names fs = concat (map (\<lambda>m. case created_table m of Some t \<Rightarrow> [t_name t] | None \<Rightarrow> []) fs)"

definition index_names :: "migration list \<Rightarrow> string list" where
  "index_names fs = concat (map (\<lambda>m. map x_name (indexes (mig_create m))) fs)"










lemma names_append [simp]:
  "table_names (fs @ gs) = table_names fs @ table_names gs" "index_names (fs @ gs) = index_names fs @ index_names gs"
  by (simp_all add: table_names_def index_names_def)










section \<open>Rows against declarations\<close>

datatype sql_value =
    SqlNull
  | IntValue int
  | TextValue string
  | BytesValue bytes
  | JsonValue string
  | JsonObject gomap
  | TimeValue time

text \<open>The numbers a column admits: up to the last its sequence has handed out, or four bytes.\<close>

definition admits :: "int \<Rightarrow> column \<Rightarrow> sql_value \<Rightarrow> bool" where
  "admits seq c v \<longleftrightarrow> (case c_type c of
       SqlBigserial \<Rightarrow> (case v of IntValue i \<Rightarrow> i \<le> seq | _ \<Rightarrow> False)
     | SqlInt \<Rightarrow> (case v of IntValue i \<Rightarrow> int4_ok i | _ \<Rightarrow> False)
     | _ \<Rightarrow> True)"

definition sequence_of :: "seqs \<Rightarrow> string \<Rightarrow> int" where
  "sequence_of S n =
     (if n = ''events'' then events_seq S else if n = ''outbox'' then outbox_seq S
      else if n = ''timers'' then timers_seq S else 0)"

text \<open>The columns of a row under a key, in the order the key names them.\<close>

definition key_of :: "table_def \<Rightarrow> string list \<Rightarrow> sql_value list \<Rightarrow> sql_value option list" where
  "key_of t ns row = map (map_of (zip (map c_name (t_columns t)) row)) ns"

definition conforms :: "int \<Rightarrow> table_def \<Rightarrow> sql_value list list \<Rightarrow> bool" where
  "conforms seq t rows \<longleftrightarrow>
     list_all (list_all2 (admits seq) (t_columns t)) rows \<and>
     list_all (\<lambda>k. distinct (map (key_of t k) rows)) (t_primary t # t_unique t)"

definition optional_time :: "time option \<Rightarrow> sql_value" where
  "optional_time t = (case t of None \<Rightarrow> SqlNull | Some x \<Rightarrow> TimeValue x)"

definition event_values :: "event_row \<Rightarrow> sql_value list" where
  "event_values r = [IntValue (ev_global_seq r), TextValue (ev_stream_id r), IntValue (ev_version r),
     TextValue (ev_type r), JsonValue (ev_data r), JsonObject (ev_meta r), TimeValue (ev_recorded_at r)]"

definition outbox_values :: "outbox_row \<Rightarrow> sql_value list" where
  "outbox_values r = [IntValue (ob_id r), TextValue (ob_topic r), TextValue (ob_key r),
     BytesValue (ob_payload r), JsonObject (ob_headers r), optional_time (ob_published_at r)]"

definition inbox_values :: "inbox_row \<Rightarrow> sql_value list" where
  "inbox_values r = [TextValue (ib_consumer r), TextValue (ib_source r), TextValue (ib_event_id r),
     TimeValue (ib_handled_at r)]"

definition timer_values :: "timer_row \<Rightarrow> sql_value list" where
  "timer_values r = [IntValue (tm_id r), TimeValue (tm_fire_at r), TextValue (tm_subject r),
     TextValue (tm_token r), optional_time (tm_fired_at r)]"

definition avail_values :: "avail_row \<Rightarrow> sql_value list" where
  "avail_values r = [TextValue (av_seat_id r), TextValue (av_status r), TextValue (av_hold_id r),
     TextValue (av_booking_id r), optional_time (av_expires_at r), IntValue (av_version r)]"

definition rows_of :: "tables \<Rightarrow> string \<Rightarrow> sql_value list list" where
  "rows_of T n =
     (if n = ''events'' then map event_values (events T)
      else if n = ''outbox'' then map outbox_values (outbox T)
      else if n = ''inbox'' then map inbox_values (inbox T)
      else if n = ''timers'' then map timer_values (timers T)
      else if n = ''seat_availability'' then map avail_values (seat_availability T)
      else [])"

lemmas table_defs = events_table_def outbox_table_def inbox_table_def timers_table_def seat_availability_table_def
lemmas values_defs = event_values_def outbox_values_def inbox_values_def timer_values_def avail_values_def

lemma migrated_all:
  obtains c where "migrated FS 5 = Some c"
    "cat_tables c = [events_table, outbox_table, inbox_table, timers_table, seat_availability_table]"
proof -
  have "map_option cat_tables (migrated FS 5) =
      Some [events_table, outbox_table, inbox_table, timers_table, seat_availability_table]"
    by code_simp
  then show ?thesis using that by auto
qed

lemma keys_of:
  "key_of events_table [''global_seq''] (event_values ev) = [Some (IntValue (ev_global_seq ev))]"
  "key_of events_table [''stream_id'', ''version''] (event_values ev) =
     [Some (TextValue (fst (event_key ev))), Some (IntValue (snd (event_key ev)))]"
  "key_of outbox_table [''id''] (outbox_values ob) = [Some (IntValue (ob_id ob))]"
  "key_of inbox_table [''consumer'', ''source'', ''event_id''] (inbox_values ib) =
     [Some (TextValue (fst (inbox_key ib))), Some (TextValue (fst (snd (inbox_key ib)))),
      Some (TextValue (snd (snd (inbox_key ib))))]"
  "key_of timers_table [''id''] (timer_values tm) = [Some (IntValue (tm_id tm))]"
  "key_of seat_availability_table [''seat_id''] (avail_values av) = [Some (TextValue (av_seat_id av))]"
  by (simp_all add: key_of_def table_defs values_defs event_key_def inbox_key_def)

lemma distinct_keys:
  assumes "distinct (map f rows)" "\<And>x y. g x = g y \<Longrightarrow> f x = f y"
  shows "distinct (map g rows)"
proof -
  have d: "distinct rows" "inj_on f (set rows)" using assms(1) by (simp_all add: distinct_map)
  have "inj_on g (set rows)" by (rule inj_onI) (rule inj_onD [OF d(2) assms(2)])
  then show ?thesis using d(1) by (simp add: distinct_map)
qed

lemmas fits_defs = table_defs values_defs admits_def sequence_of_def

lemma events_conform: "events_wf (T, S) \<Longrightarrow> conforms (sequence_of S ''events'') events_table (rows_of T ''events'')"
proof -
  assume wf: "events_wf (T, S)"
  have "list_all (list_all2 (admits (sequence_of S ''events'')) (t_columns events_table)) (map event_values (events T))"
    using wf by (auto simp: events_wf_def list_all_iff fits_defs)
  moreover have "distinct (map (\<lambda>r. key_of events_table [''global_seq''] (event_values r)) (events T))"
    by (rule distinct_keys [of ev_global_seq]) (use wf in \<open>simp_all add: events_wf_def keys_of\<close>)
  moreover have "distinct (map (\<lambda>r. key_of events_table [''stream_id'', ''version''] (event_values r)) (events T))"
    by (rule distinct_keys [of event_key]) (use wf in \<open>simp_all add: events_wf_def keys_of prod_eq_iff\<close>)
  ultimately show ?thesis by (simp add: conforms_def rows_of_def comp_def) (simp add: events_table_def)
qed

lemma outbox_conform: "outbox_wf (T, S) \<Longrightarrow> conforms (sequence_of S ''outbox'') outbox_table (rows_of T ''outbox'')"
proof -
  assume wf: "outbox_wf (T, S)"
  have "list_all (list_all2 (admits (sequence_of S ''outbox'')) (t_columns outbox_table)) (map outbox_values (outbox T))"
    using wf by (auto simp: outbox_wf_def list_all_iff fits_defs)
  moreover have "distinct (map (\<lambda>r. key_of outbox_table [''id''] (outbox_values r)) (outbox T))"
    by (rule distinct_keys [of ob_id]) (use wf in \<open>simp_all add: outbox_wf_def outbox_ids_def keys_of\<close>)
  ultimately show ?thesis by (simp add: conforms_def rows_of_def comp_def) (simp add: outbox_table_def)
qed

lemma inbox_conform: "inbox_wf (T, S) \<Longrightarrow> conforms (sequence_of S ''inbox'') inbox_table (rows_of T ''inbox'')"
proof -
  assume wf: "inbox_wf (T, S)"
  have "list_all (list_all2 (admits (sequence_of S ''inbox'')) (t_columns inbox_table)) (map inbox_values (inbox T))"
    by (auto simp: list_all_iff fits_defs)
  moreover have "distinct (map (\<lambda>r. key_of inbox_table [''consumer'', ''source'', ''event_id''] (inbox_values r)) (inbox T))"
    by (rule distinct_keys [of inbox_key]) (use wf in \<open>simp_all add: inbox_wf_def keys_of prod_eq_iff\<close>)
  ultimately show ?thesis by (simp add: conforms_def rows_of_def comp_def) (simp add: inbox_table_def)
qed

lemma timers_conform: "timers_wf (T, S) \<Longrightarrow> conforms (sequence_of S ''timers'') timers_table (rows_of T ''timers'')"
proof -
  assume wf: "timers_wf (T, S)"
  have "list_all (list_all2 (admits (sequence_of S ''timers'')) (t_columns timers_table)) (map timer_values (timers T))"
    using wf by (auto simp: timers_wf_def list_all_iff fits_defs)
  moreover have "distinct (map (\<lambda>r. key_of timers_table [''id''] (timer_values r)) (timers T))"
    by (rule distinct_keys [of tm_id]) (use wf in \<open>simp_all add: timers_wf_def timers_ok_def keys_of\<close>)
  ultimately show ?thesis by (simp add: conforms_def rows_of_def comp_def) (simp add: timers_table_def)
qed

text \<open>A row's version is the position of an event of its stream, so it fits the column because that does.\<close>

lemma view_version_fits:
  assumes "events_wf (T, S)" "log_ok T" "row_ok L e T r"
  shows "int4_ok (av_version r)"
proof -
  let ?rows = "stream_rows T (av_seat_id r)"
  obtain ms where ms: "seat_messages L T (av_seat_id r) = Inr ms" "0 < av_version r" "av_version r \<le> int (length ms)"
    using assms(3) by (auto simp: row_ok_def split: sum.splits)
  have "length ms = length ?rows" using decode_all_length ms(1) by (fastforce simp: seat_messages_def)
  moreover have "map ev_version ?rows = numbered 0 (length ?rows)"
    using assms(2) by (simp add: log_ok_iff versions_ok_def)
  ultimately have "av_version r \<in> set (map ev_version ?rows)" using ms(2,3) by (simp add: set_numbered)
  then show ?thesis using assms(1) by (auto simp: events_wf_def list_all_iff stream_rows_def)
qed

lemma view_conform:
  assumes "events_wf (T, S)" "log_ok T" "view_ok L e T"
  shows "conforms (sequence_of S ''seat_availability'') seat_availability_table (rows_of T ''seat_availability'')"
proof -
  have "int4_ok (av_version r)" if "r \<in> set (seat_availability T)" for r
    using view_version_fits [OF assms(1,2), of L e r] assms(3) that by (simp add: view_ok_def list_all_iff)
  then have "list_all (list_all2 (admits (sequence_of S ''seat_availability'')) (t_columns seat_availability_table)) (map avail_values (seat_availability T))"
    by (auto simp: list_all_iff fits_defs split: option.splits)
  moreover have "distinct (map (\<lambda>r. key_of seat_availability_table [''seat_id''] (avail_values r)) (seat_availability T))"
    by (rule distinct_keys [of av_seat_id]) (use assms(3) in \<open>simp_all add: view_ok_def view_ids_def keys_of\<close>)
  ultimately show ?thesis by (simp add: conforms_def rows_of_def comp_def) (simp add: seat_availability_table_def)
qed

section \<open>Properties\<close>




text \<open>
  C13. The tables keep the keys and the numbers the migrations declare: in every state the service can
  reach, of every table of the fully migrated catalogue no two rows agree on the primary key or on a
  unique constraint, every value of an \<^verbatim>\<open>INT\<close> column fits four bytes, and every value of a
  \<^verbatim>\<open>BIGSERIAL\<close> column is at most the last number its sequence has handed out.
\<close>

theorem tables_match_migrations:
  assumes "reachable L enc tz B rb (T, S)"
  shows "\<exists>c. migrated FS (length FS) = Some c \<and>
    map t_name (cat_tables c) = [''events'', ''outbox'', ''inbox'', ''timers'', ''seat_availability''] \<and>
    list_all (\<lambda>t. conforms (sequence_of S (t_name t)) t (rows_of T (t_name t))) (cat_tables c)"
proof -
  obtain c where c: "migrated FS 5 = Some c"
    "cat_tables c = [events_table, outbox_table, inbox_table, timers_table, seat_availability_table]"
    by (rule migrated_all)
  have names: "t_name events_table = ''events''" "t_name outbox_table = ''outbox''" "t_name inbox_table = ''inbox''"
    "t_name timers_table = ''timers''" "t_name seat_availability_table = ''seat_availability''"
    by (simp_all add: table_defs)
  have wf: "events_wf (T, S)" "outbox_wf (T, S)" "inbox_wf (T, S)" "timers_wf (T, S)"
    using reachable_schema [OF assms] by (simp_all add: schema_ok_def)
  have "log_ok T" using seats_ok_log reachable_streams [OF assms] by simp
  moreover have "view_ok L (calm_env\<lparr>tstz := tz\<rparr>) T" using assms by (rule reachable_view) simp
  ultimately have "conforms (sequence_of S ''seat_availability'') seat_availability_table (rows_of T ''seat_availability'')"
    using wf(1) by (intro view_conform)
  then have "list_all (\<lambda>t. conforms (sequence_of S (t_name t)) t (rows_of T (t_name t))) (cat_tables c)"
    using events_conform [OF wf(1)] outbox_conform [OF wf(2)] inbox_conform [OF wf(3)] timers_conform [OF wf(4)]
    by (simp add: c(2) names)
  moreover have "length FS = 5" by (simp add: FS_def)
  ultimately show ?thesis using c names by simp
qed

theorem tables_match_migrations_witness:
  "\<exists>T S c. demo_reach {} (T, S) \<and> seat_messages demo_lib T ''14A'' = Inr [demo_held ''h1''] \<and> migrated FS (length FS) = Some c \<and>
     list_all (\<lambda>t. conforms (sequence_of S (t_name t)) t (rows_of T (t_name t))) (cat_tables c)"
proof -
  obtain db :: database where db: "demo_reach {} (state_of db)" "seat_messages demo_lib (tbl db) ''14A'' = Inr [demo_held ''h1'']"
    using demo_held_step by blast
  from tables_match_migrations [OF db(1)] show ?thesis using db by blast
qed

end
