(* ===== verification/Election.thy ===== *)
theory Election
  imports OutboxPoller
begin

text \<open>
  The rest of \<^verbatim>\<open>internal/platform/outbox/poller.go\<close>: which poller is the active one and what it holds
  of the connection pool while it is. \<open>TryElect\<close> takes a session-scoped advisory lock on a dedicated
  connection, \<open>listen\<close> subscribes on another, and \<open>Run\<close> gives both back on every way out.

  The lock is the session that holds it, if any; every poller has a session of its own. What the pool
  has lent out is a trace of acquisitions and releases. The errors of the calls that leave the process
  are the record \<open>poller_faults\<close>. When asking for the lock fails, pgx closes the connection and with it
  the session, so the lock is then as it was.
\<close>

datatype conn = ElectionConn | ListenConn

type_synonym sessions = "nat option \<times> conn lifecycle list"

record poller_faults =
  pf_acquire :: "error option"
  pf_try_lock :: "error option"
  pf_unlock :: "error option"
  pf_listen_acquire :: "error option"
  pf_listen :: "error option"

section \<open>Election\<close>

definition TryElect :: "nat \<Rightarrow> poller_faults \<Rightarrow> sessions \<Rightarrow> (error + bool) \<times> sessions" where
  "TryElect session f = (\<lambda>(lock, tr).
     case pf_acquire f of
       Some err \<Rightarrow> (Inl (Errorf ''outbox: acquire election conn: '' err []), lock, tr)
     | None \<Rightarrow>
         (case pf_try_lock f of
            Some err \<Rightarrow>
              (Inl (Errorf ''outbox: try advisory lock: '' err []),
               lock, tr @ [Acquired ElectionConn, Released ElectionConn])
          | None \<Rightarrow>
              if lock = None \<or> lock = Some session then (Inr True, Some session, tr @ [Acquired ElectionConn])
              else (Inr False, lock, tr @ [Acquired ElectionConn, Released ElectionConn])))"

text \<open>
  The closure a winner gets, with the state of its \<^verbatim>\<open>sync.Once\<close>: the unlock's own error is dropped,
  and then the lock stays with the session. A loser gets a function that does nothing.
\<close>

definition release_elected :: "nat \<Rightarrow> poller_faults \<Rightarrow> bool \<times> sessions \<Rightarrow> bool \<times> sessions" where
  "release_elected session f = (\<lambda>(done, lock, tr).
     if done then (done, lock, tr)
     else
       (True,
        case pf_unlock f of
          Some _ \<Rightarrow> lock
        | None \<Rightarrow> if lock = Some session then None else lock,
        tr @ [Released ElectionConn]))"

section \<open>Listening\<close>

definition listen :: "poller_faults \<Rightarrow> sessions \<Rightarrow> (error + unit) \<times> sessions" where
  "listen f = (\<lambda>(lock, tr).
     case pf_listen_acquire f of
       Some err \<Rightarrow> (Inl (Errorf ''outbox: acquire listen conn: '' err []), lock, tr)
     | None \<Rightarrow>
         (case pf_listen f of
            Some err \<Rightarrow>
              (Inl (Errorf ''outbox: listen: '' err []), lock, tr @ [Acquired ListenConn, Released ListenConn])
          | None \<Rightarrow> (Inr (), lock, tr @ [Acquired ListenConn])))"

text \<open>\<open>stop\<close>: it waits for the listening goroutine, then gives the connection back.\<close>

definition stopListening :: "sessions \<Rightarrow> sessions" where
  "stopListening = (\<lambda>(lock, tr). (lock, tr @ [Released ListenConn]))"

section \<open>Run\<close>

text \<open>
  The election, then either waiting for the context (a poller that lost) or listening and the loop,
  along the passes that wake it; the deferred calls run in the reverse order of their statements.
\<close>

definition Poller_Run ::
  "'b publish \<Rightarrow> nat \<Rightarrow> poller_faults \<Rightarrow> 'b poll_pass list \<Rightarrow> sessions \<Rightarrow> database \<times> 'b \<Rightarrow>
     (error + unit) option \<times> sessions \<times> database \<times> 'b" where
  "Poller_Run pub session f ps ss s =
     (case TryElect session f ss of
        (Inl err, ss1) \<Rightarrow> (Some (Inl err), ss1, s)
      | (Inr held, ss1) \<Rightarrow>
          if \<not> held then
            (if list_ex (\<lambda>p. pp_wake p = PollDone) ps then Some (Inr ()) else None, ss1, s)
          else
            (case listen f ss1 of
               (Inl err, ss2) \<Rightarrow> (Some (Inl err), snd (release_elected session f (False, ss2)), s)
             | (Inr _, ss2) \<Rightarrow>
                 (case poll_loop pub ps s of
                    (None, s') \<Rightarrow> (None, ss2, s')
                  | (Some _, s') \<Rightarrow>
                      (Some (Inr ()), snd (release_elected session f (False, stopListening ss2)), s'))))"

lemmas session_defs = TryElect_def release_elected_def listen_def stopListening_def

section \<open>Many pollers\<close>

text \<open>
  The pollers of all instances over one database. Each goes through \<open>TryElect\<close> once per \<open>Run\<close>; a
  winner is the active one until it steps down, with or without its unlock getting through; a loser
  stands by until its context is done. A process may die, which ends its session and so frees the
  lock. A session may also end while its process lives on (the connection is cut, the server
  restarts): the lock is free then too, but nothing in \<open>Run\<close> looks at the election connection again, so
  the poller stays as it was. Such pollers are in \<open>el_cut\<close>; their unlock does not get through.
\<close>

datatype poller_phase = Idle | Standby | Active

record election =
  el_lock :: "nat option"
  el_phase :: "nat \<Rightarrow> poller_phase"
  el_cut :: "nat set"

inductive election_step :: "election \<Rightarrow> election \<Rightarrow> bool" where
  elected: "el_phase x p = Idle \<Longrightarrow> TryElect p f (el_lock x, tr) = (Inr held, lock', tr') \<Longrightarrow>
     election_step x (x\<lparr>el_lock := lock', el_phase := (el_phase x)(p := if held then Active else Standby),
       el_cut := el_cut x - {p}\<rparr>)"
| refused: "el_phase x p = Idle \<Longrightarrow> TryElect p f (el_lock x, tr) = (Inl err, lock', tr') \<Longrightarrow>
     election_step x (x\<lparr>el_lock := lock'\<rparr>)"
| stepped_down: "el_phase x p = Active \<Longrightarrow> (p \<in> el_cut x \<longrightarrow> pf_unlock f \<noteq> None) \<Longrightarrow>
     release_elected p f (False, el_lock x, tr) = (True, lock', tr') \<Longrightarrow>
     election_step x (x\<lparr>el_lock := lock', el_phase := (el_phase x)(p := Idle)\<rparr>)"
| stopped: "el_phase x p = Standby \<Longrightarrow> election_step x (x\<lparr>el_phase := (el_phase x)(p := Idle)\<rparr>)"
| session_lost: "election_step x
     (x\<lparr>el_lock := (if el_lock x = Some p then None else el_lock x), el_cut := insert p (el_cut x)\<rparr>)"
| died: "election_step x
     (x\<lparr>el_lock := (if el_lock x = Some p then None else el_lock x), el_phase := (el_phase x)(p := Idle)\<rparr>)"

inductive_cases election_stepE: "election_step x y"

definition before_election :: election where
  "before_election = \<lparr>el_lock = None, el_phase = (\<lambda>_. Idle), el_cut = {}\<rparr>"

text \<open>An active poller whose session is alive holds the lock.\<close>

definition active_holds :: "election \<Rightarrow> bool" where
  "active_holds x \<longleftrightarrow> (\<forall>p. el_phase x p = Active \<and> p \<notin> el_cut x \<longrightarrow> el_lock x = Some p)"

lemma TryElect_lock:
  "TryElect p f (lock, tr) = (Inr held, lock', tr') \<Longrightarrow>
     (if held then (lock = None \<or> lock = Some p) \<and> lock' = Some p else lock' = lock \<and> lock \<noteq> None \<and> lock \<noteq> Some p)"
  "TryElect p f (lock, tr) = (Inl err, lock', tr') \<Longrightarrow> lock' = lock"
  by (auto simp: TryElect_def split: option.splits if_splits)

lemma release_lock:
  "release_elected p f (False, lock, tr) = (True, lock', tr') \<Longrightarrow> lock' = lock \<or> lock = Some p \<and> lock' = None"
  by (auto simp: release_elected_def split: option.splits if_splits)

lemma active_holds_step: "election_step x y \<Longrightarrow> active_holds x \<Longrightarrow> active_holds y"
proof (induction rule: election_step.induct)
  case (elected x p f tr held lock' tr')
  then show ?case using TryElect_lock(1) [OF elected(2)] by (auto simp: active_holds_def split: if_splits)
next
  case (refused x p f tr err lock' tr')
  then show ?case using TryElect_lock(2) [OF refused(2)] by (simp add: active_holds_def)
next
  case (stepped_down x p f tr lock' tr')
  then show ?case using release_lock [OF stepped_down(3)] by (auto simp: active_holds_def)
qed (auto simp: active_holds_def)

abbreviation election_run :: "election \<Rightarrow> bool" where
  "election_run x \<equiv> election_step\<^sup>*\<^sup>* before_election x"

lemma run_active_holds: "election_run x \<Longrightarrow> active_holds x"
proof (induction rule: rtranclp_induct)
  case base
  show ?case by (simp add: active_holds_def before_election_def)
qed (rule active_holds_step)






definition no_poller_faults :: poller_faults where
  "no_poller_faults =
     \<lparr>pf_acquire = None, pf_try_lock = None, pf_unlock = None, pf_listen_acquire = None, pf_listen = None\<rparr>"

lemma elected_step:
  assumes "el_phase x p = Idle"
  shows "election_step x (x\<lparr>el_lock := (if el_lock x = None then Some p else el_lock x),
      el_phase := (el_phase x)(p := if el_lock x = None \<or> el_lock x = Some p then Active else Standby),
      el_cut := el_cut x - {p}\<rparr>)"
proof -
  let ?held = "el_lock x = None \<or> el_lock x = Some p" and ?lock = "if el_lock x = None then Some p else el_lock x"
  have "\<exists>tr. TryElect p no_poller_faults (el_lock x, []) = (Inr ?held, ?lock, tr)"
    by (auto simp: TryElect_def no_poller_faults_def)
  then show ?thesis using elected [OF assms] by metis
qed

text \<open>A poller whose session is lost while another one is about to start.\<close>

lemma lost_session:
  assumes "election_run x" "el_phase x p = Active" "p \<notin> el_cut x" "el_phase x q = Idle"
  shows "\<exists>y. election_step\<^sup>*\<^sup>* x y \<and> el_phase y p = Active \<and> el_phase y q = Active \<and> el_lock y = Some q"
proof -
  have lock: "el_lock x = Some p" using run_active_holds [OF assms(1)] assms(2,3) by (simp add: active_holds_def)
  let ?y = "x\<lparr>el_lock := None, el_cut := insert p (el_cut x)\<rparr>"
  have "election_step x ?y" using session_lost [of x p] lock by simp
  moreover obtain z where "election_step ?y z" "el_phase z p = Active" "el_phase z q = Active" "el_lock z = Some q"
    using elected_step [of ?y q] assms(2,4) by fastforce
  ultimately show ?thesis by (meson converse_rtranclp_into_rtranclp r_into_rtranclp)
qed

section \<open>Properties\<close>

text \<open>
  C26. The election, as far as it goes: however many instances run, in whatever order their pollers are
  elected, fail to ask, step down, have their unlock refused, lose their session or die, an active
  poller whose election session is alive holds the lock, so there is at most one of those: when two
  pollers are active, one of them has lost its session. That is all the election gives: from any such
  state the session can be lost and a poller that starts then be elected, and both are active, the
  first without the lock, which it never looks at again.
\<close>

theorem one_active_poller:
  assumes "election_step\<^sup>*\<^sup>* before_election x" "el_phase x p = Active"
  shows "(p \<notin> el_cut x \<longrightarrow> el_lock x = Some p) \<and>
    (\<forall>q. el_phase x q = Active \<and> q \<noteq> p \<longrightarrow> p \<in> el_cut x \<or> q \<in> el_cut x) \<and>
    (\<forall>q. p \<notin> el_cut x \<and> el_phase x q = Idle \<longrightarrow>
       (\<exists>y. election_step\<^sup>*\<^sup>* x y \<and> el_phase y p = Active \<and> el_phase y q = Active \<and> el_lock y = Some q))"
proof (intro conjI)
  show "p \<notin> el_cut x \<longrightarrow> el_lock x = Some p"
    "\<forall>q. el_phase x q = Active \<and> q \<noteq> p \<longrightarrow> p \<in> el_cut x \<or> q \<in> el_cut x"
    using run_active_holds [OF assms(1)] assms(2) unfolding active_holds_def by (metis option.inject)+
qed (use lost_session [OF assms] in blast)

definition two_started :: election where
  "two_started = \<lparr>el_lock = Some 1, el_phase = (\<lambda>_. Idle)(1 := Active, 2 := Standby), el_cut = {}\<rparr>"

lemma two_started_run: "election_run two_started"
proof -
  let ?x = "\<lparr>el_lock = Some 1, el_phase = (\<lambda>_. Idle)(1 := Active), el_cut = {}\<rparr>"
  have "election_step before_election ?x" using elected_step [of before_election 1] by (simp add: before_election_def)
  moreover have "election_step ?x two_started" using elected_step [of ?x 2] by (simp add: two_started_def)
  ultimately show ?thesis by simp
qed

theorem one_active_poller_witness:
  "election_step\<^sup>*\<^sup>* before_election two_started \<and> el_phase two_started 1 = Active \<and> el_lock two_started = Some 1 \<and>
   (\<exists>y. election_step\<^sup>*\<^sup>* two_started y \<and> el_phase y 1 = Active \<and> el_phase y 3 = Active \<and> el_lock y = Some 3)"
proof -
  have "el_phase two_started 1 = Active" "1 \<notin> el_cut two_started" "el_phase two_started 3 = Idle"
    by (simp_all add: two_started_def)
  with one_active_poller [OF two_started_run, of 1] two_started_run show ?thesis by blast
qed

text \<open>
  Nothing is kept: on every way out of \<open>Run\<close> (the election could not be asked for, it was lost, the
  listener could not be started, the context is done) every connection the poller took is back in the
  pool, the listening one before the one that holds the lock, and a lock that was free is free again
  unless the unlock itself was refused. While it runs as the winner it holds exactly the two
  connections and the lock.
\<close>

theorem Run_returns_connections:
  assumes "Poller_Run pub session f ps (lock, []) s = (r, (lock', tr), s')"
  shows "(r \<noteq> None \<longrightarrow> still_open [] tr = [] \<and>
      tr \<in> {[], [Acquired ElectionConn, Released ElectionConn],
        [Acquired ElectionConn, Acquired ListenConn, Released ListenConn, Released ElectionConn]} \<and>
      (lock \<noteq> Some session \<and> pf_unlock f = None \<longrightarrow> lock' = lock)) \<and>
    (r = None \<and> lock = None \<longrightarrow> lock' = Some session \<and> still_open [] tr = [ElectionConn, ListenConn])"
  using assms by (auto simp: Poller_Run_def session_defs split: option.splits if_splits sum.splits prod.splits)

definition one_pass :: "poll_wake \<Rightarrow> 'b poll_pass" where
  "one_pass w = \<lparr>pp_envs = (\<lambda>_. calm_env), pp_locked = nobody, pp_fuel = 1, pp_wake = w, pp_prune_env = calm_env\<rparr>"

theorem Run_returns_connections_witness:
  "\<exists>tr s'. Poller_Run (\<lambda>ms b. (Inr (), b @ ms)) 1 no_poller_faults [one_pass PollDone] (None, []) (empty_db, []) =
     (Some (Inr ()), (None, tr), s') \<and> still_open [] tr = [] \<and> length tr = 4"
proof -
  obtain r lock' tr s' where run: "Poller_Run (\<lambda>ms b. (Inr (), b @ ms)) 1 no_poller_faults [one_pass PollDone]
      (None, []) (empty_db, []) = (r, (lock', tr), s')" by (metis prod.collapse)
  moreover from run have "r = Some (Inr ())" "length tr = 4"
    by (auto simp: Poller_Run_def session_defs no_poller_faults_def one_pass_def Let_def)
  moreover from this Run_returns_connections [OF run] have "still_open [] tr = []" "lock' = None"
    by (auto simp: no_poller_faults_def)
  ultimately show ?thesis by blast
qed



end
