(* ===== verification/Protobuf.thy ===== *)
theory Protobuf
  imports Contracts
begin

text \<open>
  What the generated files of \<^verbatim>\<open>contracts/sagaflow/inventory/v1\<close> have in common, once for all six.

  The first part reads the protobuf wire format (a varint key, then a varint or a length and that
  many bytes) and, with the field numbers of \<^verbatim>\<open>descriptor.proto\<close>, the file descriptors that the
  generated files carry as raw bytes. Its writer is there to show that the reader loses nothing:
  \<open>read_write_fields\<close>.

  The second part models the generated methods over a pointer receiver: an object is the message
  with the reflection state beside it, and a nil pointer is \<open>None\<close>. What the protobuf runtime does
  with a builder is third-party code and stays a parameter of \<open>file_init\<close>.
\<close>

section \<open>The wire format\<close>

datatype wire_value = VarInt nat | LenBytes string

fun read_varint :: "string \<Rightarrow> (nat \<times> string) option" where
  "read_varint [] = None"
| "read_varint (c # cs) =
     (let b = of_char c in
      if b < 128 then Some (b, cs)
      else map_option (\<lambda>(n, rest). (b - 128 + 128 * n, rest)) (read_varint cs))"

definition read_value :: "nat \<Rightarrow> string \<Rightarrow> (wire_value \<times> string) option" where
  "read_value wire_type cs =
     (if wire_type = 0 then map_option (\<lambda>(n, rest). (VarInt n, rest)) (read_varint cs)
      else if wire_type = 2 then
        (case read_varint cs of
           None \<Rightarrow> None
         | Some (n, rest) \<Rightarrow>
             if n \<le> length rest then Some (LenBytes (take n rest), drop n rest) else None)
      else None)"

lemma read_varint_shorter: "read_varint cs = Some (n, rest) \<Longrightarrow> length rest < length cs"
  by (induction cs arbitrary: n rest rule: read_varint.induct)
     (fastforce simp: Let_def split: if_splits)+

lemma read_value_shorter: "read_value w cs = Some (v, rest) \<Longrightarrow> length rest \<le> length cs"
  by (auto simp: read_value_def dest!: read_varint_shorter split: if_splits option.splits)

text \<open>A message is its fields one after the other, each under the key
  \<^verbatim>\<open>field_number << 3 | wire_type\<close>.\<close>

function read_fields :: "string \<Rightarrow> (nat \<times> wire_value) list option" where
  "read_fields cs =
     (if cs = [] then Some []
      else case read_varint cs of
             None \<Rightarrow> None
           | Some (key, rest) \<Rightarrow>
               (case read_value (key mod 8) rest of
                  None \<Rightarrow> None
                | Some (v, rest') \<Rightarrow> map_option (Cons (key div 8, v)) (read_fields rest')))"
  by pat_completeness auto

termination read_fields
  by (relation "measure length") (auto dest!: read_varint_shorter read_value_shorter)

declare read_fields.simps [simp del]

fun write_varint :: "nat \<Rightarrow> string" where
  "write_varint n = (if n < 128 then [char_of n] else char_of (128 + n mod 128) # write_varint (n div 128))"

declare write_varint.simps [simp del]

fun write_field :: "nat \<times> wire_value \<Rightarrow> string" where
  "write_field (k, VarInt n) = write_varint (8 * k) @ write_varint n"
| "write_field (k, LenBytes bs) = write_varint (8 * k + 2) @ write_varint (length bs) @ bs"

definition write_fields :: "(nat \<times> wire_value) list \<Rightarrow> string" where
  "write_fields fs = concat (map write_field fs)"

lemma read_write_varint [simp]: "read_varint (write_varint n @ rest) = Some (n, rest)"
proof (induction n arbitrary: rest rule: write_varint.induct)
  case (1 n)
  show ?case
  proof (cases "n < 128")
    case True
    then show ?thesis
      by (simp add: write_varint.simps [of n])
  next
    case False
    have low: "128 + n mod 128 < (256 :: nat)"
      using mod_less_divisor [of 128 n] by linarith
    have byte: "of_char (char_of (128 + n mod 128)) = (128 + n mod 128 :: nat)"
      using low by simp
    have step: "read_varint (write_varint (n div 128) @ rest) = Some (n div 128, rest)"
      by (rule "1.IH" [OF False])
    have split: "n mod 128 + 128 * (n div 128) = n"
      by simp
    show ?thesis
      by (subst write_varint.simps) (simp del: of_char_of add: False byte step split Let_def)
  qed
qed

lemma write_varint_not_Nil [simp]: "write_varint n \<noteq> []"
  by (simp add: write_varint.simps)

lemma read_write_field:
  "read_fields (write_field f @ rest) = map_option (Cons f) (read_fields rest)"
proof (cases f rule: write_field.cases)
  case (1 k n)
  then show ?thesis
    by (simp add: read_fields.simps [of "write_varint _ @ _"] read_value_def)
next
  case (2 k bs)
  have "(8 * k + 2) mod 8 = 2" "(8 * k + 2) div 8 = k"
    by presburger+
  with 2 show ?thesis
    by (simp add: read_fields.simps [of "write_varint _ @ _"] read_value_def)
qed

lemma read_write_fields [simp]: "read_fields (write_fields fs) = Some fs"
proof (induction fs)
  case Nil
  show ?case
    by (simp add: write_fields_def read_fields.simps)
next
  case (Cons f fs)
  then show ?case
    by (simp add: write_fields_def read_write_field)
qed

section \<open>File descriptors\<close>

text \<open>The parts of \<^verbatim>\<open>FieldDescriptorProto\<close>, \<^verbatim>\<open>DescriptorProto\<close> and \<^verbatim>\<open>FileDescriptorProto\<close> that the
  generated files set. An absent string is empty and an absent number is 0.\<close>

record field_desc =
  fd_name :: string
  fd_number :: nat
  fd_label :: nat
  fd_type :: nat
  fd_type_name :: string
  fd_json_name :: string

record message_desc =
  md_name :: string
  md_fields :: "field_desc list"

record file_desc =
  file_name :: string
  file_package :: string
  file_dependency :: "string list"
  file_messages :: "message_desc list"
  file_go_package :: string
  file_syntax :: string

fun bytes_at :: "nat \<Rightarrow> (nat \<times> wire_value) list \<Rightarrow> string list" where
  "bytes_at k [] = []"
| "bytes_at k ((k', LenBytes bs) # fs) = (if k' = k then bs # bytes_at k fs else bytes_at k fs)"
| "bytes_at k ((_, VarInt _) # fs) = bytes_at k fs"

fun numbers_at :: "nat \<Rightarrow> (nat \<times> wire_value) list \<Rightarrow> nat list" where
  "numbers_at k [] = []"
| "numbers_at k ((k', VarInt n) # fs) = (if k' = k then n # numbers_at k fs else numbers_at k fs)"
| "numbers_at k ((_, LenBytes _) # fs) = numbers_at k fs"

text \<open>A repeated occurrence of a singular field overrides the earlier ones.\<close>

definition string_at :: "nat \<Rightarrow> (nat \<times> wire_value) list \<Rightarrow> string" where
  "string_at k fs = (if bytes_at k fs = [] then [] else last (bytes_at k fs))"

definition number_at :: "nat \<Rightarrow> (nat \<times> wire_value) list \<Rightarrow> nat" where
  "number_at k fs = (if numbers_at k fs = [] then 0 else last (numbers_at k fs))"

definition read_field_desc :: "string \<Rightarrow> field_desc option" where
  "read_field_desc bs =
     map_option (\<lambda>fs. \<lparr>fd_name = string_at 1 fs, fd_number = number_at 3 fs, fd_label = number_at 4 fs,
                       fd_type = number_at 5 fs, fd_type_name = string_at 6 fs,
                       fd_json_name = string_at 10 fs\<rparr>)
       (read_fields bs)"

definition read_message_desc :: "string \<Rightarrow> message_desc option" where
  "read_message_desc bs =
     (case read_fields bs of
        None \<Rightarrow> None
      | Some fs \<Rightarrow>
          map_option (\<lambda>ds. \<lparr>md_name = string_at 1 fs, md_fields = ds\<rparr>)
            (those (map read_field_desc (bytes_at 2 fs))))"

definition read_file_desc :: "string \<Rightarrow> file_desc option" where
  "read_file_desc bs =
     (case read_fields bs of
        None \<Rightarrow> None
      | Some fs \<Rightarrow>
          (case (those (map read_message_desc (bytes_at 4 fs)), read_fields (string_at 8 fs)) of
             (Some ms, Some opts) \<Rightarrow>
               Some \<lparr>file_name = string_at 1 fs, file_package = string_at 2 fs,
                     file_dependency = bytes_at 3 fs, file_messages = ms,
                     file_go_package = string_at 11 opts, file_syntax = string_at 12 fs\<rparr>
           | _ \<Rightarrow> None))"

text \<open>The name under which the protobuf registry knows a message of a file.\<close>

definition full_name :: "file_desc \<Rightarrow> message_desc \<Rightarrow> string" where
  "full_name f m = file_package f @ ''.'' @ md_name m"

section \<open>Structs and their tags\<close>

text \<open>A field of a generated struct as its source line has it: the Go name, the Go type (a string or
  a pointer to a message, by its protobuf name) and the \<^verbatim>\<open>protobuf\<close> struct tag.\<close>

datatype go_type = GoString | GoMessage string

record struct_field =
  sf_name :: string
  sf_type :: go_type
  sf_tag :: string

text \<open>The tag that says what the descriptor says of the field: strings and messages travel as
  bytes (types 9 and 11), a singular field is label 1, and the JSON name is left out where it is
  the field's own.\<close>

definition tag_of :: "field_desc \<Rightarrow> string" where
  "tag_of d =
     (if fd_type d \<in> {9, 11} \<and> fd_label d = 1 then
        ''bytes,'' @ itoa (int (fd_number d)) @ '',opt,name='' @ fd_name d @
        (if fd_json_name d = fd_name d then [] else '',json='' @ fd_json_name d) @ '',proto3''
      else [])"

definition go_type_of :: "field_desc \<Rightarrow> go_type" where
  "go_type_of d = (if fd_type d = 11 then GoMessage (tl (fd_type_name d)) else GoString)"

text \<open>\<^verbatim>\<open>hold_id\<close> is \<^verbatim>\<open>HoldId\<close> in Go: the first letter and every letter after an underscore go up.\<close>

definition upper :: "char \<Rightarrow> char" where
  "upper c = (if 97 \<le> (of_char c :: nat) \<and> (of_char c :: nat) \<le> 122 then char_of (of_char c - 32 :: nat) else c)"

fun camel :: "string \<Rightarrow> string" where
  "camel [] = []"
| "camel [c] = [c]"
| "camel (c # d # cs) = (if c = CHR 0x5F then upper d # camel cs else c # camel (d # cs))"

definition go_name :: "field_desc \<Rightarrow> string" where
  "go_name d = camel (CHR 0x5F # fd_name d)"

definition struct_field_of :: "field_desc \<Rightarrow> struct_field" where
  "struct_field_of d = \<lparr>sf_name = go_name d, sf_type = go_type_of d, sf_tag = tag_of d\<rparr>"

section \<open>Generated methods\<close>

text \<open>
  A pointer to an entry of a generated file's \<^verbatim>\<open>msgTypes\<close>: the file and the index. An object is the
  message's fields with the \<^verbatim>\<open>state\<close> beside them, in which the runtime keeps such a pointer once the
  object has been reflected on; \<^verbatim>\<open>unknownFields\<close> and \<^verbatim>\<open>sizeCache\<close> belong to the runtime alone.
\<close>

datatype message_info = MessageInfo (mi_file: string) (mi_index: nat)

record 'a pb_object =
  pb_state :: "message_info option"
  pb_value :: 'a

datatype pb_panic = NilDereference

text \<open>\<^verbatim>\<open>GetX\<close>: the field, or the zero value through a nil pointer.\<close>

definition pb_get :: "('a \<Rightarrow> 'b) \<Rightarrow> 'b \<Rightarrow> 'a pb_object option \<Rightarrow> 'b" where
  "pb_get field zero x = (case x of Some ob \<Rightarrow> field (pb_value ob) | None \<Rightarrow> zero)"

text \<open>\<^verbatim>\<open>Reset\<close>: assigning through a nil pointer panics; otherwise the fields are cleared and the
  state points at the type's info.\<close>

definition pb_Reset :: "message_info \<Rightarrow> 'a \<Rightarrow> 'a pb_object option \<Rightarrow> pb_panic + 'a pb_object" where
  "pb_Reset mi zero x =
     (case x of
        None \<Rightarrow> Inl NilDereference
      | Some ob \<Rightarrow> (let ob = \<lparr>pb_state = None, pb_value = zero\<rparr> in Inr (ob\<lparr>pb_state := Some mi\<rparr>)))"

text \<open>\<^verbatim>\<open>ProtoReflect\<close>: the reflected message (the info that interprets it, and the fields, none for a
  nil pointer) and the object, whose state is filled in on the first call.\<close>

definition pb_ProtoReflect ::
    "message_info \<Rightarrow> 'a pb_object option \<Rightarrow> (message_info \<times> 'a option) \<times> 'a pb_object option" where
  "pb_ProtoReflect mi x =
     (case x of
        Some ob \<Rightarrow>
          (let ob = (case pb_state ob of None \<Rightarrow> ob\<lparr>pb_state := Some mi\<rparr> | Some _ \<Rightarrow> ob)
           in ((the (pb_state ob), Some (pb_value ob)), Some ob))
      | None \<Rightarrow> ((mi, None), None))"

text \<open>An object that only the methods of its own type have touched.\<close>

definition pb_ok :: "message_info \<Rightarrow> 'a pb_object \<Rightarrow> bool" where
  "pb_ok mi ob \<longleftrightarrow> pb_state ob = None \<or> pb_state ob = Some mi"

text \<open>The contract of a generated message type, and what follows from it for every type.\<close>

locale generated_type =
  fixes info :: message_info
    and zero :: 'a
    and reset :: "'a pb_object option \<Rightarrow> pb_panic + 'a pb_object"
    and reflect :: "'a pb_object option \<Rightarrow> (message_info \<times> 'a option) \<times> 'a pb_object option"
  assumes reset_law: "reset x = (if x = None then Inl NilDereference
                                 else Inr \<lparr>pb_state = Some info, pb_value = zero\<rparr>)"
    and reflect_nil: "reflect None = ((info, None), None)"
    and reflect_object: "pb_ok info ob \<Longrightarrow>
      reflect (Some ob) = ((info, Some (pb_value ob)), Some (ob\<lparr>pb_state := Some info\<rparr>))"
begin

lemma reset_ok: "reset x = Inr ob \<Longrightarrow> pb_ok info ob \<and> pb_value ob = zero"
  by (auto simp: reset_law pb_ok_def split: if_splits)

lemma reflect_ok: "pb_ok info ob \<Longrightarrow> reflect (Some ob) = (m, Some ob') \<Longrightarrow> pb_ok info ob' \<and> pb_value ob' = pb_value ob"
  by (auto simp: reflect_object pb_ok_def)

lemma reflect_info: "pred_option (pb_ok info) x \<Longrightarrow> fst (fst (reflect x)) = info"
  by (cases x) (simp_all add: reflect_nil reflect_object)

lemma reflect_again:
  "pred_option (pb_ok info) x \<Longrightarrow> reflect (snd (reflect x)) = reflect x"
proof (cases x)
  case (Some ob)
  moreover assume "pred_option (pb_ok info) x"
  moreover have "pb_ok info (ob\<lparr>pb_state := Some info\<rparr>)"
    by (simp add: pb_ok_def)
  ultimately show ?thesis
    by (simp add: reflect_object)
qed (simp add: reflect_nil)

end

lemma generated_methods: "generated_type mi zero (pb_Reset mi zero) (pb_ProtoReflect mi)"
  by unfold_locales
     (auto simp: pb_Reset_def pb_ProtoReflect_def pb_ok_def Let_def split: option.splits)

section \<open>Generated files\<close>

text \<open>What \<^verbatim>\<open>init\<close> hands to \<^verbatim>\<open>protoimpl.TypeBuilder\<close>. An entry of \<^verbatim>\<open>GoTypes\<close> is the protobuf name of
  the Go type it points at; \<^verbatim>\<open>MessageInfos\<close> is the length of the slice.\<close>

record type_builder =
  tb_GoPackagePath :: string
  tb_RawDescriptor :: string
  tb_NumEnums :: nat
  tb_NumMessages :: nat
  tb_NumExtensions :: nat
  tb_NumServices :: nat
  tb_GoTypes :: "string list"
  tb_DependencyIndexes :: "int list"
  tb_MessageInfos :: nat

text \<open>The package variables of a generated file.\<close>

record 'f pb_vars =
  pv_File :: "'f option"
  pv_rawDescOnce :: bool
  pv_rawDescData :: string
  pv_goTypes :: "string list"
  pv_depIdxs :: "int list"

definition pb_vars0 :: "string list \<Rightarrow> int list \<Rightarrow> 'f pb_vars" where
  "pb_vars0 goTypes depIdxs =
     \<lparr>pv_File = None, pv_rawDescOnce = False, pv_rawDescData = [], pv_goTypes = goTypes,
      pv_depIdxs = depIdxs\<rparr>"

definition file_init ::
    "(type_builder \<Rightarrow> 'f) \<Rightarrow> (string list \<Rightarrow> int list \<Rightarrow> type_builder) \<Rightarrow> 'f pb_vars \<Rightarrow> 'f pb_vars" where
  "file_init build builder v =
     (if pv_File v \<noteq> None then v
      else v\<lparr>pv_File := Some (build (builder (pv_goTypes v) (pv_depIdxs v))),
             pv_goTypes := [], pv_depIdxs := []\<rparr>)"

text \<open>\<^verbatim>\<open>rawDescGZIP\<close>: \<^verbatim>\<open>sync.Once\<close> compresses the descriptor on the first call.\<close>

definition rawDescGZIP :: "(string \<Rightarrow> string) \<Rightarrow> string \<Rightarrow> 'f pb_vars \<Rightarrow> string \<times> 'f pb_vars" where
  "rawDescGZIP gzip rawDesc v =
     (let v = (if pv_rawDescOnce v then v
               else v\<lparr>pv_rawDescOnce := True, pv_rawDescData := gzip rawDesc\<rparr>)
      in (pv_rawDescData v, v))"

lemma file_init_once: "file_init build builder (file_init build builder v) = file_init build builder v"
  by (simp add: file_init_def)

text \<open>The documented layout of \<^verbatim>\<open>DependencyIndexes\<close>: five sub-lists of indexes into \<^verbatim>\<open>GoTypes\<close> (field
  types, extendees, extension types, method inputs, method outputs), then where each starts, the
  last sub-list first.\<close>

definition dep_start :: "int list \<Rightarrow> nat \<Rightarrow> nat" where
  "dep_start xs i = nat (rev xs ! i)"

definition dep_list :: "int list \<Rightarrow> nat \<Rightarrow> nat list" where
  "dep_list xs i =
     (let stop = (if i < 4 then dep_start xs (i + 1) else length xs - 5)
      in map nat (drop (dep_start xs i) (take stop xs)))"

text \<open>
  A builder is consistent with the struct it is for when its raw descriptor reads as one proto3
  file holding that one message, every field of the struct is the one the descriptor declares, the
  counts are the descriptor's, and the indexes resolve each message-typed field to the Go type of
  the name the descriptor gives.
\<close>

definition type_names :: "message_desc \<Rightarrow> string list" where
  "type_names m = map fd_type_name (filter (\<lambda>d. fd_type d = 11) (md_fields m))"

definition builder_ok :: "string \<Rightarrow> struct_field list \<Rightarrow> type_builder \<Rightarrow> bool" where
  "builder_ok name sfs b \<longleftrightarrow>
     (case read_file_desc (tb_RawDescriptor b) of
        None \<Rightarrow> False
      | Some f \<Rightarrow>
          length (file_messages f) = 1 \<and> tb_NumMessages b = 1 \<and> tb_MessageInfos b = 1 \<and>
          tb_NumEnums b = 0 \<and> tb_NumExtensions b = 0 \<and> tb_NumServices b = 0 \<and>
          file_syntax f = ''proto3'' \<and>
          file_go_package f = tb_GoPackagePath b @ '';inventoryv1'' \<and>
          (let m = hd (file_messages f) in
             full_name f m = name \<and>
             map struct_field_of (md_fields m) = sfs \<and>
             map fd_number (md_fields m) = [1..<length sfs + 1] \<and>
             tb_GoTypes b ! 0 = full_name f m \<and>
             list_all (\<lambda>i. i < length (tb_GoTypes b)) (dep_list (tb_DependencyIndexes b) 0) \<and>
             map (\<lambda>i. ''.'' @ tb_GoTypes b ! i) (dep_list (tb_DependencyIndexes b) 0) = type_names m \<and>
             list_all (\<lambda>i. dep_list (tb_DependencyIndexes b) i = []) [1, 2, 3, 4]))"

end
