(* ===== verification/Generated.thy ===== *)
theory Generated
  imports Protobuf
begin

text \<open>
  The six generated files of \<^verbatim>\<open>contracts/sagaflow/inventory/v1\<close>, in the same order of declarations
  each: the struct with its tags, \<^verbatim>\<open>Reset\<close>, \<^verbatim>\<open>ProtoReflect\<close>, \<^verbatim>\<open>Descriptor\<close>, the getters, the raw
  descriptor byte for byte, the tables of Go types and dependency indexes and the package
  initialisation. The generated methods are the operations of theory Protobuf at the file's own
  constants, so each message type is an interpretation of \<open>generated_type\<close>.

  The closing lemmas show that the six descriptors say what the structs say, that the names they
  declare are those that \<open>FullName\<close> gives, and that a nil message reads as the empty one.
\<close>

text \<open>\<^verbatim>\<open>reflect.TypeOf(x{}).PkgPath()\<close> in this package.\<close>

definition GoPackagePath :: string where
  "GoPackagePath = ''github.com/AymanKastali/sagaflow/contracts/sagaflow/inventory/v1''"

section \<open>\<^verbatim>\<open>hold_seat.pb.go\<close>\<close>

definition HoldSeat_struct :: "struct_field list" where
  "HoldSeat_struct =
     [\<lparr>sf_name = ''HoldId'', sf_type = GoString,
       sf_tag = ''bytes,1,opt,name=hold_id,json=holdId,proto3''\<rparr>,
      \<lparr>sf_name = ''BookingId'', sf_type = GoString,
       sf_tag = ''bytes,2,opt,name=booking_id,json=bookingId,proto3''\<rparr>,
      \<lparr>sf_name = ''SeatId'', sf_type = GoString,
       sf_tag = ''bytes,3,opt,name=seat_id,json=seatId,proto3''\<rparr>,
      \<lparr>sf_name = ''ExpiresAt'', sf_type = GoMessage ''google.protobuf.Timestamp'',
       sf_tag = ''bytes,4,opt,name=expires_at,json=expiresAt,proto3''\<rparr>]"

definition HoldSeat_zero :: HoldSeat where
  "HoldSeat_zero = \<lparr>hs_HoldId = [], hs_BookingId = [], hs_SeatId = [], hs_ExpiresAt = None\<rparr>"

definition HoldSeat_info :: message_info where
  "HoldSeat_info = MessageInfo ''hold_seat'' 0"

definition HoldSeat_Reset :: "HoldSeat pb_object option \<Rightarrow> pb_panic + HoldSeat pb_object" where
  "HoldSeat_Reset = pb_Reset HoldSeat_info HoldSeat_zero"

definition HoldSeat_ProtoReflect ::
    "HoldSeat pb_object option \<Rightarrow> (message_info \<times> HoldSeat option) \<times> HoldSeat pb_object option" where
  "HoldSeat_ProtoReflect = pb_ProtoReflect HoldSeat_info"

interpretation hold_seat: generated_type HoldSeat_info HoldSeat_zero HoldSeat_Reset HoldSeat_ProtoReflect
  unfolding HoldSeat_Reset_def HoldSeat_ProtoReflect_def by (rule generated_methods)

definition HoldSeat_GetHoldId :: "HoldSeat pb_object option \<Rightarrow> string" where
  "HoldSeat_GetHoldId = pb_get hs_HoldId []"

definition HoldSeat_GetBookingId :: "HoldSeat pb_object option \<Rightarrow> string" where
  "HoldSeat_GetBookingId = pb_get hs_BookingId []"

definition HoldSeat_GetSeatId :: "HoldSeat pb_object option \<Rightarrow> string" where
  "HoldSeat_GetSeatId = pb_get hs_SeatId []"

definition HoldSeat_GetExpiresAt :: "HoldSeat pb_object option \<Rightarrow> timestamp option" where
  "HoldSeat_GetExpiresAt = pb_get hs_ExpiresAt None"

definition hold_seat_rawDesc :: string where
  "hold_seat_rawDesc =
     [CHR 0x0A] @
     ''%sagaflow/inventory/v1/hold_seat.proto'' @ [CHR 0x12, CHR 0x15] @
     ''sagaflow.inventory.v1'' @ [CHR 0x1A, CHR 0x1F] @ ''google/protobuf/timestamp.proto'' @
     [CHR 0x22, CHR 0x96, CHR 0x01, CHR 0x0A] @
     [CHR 0x08] @ ''HoldSeat'' @ [CHR 0x12, CHR 0x17, CHR 0x0A] @
     [CHR 0x07] @ ''hold_id'' @ [CHR 0x18, CHR 0x01] @ '' '' @ [CHR 0x01] @ ''('' @
     [CHR 0x09] @ ''R'' @ [CHR 0x06] @ ''holdId'' @ [CHR 0x12, CHR 0x1D, CHR 0x0A] @
     [CHR 0x0A] @
     ''booking_id'' @ [CHR 0x18, CHR 0x02] @ '' '' @ [CHR 0x01] @ ''('' @ [CHR 0x09] @ ''R'' @
     [CHR 0x09] @ ''bookingId'' @ [CHR 0x12, CHR 0x17, CHR 0x0A] @
     [CHR 0x07] @ ''seat_id'' @ [CHR 0x18, CHR 0x03] @ '' '' @ [CHR 0x01] @ ''('' @
     [CHR 0x09] @ ''R'' @ [CHR 0x06] @ ''seatId'' @ [CHR 0x12] @ ''9'' @ [CHR 0x0A] @
     [CHR 0x0A] @
     ''expires_at'' @ [CHR 0x18, CHR 0x04] @ '' '' @ [CHR 0x01] @ ''('' @ [CHR 0x0B] @ ''2'' @
     [CHR 0x1A] @ ''.google.protobuf.TimestampR'' @ [CHR 0x09] @ ''expiresAtB'' @
     [CHR 0xEE, CHR 0x01, CHR 0x0A] @
     [CHR 0x19] @ ''com.sagaflow.inventory.v1B'' @ [CHR 0x0D] @ ''HoldSeatProtoP'' @
     [CHR 0x01] @
     ''ZLgithub.com/AymanKastali/sagaflow/contracts/sagaflow/inventory/v1;inventoryv1'' @
     [CHR 0xA2, CHR 0x02, CHR 0x03] @ ''SIX'' @ [CHR 0xAA, CHR 0x02, CHR 0x15] @
     ''Sagaflow.Inventory.V1'' @ [CHR 0xCA, CHR 0x02, CHR 0x15] @ ''Sagaflow'' @ [CHR 0x5C] @
     ''Inventory'' @ [CHR 0x5C] @ ''V1'' @ [CHR 0xE2, CHR 0x02] @ ''!Sagaflow'' @ [CHR 0x5C] @
     ''Inventory'' @ [CHR 0x5C] @ ''V1'' @ [CHR 0x5C] @ ''GPBMetadata'' @
     [CHR 0xEA, CHR 0x02, CHR 0x17] @ ''Sagaflow::Inventory::V1b'' @ [CHR 0x06] @ ''proto3''"

definition hold_seat_goTypes :: "string list" where
  "hold_seat_goTypes = [''sagaflow.inventory.v1.HoldSeat'', ''google.protobuf.Timestamp'']"

definition hold_seat_depIdxs :: "int list" where
  "hold_seat_depIdxs = [1, 1, 1, 1, 1, 0]"

definition hold_seat_vars :: "'f pb_vars" where
  "hold_seat_vars = pb_vars0 hold_seat_goTypes hold_seat_depIdxs"

definition hold_seat_rawDescGZIP :: "(string \<Rightarrow> string) \<Rightarrow> 'f pb_vars \<Rightarrow> string \<times> 'f pb_vars" where
  "hold_seat_rawDescGZIP gzip = rawDescGZIP gzip hold_seat_rawDesc"

definition HoldSeat_Descriptor :: "(string \<Rightarrow> string) \<Rightarrow> 'f pb_vars \<Rightarrow> (string \<times> int list) \<times> 'f pb_vars" where
  "HoldSeat_Descriptor gzip v = (let (d, v) = hold_seat_rawDescGZIP gzip v in ((d, [0]), v))"

definition hold_seat_builder :: "string list \<Rightarrow> int list \<Rightarrow> type_builder" where
  "hold_seat_builder goTypes depIdxs =
     \<lparr>tb_GoPackagePath = GoPackagePath, tb_RawDescriptor = hold_seat_rawDesc, tb_NumEnums = 0,
      tb_NumMessages = 1, tb_NumExtensions = 0, tb_NumServices = 0, tb_GoTypes = goTypes,
      tb_DependencyIndexes = depIdxs, tb_MessageInfos = 1\<rparr>"

definition hold_seat_init :: "(type_builder \<Rightarrow> 'f) \<Rightarrow> 'f pb_vars \<Rightarrow> 'f pb_vars" where
  "hold_seat_init build = file_init build hold_seat_builder"

section \<open>\<^verbatim>\<open>release_seat_hold.pb.go\<close>\<close>

definition ReleaseSeatHold_struct :: "struct_field list" where
  "ReleaseSeatHold_struct =
     [\<lparr>sf_name = ''HoldId'', sf_type = GoString,
       sf_tag = ''bytes,1,opt,name=hold_id,json=holdId,proto3''\<rparr>,
      \<lparr>sf_name = ''BookingId'', sf_type = GoString,
       sf_tag = ''bytes,2,opt,name=booking_id,json=bookingId,proto3''\<rparr>,
      \<lparr>sf_name = ''SeatId'', sf_type = GoString,
       sf_tag = ''bytes,3,opt,name=seat_id,json=seatId,proto3''\<rparr>,
      \<lparr>sf_name = ''Reason'', sf_type = GoString,
       sf_tag = ''bytes,4,opt,name=reason,proto3''\<rparr>]"

definition ReleaseSeatHold_zero :: ReleaseSeatHold where
  "ReleaseSeatHold_zero = \<lparr>rs_HoldId = [], rs_BookingId = [], rs_SeatId = [], rs_Reason = []\<rparr>"

definition ReleaseSeatHold_info :: message_info where
  "ReleaseSeatHold_info = MessageInfo ''release_seat_hold'' 0"

definition ReleaseSeatHold_Reset :: "ReleaseSeatHold pb_object option \<Rightarrow> pb_panic + ReleaseSeatHold pb_object" where
  "ReleaseSeatHold_Reset = pb_Reset ReleaseSeatHold_info ReleaseSeatHold_zero"

definition ReleaseSeatHold_ProtoReflect ::
    "ReleaseSeatHold pb_object option \<Rightarrow> (message_info \<times> ReleaseSeatHold option) \<times> ReleaseSeatHold pb_object option" where
  "ReleaseSeatHold_ProtoReflect = pb_ProtoReflect ReleaseSeatHold_info"

interpretation release_seat_hold: generated_type ReleaseSeatHold_info ReleaseSeatHold_zero ReleaseSeatHold_Reset ReleaseSeatHold_ProtoReflect
  unfolding ReleaseSeatHold_Reset_def ReleaseSeatHold_ProtoReflect_def by (rule generated_methods)

definition ReleaseSeatHold_GetHoldId :: "ReleaseSeatHold pb_object option \<Rightarrow> string" where
  "ReleaseSeatHold_GetHoldId = pb_get rs_HoldId []"

definition ReleaseSeatHold_GetBookingId :: "ReleaseSeatHold pb_object option \<Rightarrow> string" where
  "ReleaseSeatHold_GetBookingId = pb_get rs_BookingId []"

definition ReleaseSeatHold_GetSeatId :: "ReleaseSeatHold pb_object option \<Rightarrow> string" where
  "ReleaseSeatHold_GetSeatId = pb_get rs_SeatId []"

definition ReleaseSeatHold_GetReason :: "ReleaseSeatHold pb_object option \<Rightarrow> string" where
  "ReleaseSeatHold_GetReason = pb_get rs_Reason []"

definition release_seat_hold_rawDesc :: string where
  "release_seat_hold_rawDesc =
     [CHR 0x0A] @
     ''-sagaflow/inventory/v1/release_seat_hold.proto'' @ [CHR 0x12, CHR 0x15] @
     ''sagaflow.inventory.v1'' @ [CHR 0x22] @ ''z'' @ [CHR 0x0A] @
     [CHR 0x0F] @ ''ReleaseSeatHold'' @ [CHR 0x12, CHR 0x17, CHR 0x0A] @
     [CHR 0x07] @ ''hold_id'' @ [CHR 0x18, CHR 0x01] @ '' '' @ [CHR 0x01] @ ''('' @
     [CHR 0x09] @ ''R'' @ [CHR 0x06] @ ''holdId'' @ [CHR 0x12, CHR 0x1D, CHR 0x0A] @
     [CHR 0x0A] @
     ''booking_id'' @ [CHR 0x18, CHR 0x02] @ '' '' @ [CHR 0x01] @ ''('' @ [CHR 0x09] @ ''R'' @
     [CHR 0x09] @ ''bookingId'' @ [CHR 0x12, CHR 0x17, CHR 0x0A] @
     [CHR 0x07] @ ''seat_id'' @ [CHR 0x18, CHR 0x03] @ '' '' @ [CHR 0x01] @ ''('' @
     [CHR 0x09] @ ''R'' @ [CHR 0x06] @ ''seatId'' @ [CHR 0x12, CHR 0x16, CHR 0x0A] @
     [CHR 0x06] @ ''reason'' @ [CHR 0x18, CHR 0x04] @ '' '' @ [CHR 0x01] @ ''('' @ [CHR 0x09] @
     ''R'' @ [CHR 0x06] @ ''reasonB'' @ [CHR 0xF5, CHR 0x01, CHR 0x0A] @
     [CHR 0x19] @ ''com.sagaflow.inventory.v1B'' @ [CHR 0x14] @ ''ReleaseSeatHoldProtoP'' @
     [CHR 0x01] @
     ''ZLgithub.com/AymanKastali/sagaflow/contracts/sagaflow/inventory/v1;inventoryv1'' @
     [CHR 0xA2, CHR 0x02, CHR 0x03] @ ''SIX'' @ [CHR 0xAA, CHR 0x02, CHR 0x15] @
     ''Sagaflow.Inventory.V1'' @ [CHR 0xCA, CHR 0x02, CHR 0x15] @ ''Sagaflow'' @ [CHR 0x5C] @
     ''Inventory'' @ [CHR 0x5C] @ ''V1'' @ [CHR 0xE2, CHR 0x02] @ ''!Sagaflow'' @ [CHR 0x5C] @
     ''Inventory'' @ [CHR 0x5C] @ ''V1'' @ [CHR 0x5C] @ ''GPBMetadata'' @
     [CHR 0xEA, CHR 0x02, CHR 0x17] @ ''Sagaflow::Inventory::V1b'' @ [CHR 0x06] @ ''proto3''"

definition release_seat_hold_goTypes :: "string list" where
  "release_seat_hold_goTypes = [''sagaflow.inventory.v1.ReleaseSeatHold'']"

definition release_seat_hold_depIdxs :: "int list" where
  "release_seat_hold_depIdxs = [0, 0, 0, 0, 0]"

definition release_seat_hold_vars :: "'f pb_vars" where
  "release_seat_hold_vars = pb_vars0 release_seat_hold_goTypes release_seat_hold_depIdxs"

definition release_seat_hold_rawDescGZIP :: "(string \<Rightarrow> string) \<Rightarrow> 'f pb_vars \<Rightarrow> string \<times> 'f pb_vars" where
  "release_seat_hold_rawDescGZIP gzip = rawDescGZIP gzip release_seat_hold_rawDesc"

definition ReleaseSeatHold_Descriptor :: "(string \<Rightarrow> string) \<Rightarrow> 'f pb_vars \<Rightarrow> (string \<times> int list) \<times> 'f pb_vars" where
  "ReleaseSeatHold_Descriptor gzip v = (let (d, v) = release_seat_hold_rawDescGZIP gzip v in ((d, [0]), v))"

definition release_seat_hold_builder :: "string list \<Rightarrow> int list \<Rightarrow> type_builder" where
  "release_seat_hold_builder goTypes depIdxs =
     \<lparr>tb_GoPackagePath = GoPackagePath, tb_RawDescriptor = release_seat_hold_rawDesc, tb_NumEnums = 0,
      tb_NumMessages = 1, tb_NumExtensions = 0, tb_NumServices = 0, tb_GoTypes = goTypes,
      tb_DependencyIndexes = depIdxs, tb_MessageInfos = 1\<rparr>"

definition release_seat_hold_init :: "(type_builder \<Rightarrow> 'f) \<Rightarrow> 'f pb_vars \<Rightarrow> 'f pb_vars" where
  "release_seat_hold_init build = file_init build release_seat_hold_builder"

section \<open>\<^verbatim>\<open>seat_held.pb.go\<close>\<close>

definition SeatHeld_struct :: "struct_field list" where
  "SeatHeld_struct =
     [\<lparr>sf_name = ''HoldId'', sf_type = GoString,
       sf_tag = ''bytes,1,opt,name=hold_id,json=holdId,proto3''\<rparr>,
      \<lparr>sf_name = ''BookingId'', sf_type = GoString,
       sf_tag = ''bytes,2,opt,name=booking_id,json=bookingId,proto3''\<rparr>,
      \<lparr>sf_name = ''SeatId'', sf_type = GoString,
       sf_tag = ''bytes,3,opt,name=seat_id,json=seatId,proto3''\<rparr>,
      \<lparr>sf_name = ''ExpiresAt'', sf_type = GoMessage ''google.protobuf.Timestamp'',
       sf_tag = ''bytes,4,opt,name=expires_at,json=expiresAt,proto3''\<rparr>]"

definition SeatHeld_zero :: SeatHeld where
  "SeatHeld_zero = \<lparr>sh_HoldId = [], sh_BookingId = [], sh_SeatId = [], sh_ExpiresAt = None\<rparr>"

definition SeatHeld_info :: message_info where
  "SeatHeld_info = MessageInfo ''seat_held'' 0"

definition SeatHeld_Reset :: "SeatHeld pb_object option \<Rightarrow> pb_panic + SeatHeld pb_object" where
  "SeatHeld_Reset = pb_Reset SeatHeld_info SeatHeld_zero"

definition SeatHeld_ProtoReflect ::
    "SeatHeld pb_object option \<Rightarrow> (message_info \<times> SeatHeld option) \<times> SeatHeld pb_object option" where
  "SeatHeld_ProtoReflect = pb_ProtoReflect SeatHeld_info"

interpretation seat_held: generated_type SeatHeld_info SeatHeld_zero SeatHeld_Reset SeatHeld_ProtoReflect
  unfolding SeatHeld_Reset_def SeatHeld_ProtoReflect_def by (rule generated_methods)

definition SeatHeld_GetHoldId :: "SeatHeld pb_object option \<Rightarrow> string" where
  "SeatHeld_GetHoldId = pb_get sh_HoldId []"

definition SeatHeld_GetBookingId :: "SeatHeld pb_object option \<Rightarrow> string" where
  "SeatHeld_GetBookingId = pb_get sh_BookingId []"

definition SeatHeld_GetSeatId :: "SeatHeld pb_object option \<Rightarrow> string" where
  "SeatHeld_GetSeatId = pb_get sh_SeatId []"

definition SeatHeld_GetExpiresAt :: "SeatHeld pb_object option \<Rightarrow> timestamp option" where
  "SeatHeld_GetExpiresAt = pb_get sh_ExpiresAt None"

definition seat_held_rawDesc :: string where
  "seat_held_rawDesc =
     [CHR 0x0A] @
     ''%sagaflow/inventory/v1/seat_held.proto'' @ [CHR 0x12, CHR 0x15] @
     ''sagaflow.inventory.v1'' @ [CHR 0x1A, CHR 0x1F] @ ''google/protobuf/timestamp.proto'' @
     [CHR 0x22, CHR 0x96, CHR 0x01, CHR 0x0A] @
     [CHR 0x08] @ ''SeatHeld'' @ [CHR 0x12, CHR 0x17, CHR 0x0A] @
     [CHR 0x07] @ ''hold_id'' @ [CHR 0x18, CHR 0x01] @ '' '' @ [CHR 0x01] @ ''('' @
     [CHR 0x09] @ ''R'' @ [CHR 0x06] @ ''holdId'' @ [CHR 0x12, CHR 0x1D, CHR 0x0A] @
     [CHR 0x0A] @
     ''booking_id'' @ [CHR 0x18, CHR 0x02] @ '' '' @ [CHR 0x01] @ ''('' @ [CHR 0x09] @ ''R'' @
     [CHR 0x09] @ ''bookingId'' @ [CHR 0x12, CHR 0x17, CHR 0x0A] @
     [CHR 0x07] @ ''seat_id'' @ [CHR 0x18, CHR 0x03] @ '' '' @ [CHR 0x01] @ ''('' @
     [CHR 0x09] @ ''R'' @ [CHR 0x06] @ ''seatId'' @ [CHR 0x12] @ ''9'' @ [CHR 0x0A] @
     [CHR 0x0A] @
     ''expires_at'' @ [CHR 0x18, CHR 0x04] @ '' '' @ [CHR 0x01] @ ''('' @ [CHR 0x0B] @ ''2'' @
     [CHR 0x1A] @ ''.google.protobuf.TimestampR'' @ [CHR 0x09] @ ''expiresAtB'' @
     [CHR 0xEE, CHR 0x01, CHR 0x0A] @
     [CHR 0x19] @ ''com.sagaflow.inventory.v1B'' @ [CHR 0x0D] @ ''SeatHeldProtoP'' @
     [CHR 0x01] @
     ''ZLgithub.com/AymanKastali/sagaflow/contracts/sagaflow/inventory/v1;inventoryv1'' @
     [CHR 0xA2, CHR 0x02, CHR 0x03] @ ''SIX'' @ [CHR 0xAA, CHR 0x02, CHR 0x15] @
     ''Sagaflow.Inventory.V1'' @ [CHR 0xCA, CHR 0x02, CHR 0x15] @ ''Sagaflow'' @ [CHR 0x5C] @
     ''Inventory'' @ [CHR 0x5C] @ ''V1'' @ [CHR 0xE2, CHR 0x02] @ ''!Sagaflow'' @ [CHR 0x5C] @
     ''Inventory'' @ [CHR 0x5C] @ ''V1'' @ [CHR 0x5C] @ ''GPBMetadata'' @
     [CHR 0xEA, CHR 0x02, CHR 0x17] @ ''Sagaflow::Inventory::V1b'' @ [CHR 0x06] @ ''proto3''"

definition seat_held_goTypes :: "string list" where
  "seat_held_goTypes = [''sagaflow.inventory.v1.SeatHeld'', ''google.protobuf.Timestamp'']"

definition seat_held_depIdxs :: "int list" where
  "seat_held_depIdxs = [1, 1, 1, 1, 1, 0]"

definition seat_held_vars :: "'f pb_vars" where
  "seat_held_vars = pb_vars0 seat_held_goTypes seat_held_depIdxs"

definition seat_held_rawDescGZIP :: "(string \<Rightarrow> string) \<Rightarrow> 'f pb_vars \<Rightarrow> string \<times> 'f pb_vars" where
  "seat_held_rawDescGZIP gzip = rawDescGZIP gzip seat_held_rawDesc"

definition SeatHeld_Descriptor :: "(string \<Rightarrow> string) \<Rightarrow> 'f pb_vars \<Rightarrow> (string \<times> int list) \<times> 'f pb_vars" where
  "SeatHeld_Descriptor gzip v = (let (d, v) = seat_held_rawDescGZIP gzip v in ((d, [0]), v))"

definition seat_held_builder :: "string list \<Rightarrow> int list \<Rightarrow> type_builder" where
  "seat_held_builder goTypes depIdxs =
     \<lparr>tb_GoPackagePath = GoPackagePath, tb_RawDescriptor = seat_held_rawDesc, tb_NumEnums = 0,
      tb_NumMessages = 1, tb_NumExtensions = 0, tb_NumServices = 0, tb_GoTypes = goTypes,
      tb_DependencyIndexes = depIdxs, tb_MessageInfos = 1\<rparr>"

definition seat_held_init :: "(type_builder \<Rightarrow> 'f) \<Rightarrow> 'f pb_vars \<Rightarrow> 'f pb_vars" where
  "seat_held_init build = file_init build seat_held_builder"

section \<open>\<^verbatim>\<open>seat_hold_released.pb.go\<close>\<close>

definition SeatHoldReleased_struct :: "struct_field list" where
  "SeatHoldReleased_struct =
     [\<lparr>sf_name = ''HoldId'', sf_type = GoString,
       sf_tag = ''bytes,1,opt,name=hold_id,json=holdId,proto3''\<rparr>,
      \<lparr>sf_name = ''BookingId'', sf_type = GoString,
       sf_tag = ''bytes,2,opt,name=booking_id,json=bookingId,proto3''\<rparr>,
      \<lparr>sf_name = ''SeatId'', sf_type = GoString,
       sf_tag = ''bytes,3,opt,name=seat_id,json=seatId,proto3''\<rparr>,
      \<lparr>sf_name = ''Reason'', sf_type = GoString,
       sf_tag = ''bytes,4,opt,name=reason,proto3''\<rparr>]"

definition SeatHoldReleased_zero :: SeatHoldReleased where
  "SeatHoldReleased_zero = \<lparr>sr_HoldId = [], sr_BookingId = [], sr_SeatId = [], sr_Reason = []\<rparr>"

definition SeatHoldReleased_info :: message_info where
  "SeatHoldReleased_info = MessageInfo ''seat_hold_released'' 0"

definition SeatHoldReleased_Reset :: "SeatHoldReleased pb_object option \<Rightarrow> pb_panic + SeatHoldReleased pb_object" where
  "SeatHoldReleased_Reset = pb_Reset SeatHoldReleased_info SeatHoldReleased_zero"

definition SeatHoldReleased_ProtoReflect ::
    "SeatHoldReleased pb_object option \<Rightarrow> (message_info \<times> SeatHoldReleased option) \<times> SeatHoldReleased pb_object option" where
  "SeatHoldReleased_ProtoReflect = pb_ProtoReflect SeatHoldReleased_info"

interpretation seat_hold_released: generated_type SeatHoldReleased_info SeatHoldReleased_zero SeatHoldReleased_Reset SeatHoldReleased_ProtoReflect
  unfolding SeatHoldReleased_Reset_def SeatHoldReleased_ProtoReflect_def by (rule generated_methods)

definition SeatHoldReleased_GetHoldId :: "SeatHoldReleased pb_object option \<Rightarrow> string" where
  "SeatHoldReleased_GetHoldId = pb_get sr_HoldId []"

definition SeatHoldReleased_GetBookingId :: "SeatHoldReleased pb_object option \<Rightarrow> string" where
  "SeatHoldReleased_GetBookingId = pb_get sr_BookingId []"

definition SeatHoldReleased_GetSeatId :: "SeatHoldReleased pb_object option \<Rightarrow> string" where
  "SeatHoldReleased_GetSeatId = pb_get sr_SeatId []"

definition SeatHoldReleased_GetReason :: "SeatHoldReleased pb_object option \<Rightarrow> string" where
  "SeatHoldReleased_GetReason = pb_get sr_Reason []"

definition seat_hold_released_rawDesc :: string where
  "seat_hold_released_rawDesc =
     [CHR 0x0A] @
     ''.sagaflow/inventory/v1/seat_hold_released.proto'' @ [CHR 0x12, CHR 0x15] @
     ''sagaflow.inventory.v1'' @ [CHR 0x22] @ ''{'' @ [CHR 0x0A] @
     [CHR 0x10] @ ''SeatHoldReleased'' @ [CHR 0x12, CHR 0x17, CHR 0x0A] @
     [CHR 0x07] @ ''hold_id'' @ [CHR 0x18, CHR 0x01] @ '' '' @ [CHR 0x01] @ ''('' @
     [CHR 0x09] @ ''R'' @ [CHR 0x06] @ ''holdId'' @ [CHR 0x12, CHR 0x1D, CHR 0x0A] @
     [CHR 0x0A] @
     ''booking_id'' @ [CHR 0x18, CHR 0x02] @ '' '' @ [CHR 0x01] @ ''('' @ [CHR 0x09] @ ''R'' @
     [CHR 0x09] @ ''bookingId'' @ [CHR 0x12, CHR 0x17, CHR 0x0A] @
     [CHR 0x07] @ ''seat_id'' @ [CHR 0x18, CHR 0x03] @ '' '' @ [CHR 0x01] @ ''('' @
     [CHR 0x09] @ ''R'' @ [CHR 0x06] @ ''seatId'' @ [CHR 0x12, CHR 0x16, CHR 0x0A] @
     [CHR 0x06] @ ''reason'' @ [CHR 0x18, CHR 0x04] @ '' '' @ [CHR 0x01] @ ''('' @ [CHR 0x09] @
     ''R'' @ [CHR 0x06] @ ''reasonB'' @ [CHR 0xF6, CHR 0x01, CHR 0x0A] @
     [CHR 0x19] @ ''com.sagaflow.inventory.v1B'' @ [CHR 0x15] @ ''SeatHoldReleasedProtoP'' @
     [CHR 0x01] @
     ''ZLgithub.com/AymanKastali/sagaflow/contracts/sagaflow/inventory/v1;inventoryv1'' @
     [CHR 0xA2, CHR 0x02, CHR 0x03] @ ''SIX'' @ [CHR 0xAA, CHR 0x02, CHR 0x15] @
     ''Sagaflow.Inventory.V1'' @ [CHR 0xCA, CHR 0x02, CHR 0x15] @ ''Sagaflow'' @ [CHR 0x5C] @
     ''Inventory'' @ [CHR 0x5C] @ ''V1'' @ [CHR 0xE2, CHR 0x02] @ ''!Sagaflow'' @ [CHR 0x5C] @
     ''Inventory'' @ [CHR 0x5C] @ ''V1'' @ [CHR 0x5C] @ ''GPBMetadata'' @
     [CHR 0xEA, CHR 0x02, CHR 0x17] @ ''Sagaflow::Inventory::V1b'' @ [CHR 0x06] @ ''proto3''"

definition seat_hold_released_goTypes :: "string list" where
  "seat_hold_released_goTypes = [''sagaflow.inventory.v1.SeatHoldReleased'']"

definition seat_hold_released_depIdxs :: "int list" where
  "seat_hold_released_depIdxs = [0, 0, 0, 0, 0]"

definition seat_hold_released_vars :: "'f pb_vars" where
  "seat_hold_released_vars = pb_vars0 seat_hold_released_goTypes seat_hold_released_depIdxs"

definition seat_hold_released_rawDescGZIP :: "(string \<Rightarrow> string) \<Rightarrow> 'f pb_vars \<Rightarrow> string \<times> 'f pb_vars" where
  "seat_hold_released_rawDescGZIP gzip = rawDescGZIP gzip seat_hold_released_rawDesc"

definition SeatHoldReleased_Descriptor :: "(string \<Rightarrow> string) \<Rightarrow> 'f pb_vars \<Rightarrow> (string \<times> int list) \<times> 'f pb_vars" where
  "SeatHoldReleased_Descriptor gzip v = (let (d, v) = seat_hold_released_rawDescGZIP gzip v in ((d, [0]), v))"

definition seat_hold_released_builder :: "string list \<Rightarrow> int list \<Rightarrow> type_builder" where
  "seat_hold_released_builder goTypes depIdxs =
     \<lparr>tb_GoPackagePath = GoPackagePath, tb_RawDescriptor = seat_hold_released_rawDesc, tb_NumEnums = 0,
      tb_NumMessages = 1, tb_NumExtensions = 0, tb_NumServices = 0, tb_GoTypes = goTypes,
      tb_DependencyIndexes = depIdxs, tb_MessageInfos = 1\<rparr>"

definition seat_hold_released_init :: "(type_builder \<Rightarrow> 'f) \<Rightarrow> 'f pb_vars \<Rightarrow> 'f pb_vars" where
  "seat_hold_released_init build = file_init build seat_hold_released_builder"

section \<open>\<^verbatim>\<open>seat_hold_expired.pb.go\<close>\<close>

definition SeatHoldExpired_struct :: "struct_field list" where
  "SeatHoldExpired_struct =
     [\<lparr>sf_name = ''HoldId'', sf_type = GoString,
       sf_tag = ''bytes,1,opt,name=hold_id,json=holdId,proto3''\<rparr>,
      \<lparr>sf_name = ''BookingId'', sf_type = GoString,
       sf_tag = ''bytes,2,opt,name=booking_id,json=bookingId,proto3''\<rparr>,
      \<lparr>sf_name = ''SeatId'', sf_type = GoString,
       sf_tag = ''bytes,3,opt,name=seat_id,json=seatId,proto3''\<rparr>]"

definition SeatHoldExpired_zero :: SeatHoldExpired where
  "SeatHoldExpired_zero = \<lparr>se_HoldId = [], se_BookingId = [], se_SeatId = []\<rparr>"

definition SeatHoldExpired_info :: message_info where
  "SeatHoldExpired_info = MessageInfo ''seat_hold_expired'' 0"

definition SeatHoldExpired_Reset :: "SeatHoldExpired pb_object option \<Rightarrow> pb_panic + SeatHoldExpired pb_object" where
  "SeatHoldExpired_Reset = pb_Reset SeatHoldExpired_info SeatHoldExpired_zero"

definition SeatHoldExpired_ProtoReflect ::
    "SeatHoldExpired pb_object option \<Rightarrow> (message_info \<times> SeatHoldExpired option) \<times> SeatHoldExpired pb_object option" where
  "SeatHoldExpired_ProtoReflect = pb_ProtoReflect SeatHoldExpired_info"

interpretation seat_hold_expired: generated_type SeatHoldExpired_info SeatHoldExpired_zero SeatHoldExpired_Reset SeatHoldExpired_ProtoReflect
  unfolding SeatHoldExpired_Reset_def SeatHoldExpired_ProtoReflect_def by (rule generated_methods)

definition SeatHoldExpired_GetHoldId :: "SeatHoldExpired pb_object option \<Rightarrow> string" where
  "SeatHoldExpired_GetHoldId = pb_get se_HoldId []"

definition SeatHoldExpired_GetBookingId :: "SeatHoldExpired pb_object option \<Rightarrow> string" where
  "SeatHoldExpired_GetBookingId = pb_get se_BookingId []"

definition SeatHoldExpired_GetSeatId :: "SeatHoldExpired pb_object option \<Rightarrow> string" where
  "SeatHoldExpired_GetSeatId = pb_get se_SeatId []"

definition seat_hold_expired_rawDesc :: string where
  "seat_hold_expired_rawDesc =
     [CHR 0x0A] @
     ''-sagaflow/inventory/v1/seat_hold_expired.proto'' @ [CHR 0x12, CHR 0x15] @
     ''sagaflow.inventory.v1'' @ [CHR 0x22] @ ''b'' @ [CHR 0x0A] @
     [CHR 0x0F] @ ''SeatHoldExpired'' @ [CHR 0x12, CHR 0x17, CHR 0x0A] @
     [CHR 0x07] @ ''hold_id'' @ [CHR 0x18, CHR 0x01] @ '' '' @ [CHR 0x01] @ ''('' @
     [CHR 0x09] @ ''R'' @ [CHR 0x06] @ ''holdId'' @ [CHR 0x12, CHR 0x1D, CHR 0x0A] @
     [CHR 0x0A] @
     ''booking_id'' @ [CHR 0x18, CHR 0x02] @ '' '' @ [CHR 0x01] @ ''('' @ [CHR 0x09] @ ''R'' @
     [CHR 0x09] @ ''bookingId'' @ [CHR 0x12, CHR 0x17, CHR 0x0A] @
     [CHR 0x07] @ ''seat_id'' @ [CHR 0x18, CHR 0x03] @ '' '' @ [CHR 0x01] @ ''('' @
     [CHR 0x09] @ ''R'' @ [CHR 0x06] @ ''seatIdB'' @ [CHR 0xF5, CHR 0x01, CHR 0x0A] @
     [CHR 0x19] @ ''com.sagaflow.inventory.v1B'' @ [CHR 0x14] @ ''SeatHoldExpiredProtoP'' @
     [CHR 0x01] @
     ''ZLgithub.com/AymanKastali/sagaflow/contracts/sagaflow/inventory/v1;inventoryv1'' @
     [CHR 0xA2, CHR 0x02, CHR 0x03] @ ''SIX'' @ [CHR 0xAA, CHR 0x02, CHR 0x15] @
     ''Sagaflow.Inventory.V1'' @ [CHR 0xCA, CHR 0x02, CHR 0x15] @ ''Sagaflow'' @ [CHR 0x5C] @
     ''Inventory'' @ [CHR 0x5C] @ ''V1'' @ [CHR 0xE2, CHR 0x02] @ ''!Sagaflow'' @ [CHR 0x5C] @
     ''Inventory'' @ [CHR 0x5C] @ ''V1'' @ [CHR 0x5C] @ ''GPBMetadata'' @
     [CHR 0xEA, CHR 0x02, CHR 0x17] @ ''Sagaflow::Inventory::V1b'' @ [CHR 0x06] @ ''proto3''"

definition seat_hold_expired_goTypes :: "string list" where
  "seat_hold_expired_goTypes = [''sagaflow.inventory.v1.SeatHoldExpired'']"

definition seat_hold_expired_depIdxs :: "int list" where
  "seat_hold_expired_depIdxs = [0, 0, 0, 0, 0]"

definition seat_hold_expired_vars :: "'f pb_vars" where
  "seat_hold_expired_vars = pb_vars0 seat_hold_expired_goTypes seat_hold_expired_depIdxs"

definition seat_hold_expired_rawDescGZIP :: "(string \<Rightarrow> string) \<Rightarrow> 'f pb_vars \<Rightarrow> string \<times> 'f pb_vars" where
  "seat_hold_expired_rawDescGZIP gzip = rawDescGZIP gzip seat_hold_expired_rawDesc"

definition SeatHoldExpired_Descriptor :: "(string \<Rightarrow> string) \<Rightarrow> 'f pb_vars \<Rightarrow> (string \<times> int list) \<times> 'f pb_vars" where
  "SeatHoldExpired_Descriptor gzip v = (let (d, v) = seat_hold_expired_rawDescGZIP gzip v in ((d, [0]), v))"

definition seat_hold_expired_builder :: "string list \<Rightarrow> int list \<Rightarrow> type_builder" where
  "seat_hold_expired_builder goTypes depIdxs =
     \<lparr>tb_GoPackagePath = GoPackagePath, tb_RawDescriptor = seat_hold_expired_rawDesc, tb_NumEnums = 0,
      tb_NumMessages = 1, tb_NumExtensions = 0, tb_NumServices = 0, tb_GoTypes = goTypes,
      tb_DependencyIndexes = depIdxs, tb_MessageInfos = 1\<rparr>"

definition seat_hold_expired_init :: "(type_builder \<Rightarrow> 'f) \<Rightarrow> 'f pb_vars \<Rightarrow> 'f pb_vars" where
  "seat_hold_expired_init build = file_init build seat_hold_expired_builder"

section \<open>\<^verbatim>\<open>seat_unavailable.pb.go\<close>\<close>

definition SeatUnavailable_struct :: "struct_field list" where
  "SeatUnavailable_struct =
     [\<lparr>sf_name = ''HoldId'', sf_type = GoString,
       sf_tag = ''bytes,1,opt,name=hold_id,json=holdId,proto3''\<rparr>,
      \<lparr>sf_name = ''BookingId'', sf_type = GoString,
       sf_tag = ''bytes,2,opt,name=booking_id,json=bookingId,proto3''\<rparr>,
      \<lparr>sf_name = ''SeatId'', sf_type = GoString,
       sf_tag = ''bytes,3,opt,name=seat_id,json=seatId,proto3''\<rparr>,
      \<lparr>sf_name = ''Reason'', sf_type = GoString,
       sf_tag = ''bytes,4,opt,name=reason,proto3''\<rparr>]"

definition SeatUnavailable_zero :: SeatUnavailable where
  "SeatUnavailable_zero = \<lparr>su_HoldId = [], su_BookingId = [], su_SeatId = [], su_Reason = []\<rparr>"

definition SeatUnavailable_info :: message_info where
  "SeatUnavailable_info = MessageInfo ''seat_unavailable'' 0"

definition SeatUnavailable_Reset :: "SeatUnavailable pb_object option \<Rightarrow> pb_panic + SeatUnavailable pb_object" where
  "SeatUnavailable_Reset = pb_Reset SeatUnavailable_info SeatUnavailable_zero"

definition SeatUnavailable_ProtoReflect ::
    "SeatUnavailable pb_object option \<Rightarrow> (message_info \<times> SeatUnavailable option) \<times> SeatUnavailable pb_object option" where
  "SeatUnavailable_ProtoReflect = pb_ProtoReflect SeatUnavailable_info"

interpretation seat_unavailable: generated_type SeatUnavailable_info SeatUnavailable_zero SeatUnavailable_Reset SeatUnavailable_ProtoReflect
  unfolding SeatUnavailable_Reset_def SeatUnavailable_ProtoReflect_def by (rule generated_methods)

definition SeatUnavailable_GetHoldId :: "SeatUnavailable pb_object option \<Rightarrow> string" where
  "SeatUnavailable_GetHoldId = pb_get su_HoldId []"

definition SeatUnavailable_GetBookingId :: "SeatUnavailable pb_object option \<Rightarrow> string" where
  "SeatUnavailable_GetBookingId = pb_get su_BookingId []"

definition SeatUnavailable_GetSeatId :: "SeatUnavailable pb_object option \<Rightarrow> string" where
  "SeatUnavailable_GetSeatId = pb_get su_SeatId []"

definition SeatUnavailable_GetReason :: "SeatUnavailable pb_object option \<Rightarrow> string" where
  "SeatUnavailable_GetReason = pb_get su_Reason []"

definition seat_unavailable_rawDesc :: string where
  "seat_unavailable_rawDesc =
     [CHR 0x0A] @
     '',sagaflow/inventory/v1/seat_unavailable.proto'' @ [CHR 0x12, CHR 0x15] @
     ''sagaflow.inventory.v1'' @ [CHR 0x22] @ ''z'' @ [CHR 0x0A] @
     [CHR 0x0F] @ ''SeatUnavailable'' @ [CHR 0x12, CHR 0x17, CHR 0x0A] @
     [CHR 0x07] @ ''hold_id'' @ [CHR 0x18, CHR 0x01] @ '' '' @ [CHR 0x01] @ ''('' @
     [CHR 0x09] @ ''R'' @ [CHR 0x06] @ ''holdId'' @ [CHR 0x12, CHR 0x1D, CHR 0x0A] @
     [CHR 0x0A] @
     ''booking_id'' @ [CHR 0x18, CHR 0x02] @ '' '' @ [CHR 0x01] @ ''('' @ [CHR 0x09] @ ''R'' @
     [CHR 0x09] @ ''bookingId'' @ [CHR 0x12, CHR 0x17, CHR 0x0A] @
     [CHR 0x07] @ ''seat_id'' @ [CHR 0x18, CHR 0x03] @ '' '' @ [CHR 0x01] @ ''('' @
     [CHR 0x09] @ ''R'' @ [CHR 0x06] @ ''seatId'' @ [CHR 0x12, CHR 0x16, CHR 0x0A] @
     [CHR 0x06] @ ''reason'' @ [CHR 0x18, CHR 0x04] @ '' '' @ [CHR 0x01] @ ''('' @ [CHR 0x09] @
     ''R'' @ [CHR 0x06] @ ''reasonB'' @ [CHR 0xF5, CHR 0x01, CHR 0x0A] @
     [CHR 0x19] @ ''com.sagaflow.inventory.v1B'' @ [CHR 0x14] @ ''SeatUnavailableProtoP'' @
     [CHR 0x01] @
     ''ZLgithub.com/AymanKastali/sagaflow/contracts/sagaflow/inventory/v1;inventoryv1'' @
     [CHR 0xA2, CHR 0x02, CHR 0x03] @ ''SIX'' @ [CHR 0xAA, CHR 0x02, CHR 0x15] @
     ''Sagaflow.Inventory.V1'' @ [CHR 0xCA, CHR 0x02, CHR 0x15] @ ''Sagaflow'' @ [CHR 0x5C] @
     ''Inventory'' @ [CHR 0x5C] @ ''V1'' @ [CHR 0xE2, CHR 0x02] @ ''!Sagaflow'' @ [CHR 0x5C] @
     ''Inventory'' @ [CHR 0x5C] @ ''V1'' @ [CHR 0x5C] @ ''GPBMetadata'' @
     [CHR 0xEA, CHR 0x02, CHR 0x17] @ ''Sagaflow::Inventory::V1b'' @ [CHR 0x06] @ ''proto3''"

definition seat_unavailable_goTypes :: "string list" where
  "seat_unavailable_goTypes = [''sagaflow.inventory.v1.SeatUnavailable'']"

definition seat_unavailable_depIdxs :: "int list" where
  "seat_unavailable_depIdxs = [0, 0, 0, 0, 0]"

definition seat_unavailable_vars :: "'f pb_vars" where
  "seat_unavailable_vars = pb_vars0 seat_unavailable_goTypes seat_unavailable_depIdxs"

definition seat_unavailable_rawDescGZIP :: "(string \<Rightarrow> string) \<Rightarrow> 'f pb_vars \<Rightarrow> string \<times> 'f pb_vars" where
  "seat_unavailable_rawDescGZIP gzip = rawDescGZIP gzip seat_unavailable_rawDesc"

definition SeatUnavailable_Descriptor :: "(string \<Rightarrow> string) \<Rightarrow> 'f pb_vars \<Rightarrow> (string \<times> int list) \<times> 'f pb_vars" where
  "SeatUnavailable_Descriptor gzip v = (let (d, v) = seat_unavailable_rawDescGZIP gzip v in ((d, [0]), v))"

definition seat_unavailable_builder :: "string list \<Rightarrow> int list \<Rightarrow> type_builder" where
  "seat_unavailable_builder goTypes depIdxs =
     \<lparr>tb_GoPackagePath = GoPackagePath, tb_RawDescriptor = seat_unavailable_rawDesc, tb_NumEnums = 0,
      tb_NumMessages = 1, tb_NumExtensions = 0, tb_NumServices = 0, tb_GoTypes = goTypes,
      tb_DependencyIndexes = depIdxs, tb_MessageInfos = 1\<rparr>"

definition seat_unavailable_init :: "(type_builder \<Rightarrow> 'f) \<Rightarrow> 'f pb_vars \<Rightarrow> 'f pb_vars" where
  "seat_unavailable_init build = file_init build seat_unavailable_builder"

section \<open>The descriptors and the structs agree\<close>

lemma hold_seat_builder_ok:
  "builder_ok (FullName new_HoldSeat) HoldSeat_struct (hold_seat_builder hold_seat_goTypes hold_seat_depIdxs)"
  by code_simp

lemma release_seat_hold_builder_ok:
  "builder_ok (FullName new_ReleaseSeatHold) ReleaseSeatHold_struct (release_seat_hold_builder release_seat_hold_goTypes release_seat_hold_depIdxs)"
  by code_simp

lemma seat_held_builder_ok:
  "builder_ok (FullName new_SeatHeld) SeatHeld_struct (seat_held_builder seat_held_goTypes seat_held_depIdxs)"
  by code_simp

lemma seat_hold_released_builder_ok:
  "builder_ok (FullName new_SeatHoldReleased) SeatHoldReleased_struct (seat_hold_released_builder seat_hold_released_goTypes seat_hold_released_depIdxs)"
  by code_simp

lemma seat_hold_expired_builder_ok:
  "builder_ok (FullName new_SeatHoldExpired) SeatHoldExpired_struct (seat_hold_expired_builder seat_hold_expired_goTypes seat_hold_expired_depIdxs)"
  by code_simp

lemma seat_unavailable_builder_ok:
  "builder_ok (FullName new_SeatUnavailable) SeatUnavailable_struct (seat_unavailable_builder seat_unavailable_goTypes seat_unavailable_depIdxs)"
  by code_simp

lemmas builders_ok = hold_seat_builder_ok release_seat_hold_builder_ok seat_held_builder_ok
  seat_hold_released_builder_ok seat_hold_expired_builder_ok seat_unavailable_builder_ok

lemmas init_defs = hold_seat_init_def release_seat_hold_init_def seat_held_init_def
  seat_hold_released_init_def seat_hold_expired_init_def seat_unavailable_init_def

lemmas vars_defs = hold_seat_vars_def release_seat_hold_vars_def seat_held_vars_def
  seat_hold_released_vars_def seat_hold_expired_vars_def seat_unavailable_vars_def

text \<open>The file a package has registered, if it was built by \<^verbatim>\<open>build\<close> from a builder that is consistent
  with the struct.\<close>

definition registers :: "string \<Rightarrow> struct_field list \<Rightarrow> (type_builder \<Rightarrow> 'f) \<Rightarrow> 'f pb_vars \<Rightarrow> bool" where
  "registers name sfs build v \<longleftrightarrow> (\<exists>b. pv_File v = Some (build b) \<and> builder_ok name sfs b)"

lemma init_registers:
  "builder_ok name sfs (builder goTypes depIdxs) \<Longrightarrow>
   registers name sfs build (file_init build builder (pb_vars0 goTypes depIdxs))"
  by (auto simp: registers_def file_init_def pb_vars0_def)

lemmas getter_defs = pb_get_def HoldSeat_GetHoldId_def HoldSeat_GetBookingId_def
  HoldSeat_GetSeatId_def HoldSeat_GetExpiresAt_def ReleaseSeatHold_GetHoldId_def
  ReleaseSeatHold_GetBookingId_def ReleaseSeatHold_GetSeatId_def ReleaseSeatHold_GetReason_def
  SeatHeld_GetHoldId_def SeatHeld_GetBookingId_def SeatHeld_GetSeatId_def
  SeatHeld_GetExpiresAt_def SeatHoldReleased_GetHoldId_def SeatHoldReleased_GetBookingId_def
  SeatHoldReleased_GetSeatId_def SeatHoldReleased_GetReason_def SeatHoldExpired_GetHoldId_def
  SeatHoldExpired_GetBookingId_def SeatHoldExpired_GetSeatId_def SeatUnavailable_GetHoldId_def
  SeatUnavailable_GetBookingId_def SeatUnavailable_GetSeatId_def SeatUnavailable_GetReason_def

lemmas zero_defs = HoldSeat_zero_def ReleaseSeatHold_zero_def SeatHeld_zero_def
  SeatHoldReleased_zero_def SeatHoldExpired_zero_def SeatUnavailable_zero_def

text \<open>The zero values are those of theory Contracts.\<close>

lemma new_messages_zero:
  "new_HoldSeat = HoldSeatMsg HoldSeat_zero"
  "new_ReleaseSeatHold = ReleaseSeatHoldMsg ReleaseSeatHold_zero"
  "new_SeatHeld = SeatHeldMsg SeatHeld_zero"
  "new_SeatHoldReleased = SeatHoldReleasedMsg SeatHoldReleased_zero"
  "new_SeatHoldExpired = SeatHoldExpiredMsg SeatHoldExpired_zero"
  "new_SeatUnavailable = SeatUnavailableMsg SeatUnavailable_zero"
  by (simp_all add: new_messages zero_defs)

text \<open>A nil message reads as the empty one, so a getter never tells a missing message from an
  empty one.\<close>

lemma hold_seat_nil_reads_empty:
  "HoldSeat_GetHoldId None = hs_HoldId HoldSeat_zero"
  "HoldSeat_GetBookingId None = hs_BookingId HoldSeat_zero"
  "HoldSeat_GetSeatId None = hs_SeatId HoldSeat_zero"
  "HoldSeat_GetExpiresAt None = hs_ExpiresAt HoldSeat_zero"
  by (simp_all add: getter_defs zero_defs)

lemma release_seat_hold_nil_reads_empty:
  "ReleaseSeatHold_GetHoldId None = rs_HoldId ReleaseSeatHold_zero"
  "ReleaseSeatHold_GetBookingId None = rs_BookingId ReleaseSeatHold_zero"
  "ReleaseSeatHold_GetSeatId None = rs_SeatId ReleaseSeatHold_zero"
  "ReleaseSeatHold_GetReason None = rs_Reason ReleaseSeatHold_zero"
  by (simp_all add: getter_defs zero_defs)

lemma seat_held_nil_reads_empty:
  "SeatHeld_GetHoldId None = sh_HoldId SeatHeld_zero"
  "SeatHeld_GetBookingId None = sh_BookingId SeatHeld_zero"
  "SeatHeld_GetSeatId None = sh_SeatId SeatHeld_zero"
  "SeatHeld_GetExpiresAt None = sh_ExpiresAt SeatHeld_zero"
  by (simp_all add: getter_defs zero_defs)

lemma seat_hold_released_nil_reads_empty:
  "SeatHoldReleased_GetHoldId None = sr_HoldId SeatHoldReleased_zero"
  "SeatHoldReleased_GetBookingId None = sr_BookingId SeatHoldReleased_zero"
  "SeatHoldReleased_GetSeatId None = sr_SeatId SeatHoldReleased_zero"
  "SeatHoldReleased_GetReason None = sr_Reason SeatHoldReleased_zero"
  by (simp_all add: getter_defs zero_defs)

lemma seat_hold_expired_nil_reads_empty:
  "SeatHoldExpired_GetHoldId None = se_HoldId SeatHoldExpired_zero"
  "SeatHoldExpired_GetBookingId None = se_BookingId SeatHoldExpired_zero"
  "SeatHoldExpired_GetSeatId None = se_SeatId SeatHoldExpired_zero"
  by (simp_all add: getter_defs zero_defs)

lemma seat_unavailable_nil_reads_empty:
  "SeatUnavailable_GetHoldId None = su_HoldId SeatUnavailable_zero"
  "SeatUnavailable_GetBookingId None = su_BookingId SeatUnavailable_zero"
  "SeatUnavailable_GetSeatId None = su_SeatId SeatUnavailable_zero"
  "SeatUnavailable_GetReason None = su_Reason SeatUnavailable_zero"
  by (simp_all add: getter_defs zero_defs)

text \<open>
  Every generated contract is what its descriptor says. At program start the
  initialisation of each of the six files registers the file built from a builder whose raw
  descriptor, read byte by byte in the wire format, is one proto3 file with one message, of the full
  name under which that message type is written to Kafka and to the events table; the struct has
  exactly the fields, Go types and tags that the descriptor declares, numbered 1, 2, 3 and so on;
  and the dependency indexes resolve each message-typed field to the Go type of the declared name.\<close>

theorem descriptors_match_structs:
  "registers (FullName new_HoldSeat) HoldSeat_struct build (hold_seat_init build hold_seat_vars) \<and>
   registers (FullName new_ReleaseSeatHold) ReleaseSeatHold_struct build (release_seat_hold_init build release_seat_hold_vars) \<and>
   registers (FullName new_SeatHeld) SeatHeld_struct build (seat_held_init build seat_held_vars) \<and>
   registers (FullName new_SeatHoldReleased) SeatHoldReleased_struct build (seat_hold_released_init build seat_hold_released_vars) \<and>
   registers (FullName new_SeatHoldExpired) SeatHoldExpired_struct build (seat_hold_expired_init build seat_hold_expired_vars) \<and>
   registers (FullName new_SeatUnavailable) SeatUnavailable_struct build (seat_unavailable_init build seat_unavailable_vars)"
  unfolding init_defs vars_defs
  by (intro conjI init_registers builders_ok)

end
