(* ===== verification/TestContainers.thy ===== *)
theory TestContainers
  imports Prelude
begin

text \<open>
  The packages the integration tests stand on: \<^verbatim>\<open>internal/testsupport/pgtest\<close>, \<^verbatim>\<open>kafkatest\<close> and
  \<^verbatim>\<open>srtest\<close>. Each brings up one container per test package and hands it to the tests.

  testcontainers-go is third-party: what each call on a container answers is a parameter. Starting a
  container may fail with the container already created, which is what \<open>RunFailed\<close> records, and
  terminating one may fail with or without the container being gone (\<open>TermFailed\<close>); the packages drop
  that error when \<^verbatim>\<open>Start\<close> gives up and print it to standard error when \<^verbatim>\<open>stop\<close> meets it. A test is
  stopped by \<^verbatim>\<open>t.Fatal\<close> (\<open>Inl\<close>, with its text) and its cleanups run in any case, last in first out.
  The \<^verbatim>\<open>-short\<close> flag is an argument.
\<close>

datatype container = PostgresCtr | KafkaCtr | RegistryCtr

type_synonym containers = "container lifecycle list"

record container_request =
  cr_image :: string
  cr_ports :: "string list"
  cr_env :: gomap
  cr_cmd :: "string list"
  cr_wait :: string
  cr_deadline :: duration

datatype run_outcome = RunOk | RunFailed error bool

datatype term_outcome = TermOk | TermFailed error bool

definition stays_up :: "term_outcome \<Rightarrow> bool" where
  "stays_up out = (case out of TermOk \<Rightarrow> False | TermFailed err gone \<Rightarrow> \<not> gone)"

text \<open>\<^verbatim>\<open>testcontainers.Run\<close>: the container is there when it succeeds, and may be there when it fails.\<close>

definition run_container :: "container \<Rightarrow> run_outcome \<Rightarrow> containers \<Rightarrow> (error + unit) \<times> containers" where
  "run_container c out tr =
     (case out of
        RunOk \<Rightarrow> (Inr (), tr @ [Acquired c])
      | RunFailed err created \<Rightarrow> (Inl err, if created then tr @ [Acquired c] else tr))"

definition TerminateContainer :: "container \<Rightarrow> term_outcome \<Rightarrow> containers \<Rightarrow> error option \<times> containers" where
  "TerminateContainer c out tr =
     (case out of
        TermOk \<Rightarrow> (None, tr @ [Released c])
      | TermFailed err gone \<Rightarrow> (Some err, if gone then tr @ [Released c] else tr))"

text \<open>What the \<^verbatim>\<open>stop\<close> of a package prints to standard error.\<close>

definition terminate_warning :: "string \<Rightarrow> error option \<Rightarrow> string" where
  "terminate_warning pkg res =
     (case res of None \<Rightarrow> [] | Some err \<Rightarrow> pkg @ '': terminate: '' @ Error err @ [CHR 0x0A])"

text \<open>
  What a package keeps: the value its tests share, if any, and the containers. A panic is \<open>None\<close>.
\<close>

type_synonym 'a package = "'a option \<times> containers"

text \<open>The result of \<^verbatim>\<open>Shared\<close>: the test is skipped, stopped, or gets the shared value.\<close>

datatype 'a shared_result = Skip string | Fatal string | Got 'a

definition em_dash :: string where
  "em_dash = [CHR 0xE2, CHR 0x80, CHR 0x94]"

definition short_skip :: string where
  "short_skip = ''skipping container test in -short mode''"

section \<open>pgtest: the container\<close>

definition pg_Image :: string where
  "pg_Image = ''postgres:18.6''"

record PG =
  pg_baseDSN :: string
  pg_created :: "string set"

definition pg_options :: gomap where
  "pg_options = [(''database'', ''postgres''), (''username'', ''sagaflow''), (''password'', ''sagaflow'')]"

record pg_calls =
  pgc_run :: "string \<Rightarrow> gomap \<Rightarrow> run_outcome"
  pgc_dsn :: "string \<Rightarrow> error + string"
  pgc_terminate :: term_outcome

definition pgtest_Start :: "bool \<Rightarrow> pg_calls \<Rightarrow> PG package \<Rightarrow> (error + unit) \<times> PG package" where
  "pgtest_Start short cs st =
     (if short then (Inr (), st)
      else
        (case run_container PostgresCtr (pgc_run cs pg_Image pg_options) (snd st) of
           (Inl err, tr) \<Rightarrow> (Inl (Errorf (''pgtest: start '' @ pg_Image @ '': '') err []), fst st, tr)
         | (Inr _, tr) \<Rightarrow>
             (case pgc_dsn cs ''sslmode=disable'' of
                Inl err \<Rightarrow>
                  (Inl (Errorf ''pgtest: connection string: '' err []), fst st,
                   snd (TerminateContainer PostgresCtr (pgc_terminate cs) tr))
              | Inr dsn \<Rightarrow> (Inr (), Some \<lparr>pg_baseDSN = dsn, pg_created = {}\<rparr>, tr))))"

definition pgtest_stop :: "bool \<Rightarrow> term_outcome \<Rightarrow> PG package \<Rightarrow> string \<times> PG package" where
  "pgtest_stop short out st =
     (if short then ([], st)
      else
        (case TerminateContainer PostgresCtr out (snd st) of
           (res, tr) \<Rightarrow> (terminate_warning ''pgtest'' res, None, tr)))"

definition pgtest_Shared :: "bool \<Rightarrow> PG package \<Rightarrow> PG shared_result" where
  "pgtest_Shared short st =
     (if short then Skip short_skip
      else
        (case fst st of
           None \<Rightarrow> Fatal (''pgtest: no container running '' @ em_dash
             @ '' this package needs a TestMain that calls pgtest.Start; see the pgtest package doc'')
         | Some p \<Rightarrow> Got p))"

section \<open>kafkatest\<close>

definition kafka_Image :: string where
  "kafka_Image = ''apache/kafka:4.3.1''"

definition startGate :: string where
  "startGate = ''/tmp/sagaflow-advertised-listeners''"

definition gateOpened :: string where
  "gateOpened = ''sagaflow: awaiting advertised listeners''"

definition minute :: duration where
  "minute = 60 * 1000000000"

definition gated_broker :: container_request where
  "gated_broker =
     \<lparr>cr_image = kafka_Image, cr_ports = [''9092/tcp''],
      cr_env =
        [(''KAFKA_NODE_ID'', ''1''), (''KAFKA_PROCESS_ROLES'', ''broker,controller''),
         (''KAFKA_LISTENERS'', ''PLAINTEXT://0.0.0.0:9092,BROKER://0.0.0.0:19092,CONTROLLER://0.0.0.0:9093''),
         (''KAFKA_LISTENER_SECURITY_PROTOCOL_MAP'', ''PLAINTEXT:PLAINTEXT,BROKER:PLAINTEXT,CONTROLLER:PLAINTEXT''),
         (''KAFKA_INTER_BROKER_LISTENER_NAME'', ''BROKER''), (''KAFKA_CONTROLLER_LISTENER_NAMES'', ''CONTROLLER''),
         (''KAFKA_CONTROLLER_QUORUM_VOTERS'', ''1@localhost:9093''),
         (''KAFKA_OFFSETS_TOPIC_REPLICATION_FACTOR'', ''1''),
         (''KAFKA_TRANSACTION_STATE_LOG_REPLICATION_FACTOR'', ''1''),
         (''KAFKA_TRANSACTION_STATE_LOG_MIN_ISR'', ''1''), (''KAFKA_GROUP_INITIAL_REBALANCE_DELAY_MS'', ''0''),
         (''KAFKA_NUM_PARTITIONS'', ''6''), (''KAFKA_AUTO_CREATE_TOPICS_ENABLE'', ''false'')],
      cr_cmd =
        [''/bin/sh'', ''-c'',
         ''echo '' @ [CHR 0x27] @ gateOpened @ [CHR 0x27] @ ''; while [ ! -f '' @ startGate
           @ '' ]; do sleep 0.1; done; export KAFKA_ADVERTISED_LISTENERS='' @ [CHR 0x22] @ ''$(cat '' @ startGate
           @ '')'' @ [CHR 0x22] @ ''; exec /etc/kafka/docker/run''],
      cr_wait = gateOpened, cr_deadline = 2 * minute\<rparr>"

definition runGatedBroker ::
  "(container_request \<Rightarrow> run_outcome) \<Rightarrow> containers \<Rightarrow> (error + unit) \<times> containers" where
  "runGatedBroker docker =
     wrapE (\<lambda>err. Errorf (''kafkatest: start '' @ kafka_Image @ '': '') err [])
       (run_container KafkaCtr (docker gated_broker))"

definition kafka_hostAddress :: "error + string \<Rightarrow> error + string \<Rightarrow> error + string" where
  "kafka_hostAddress host port =
     (case host of
        Inl err \<Rightarrow> Inl (Errorf ''kafkatest: host: '' err [])
      | Inr h \<Rightarrow>
          (case port of
             Inl err \<Rightarrow> Inl (Errorf ''kafkatest: mapped port: '' err [])
           | Inr p \<Rightarrow> Inr (h @ '':'' @ p)))"

definition gate_script :: "string \<Rightarrow> string" where
  "gate_script broker =
     ''printf '' @ [CHR 0x27] @ ''%s'' @ [CHR 0x27] @ '' '' @ [CHR 0x27] @ ''PLAINTEXT://'' @ broker
     @ '',BROKER://localhost:19092'' @ [CHR 0x27] @ '' > '' @ startGate @ ''.tmp && mv '' @ startGate @ ''.tmp ''
     @ startGate"

text \<open>
  What \<^verbatim>\<open>ctr.Exec\<close> answers: the exit code, what its reader gives (a nil reader is \<open>None\<close>) and the error.
  Reading from a nil reader panics.
\<close>

record exec_answer =
  ea_code :: int
  ea_out :: "string option"
  ea_err :: "error option"

definition format_v :: "error option \<Rightarrow> string" where
  "format_v err = (case err of None \<Rightarrow> ''<nil>'' | Some e \<Rightarrow> Error e)"

definition openStartGate :: "(string list \<Rightarrow> exec_answer) \<Rightarrow> string \<Rightarrow> error option option" where
  "openStartGate Exec broker =
     (let a = Exec [''/bin/sh'', ''-c'', gate_script broker] in
      if ea_err a \<noteq> None \<or> ea_code a \<noteq> 0 then
        (case ea_out a of
           None \<Rightarrow> None
         | Some out \<Rightarrow>
             Some (Some (ErrorNew (''kafkatest: open start gate (code '' @ itoa (ea_code a) @ ''): ''
               @ format_v (ea_err a) @ '': '' @ take 4096 out))))
      else Some None)"

text \<open>
  \<open>waitForBroker\<close>'s loop: \<open>ping i\<close> is the answer of the \<open>i\<close>-th ping and how long it took; then it
  sleeps for 250 ms, unless the deadline comes first. When both come at the same time the runtime picks
  (\<open>pick\<close>). Times are nanoseconds since the start; the third component counts the pings.
\<close>

definition ping_pause :: nat where
  "ping_pause = 250 * 1000000"

function ping_loop ::
  "(nat \<Rightarrow> error option \<times> nat) \<Rightarrow> bool \<Rightarrow> string \<Rightarrow> nat \<Rightarrow> nat \<Rightarrow> nat \<Rightarrow> error option \<times> nat \<times> nat" where
  "ping_loop ping pick broker deadline t i =
     (case ping i of
        (None, d) \<Rightarrow> (None, t + d, Suc i)
      | (Some err, d) \<Rightarrow>
          if t + d + ping_pause < deadline \<or> t + d + ping_pause = deadline \<and> pick
          then ping_loop ping pick broker deadline (t + d + ping_pause) (Suc i)
          else
            (Some (Errorf (''kafkatest: broker '' @ broker @ '' never became ready: '') err []),
             max (t + d) deadline, Suc i))"
  by pat_completeness auto
termination
  by (relation "measure (\<lambda>(_, _, _, deadline, t, _). deadline - t)") (auto simp: ping_pause_def)

declare ping_loop.simps [simp del]

definition waitForBroker ::
  "error option \<Rightarrow> (nat \<Rightarrow> error option \<times> nat) \<Rightarrow> bool \<Rightarrow> string \<Rightarrow> nat \<Rightarrow> error option \<times> nat \<times> nat" where
  "waitForBroker client ping pick broker timeout =
     (case client of
        Some err \<Rightarrow> (Some (Errorf (''kafkatest: client for '' @ broker @ '': '') err []), 0, 0)
      | None \<Rightarrow> ping_loop ping pick broker timeout 0 0)"

record kafka_calls =
  kc_docker :: "container_request \<Rightarrow> run_outcome"
  kc_host :: "error + string"
  kc_port :: "error + string"
  kc_exec :: "string list \<Rightarrow> exec_answer"
  kc_client :: "error option"
  kc_ping :: "nat \<Rightarrow> error option \<times> nat"
  kc_pick :: bool
  kc_terminate :: term_outcome

definition ready_timeout :: nat where
  "ready_timeout = 3 * 60 * 1000000000"

text \<open>The \<^verbatim>\<open>Kafka\<close> struct is its list of brokers.\<close>

definition kafkatest_Start ::
  "bool \<Rightarrow> kafka_calls \<Rightarrow> string list package \<Rightarrow> (error + unit) option \<times> string list package" where
  "kafkatest_Start short cs st =
     (if short then (Some (Inr ()), st)
      else
        (case runGatedBroker (kc_docker cs) (snd st) of
           (Inl err, tr) \<Rightarrow> (Some (Inl err), fst st, tr)
         | (Inr _, tr) \<Rightarrow>
             (let abort = (\<lambda>err. (Some (Inl err), fst st, snd (TerminateContainer KafkaCtr (kc_terminate cs) tr))) in
              case kafka_hostAddress (kc_host cs) (kc_port cs) of
                Inl err \<Rightarrow> abort err
              | Inr broker \<Rightarrow>
                  (case openStartGate (kc_exec cs) broker of
                     None \<Rightarrow> (None, fst st, tr)
                   | Some (Some err) \<Rightarrow> abort err
                   | Some None \<Rightarrow>
                       (case waitForBroker (kc_client cs) (kc_ping cs) (kc_pick cs) broker ready_timeout of
                          (Some err, _) \<Rightarrow> abort err
                        | (None, _) \<Rightarrow> (Some (Inr ()), Some [broker], tr))))))"

definition kafkatest_stop :: "bool \<Rightarrow> term_outcome \<Rightarrow> string list package \<Rightarrow> string \<times> string list package" where
  "kafkatest_stop short out st =
     (if short then ([], st)
      else
        (case TerminateContainer KafkaCtr out (snd st) of
           (res, tr) \<Rightarrow> (terminate_warning ''kafkatest'' res, None, tr)))"

definition kafkatest_Shared :: "bool \<Rightarrow> string list package \<Rightarrow> string list shared_result" where
  "kafkatest_Shared short st =
     (if short then Skip short_skip
      else
        (case fst st of
           None \<Rightarrow> Fatal (''kafkatest: no broker running '' @ em_dash
             @ '' this package needs a TestMain that calls kafkatest.Start'')
         | Some k \<Rightarrow> Got k))"

section \<open>srtest\<close>

definition sr_Image :: string where
  "sr_Image = ''apicurio/apicurio-registry:3.3.1''"

definition sr_port :: string where
  "sr_port = ''8080/tcp''"

definition ccompatPath :: string where
  "ccompatPath = ''/apis/ccompat/v7''"

definition registry_request :: container_request where
  "registry_request =
     \<lparr>cr_image = sr_Image, cr_ports = [sr_port],
      cr_env = [(''APICURIO_STORAGE_KIND'', ''sql''), (''APICURIO_STORAGE_SQL_KIND'', ''h2'')], cr_cmd = [],
      cr_wait = ''/apis/registry/v3/system/info'', cr_deadline = 2 * minute\<rparr>"

definition runRegistry :: "(container_request \<Rightarrow> run_outcome) \<Rightarrow> containers \<Rightarrow> (error + unit) \<times> containers" where
  "runRegistry docker =
     wrapE (\<lambda>err. Errorf (''srtest: start '' @ sr_Image @ '': '') err [])
       (run_container RegistryCtr (docker registry_request))"

definition sr_hostAddress :: "error + string \<Rightarrow> error + string \<Rightarrow> error + string" where
  "sr_hostAddress host mapped =
     (case host of
        Inl err \<Rightarrow> Inl (Errorf ''srtest: host: '' err [])
      | Inr h \<Rightarrow>
          (case mapped of
             Inl err \<Rightarrow> Inl (Errorf ''srtest: mapped port: '' err [])
           | Inr p \<Rightarrow> Inr (h @ '':'' @ p)))"

record registry_calls =
  rc_docker :: "container_request \<Rightarrow> run_outcome"
  rc_host :: "error + string"
  rc_port :: "error + string"
  rc_terminate :: term_outcome

text \<open>The \<^verbatim>\<open>Registry\<close> struct is its URL.\<close>

definition srtest_Start :: "bool \<Rightarrow> registry_calls \<Rightarrow> string package \<Rightarrow> (error + unit) \<times> string package" where
  "srtest_Start short cs st =
     (if short then (Inr (), st)
      else
        (case runRegistry (rc_docker cs) (snd st) of
           (Inl err, tr) \<Rightarrow> (Inl err, fst st, tr)
         | (Inr _, tr) \<Rightarrow>
             (case sr_hostAddress (rc_host cs) (rc_port cs) of
                Inl err \<Rightarrow> (Inl err, fst st, snd (TerminateContainer RegistryCtr (rc_terminate cs) tr))
              | Inr addr \<Rightarrow> (Inr (), Some (''http://'' @ addr @ ccompatPath), tr))))"

definition srtest_stop :: "bool \<Rightarrow> term_outcome \<Rightarrow> string package \<Rightarrow> string \<times> string package" where
  "srtest_stop short out st =
     (if short then ([], st)
      else
        (case TerminateContainer RegistryCtr out (snd st) of
           (res, tr) \<Rightarrow> (terminate_warning ''srtest'' res, None, tr)))"

definition srtest_Shared :: "bool \<Rightarrow> string package \<Rightarrow> string shared_result" where
  "srtest_Shared short st =
     (if short then Skip short_skip
      else
        (case fst st of
           None \<Rightarrow> Fatal (''srtest: no registry running '' @ em_dash
             @ '' this package needs a TestMain that calls srtest.Start'')
         | Some r \<Rightarrow> Got r))"

section \<open>One contract\<close>

text \<open>
  What the three packages promise of \<^verbatim>\<open>Start\<close> and its \<^verbatim>\<open>stop\<close>, when the container's own start cannot fail
  half-way and terminating it on the way out removes it (\<open>clean\<close>) and the process does not panic:
  started, the container runs and the shared value is set; failed, nothing runs and nothing is shared;
  stopped, nothing is shared and the container is gone unless terminating it left it there.
\<close>

locale test_container =
  fixes start :: "'c \<Rightarrow> 'a package \<Rightarrow> (error + unit) option \<times> 'a package"
    and stop :: "term_outcome \<Rightarrow> 'a package \<Rightarrow> string \<times> 'a package"
    and clean :: "'c \<Rightarrow> bool"
    and ctr :: container
  assumes started: "start cs (None, tr) = (Some (Inr ()), v, tr') \<Longrightarrow> tr' = tr @ [Acquired ctr] \<and> v \<noteq> None"
    and failed: "start cs (None, tr) = (Some (Inl err), v, tr') \<Longrightarrow> clean cs \<Longrightarrow>
      v = None \<and> (tr' = tr \<or> tr' = tr @ [Acquired ctr, Released ctr])"
    and stopped: "snd (stop out (v, tr)) = (None, if stays_up out then tr else tr @ [Released ctr])"
begin

lemma nothing_left:
  assumes "start cs (None, tr) = (Some r, v, tr')" "clean cs" "ctr \<notin> set (still_open [] tr)"
  shows "(case r of
      Inl _ \<Rightarrow> v = None \<and> still_open [] tr' = still_open [] tr
    | Inr _ \<Rightarrow> v \<noteq> None \<and> still_open [] tr' = still_open [] tr @ [ctr] \<and>
        (\<forall>out. fst (snd (stop out (v, tr'))) = None \<and>
           still_open [] (snd (snd (stop out (v, tr')))) = still_open [] tr @ (if stays_up out then [ctr] else [])))"
proof -
  have one: "still_open [] (tr @ [Acquired ctr, Released ctr]) = still_open [] tr"
    using assms(3) by (simp add: still_open_append remove1_append)
  show ?thesis
  proof (cases r)
    case (Inl err)
    then show ?thesis using failed assms(1,2) one by fastforce
  next
    case (Inr x)
    then have "tr' = tr @ [Acquired ctr] \<and> v \<noteq> None" using started assms(1) by simp
    then show ?thesis using Inr one stopped by (simp add: still_open_append)
  qed
qed

end

definition never_half_started :: "run_outcome \<Rightarrow> bool" where
  "never_half_started out \<longleftrightarrow> (\<forall>err created. out = RunFailed err created \<longrightarrow> \<not> created)"

lemmas container_defs = run_container_def TerminateContainer_def never_half_started_def stays_up_def wrapE_def

definition Start_returns :: "('c \<Rightarrow> 'a package \<Rightarrow> (error + unit) \<times> 'a package) \<Rightarrow> 'c \<Rightarrow> 'a package \<Rightarrow>
    (error + unit) option \<times> 'a package" where
  "Start_returns start cs st = (case start cs st of (r, st') \<Rightarrow> (Some r, st'))"

interpretation pgtest: test_container "Start_returns (pgtest_Start False)" "pgtest_stop False"
  "\<lambda>cs. never_half_started (pgc_run cs pg_Image pg_options) \<and> \<not> stays_up (pgc_terminate cs)" PostgresCtr
  by unfold_locales
    (auto simp: Start_returns_def pgtest_Start_def pgtest_stop_def container_defs
      split: run_outcome.splits term_outcome.splits sum.splits if_splits)

interpretation srtest: test_container "Start_returns (srtest_Start False)" "srtest_stop False"
  "\<lambda>cs. never_half_started (rc_docker cs registry_request) \<and> \<not> stays_up (rc_terminate cs)" RegistryCtr
  by unfold_locales
    (auto simp: Start_returns_def srtest_Start_def srtest_stop_def runRegistry_def container_defs
      split: run_outcome.splits term_outcome.splits sum.splits if_splits)

interpretation kafkatest: test_container "kafkatest_Start False" "kafkatest_stop False"
  "\<lambda>cs. never_half_started (kc_docker cs gated_broker) \<and> \<not> stays_up (kc_terminate cs)" KafkaCtr
  by unfold_locales
    (auto simp: kafkatest_Start_def kafkatest_stop_def runGatedBroker_def container_defs Let_def
      split: run_outcome.splits term_outcome.splits sum.splits if_splits option.splits prod.splits)

section \<open>Waiting for the broker\<close>

lemma ping_loop_bounds:
  assumes "ping_loop ping pick broker until t i = (r, t', n)" "t \<le> until"
  shows "i < n \<and> t + (n - 1 - i) * ping_pause \<le> until \<and> (\<forall>j. i \<le> j \<and> j < n - 1 \<longrightarrow> fst (ping j) \<noteq> None) \<and>
    (r = None \<longleftrightarrow> fst (ping (n - 1)) = None) \<and> (r \<noteq> None \<longrightarrow> until \<le> t')"
  using assms
proof (induction ping pick broker until t i rule: ping_loop.induct)
  case (1 ping pick broker until t i)
  obtain a d where p: "ping i = (a, d)" by (cases "ping i")
  show ?case
  proof (cases "a \<noteq> None \<and> (t + d + ping_pause < until \<or> t + d + ping_pause = until \<and> pick)")
    case True
    then obtain err where a: "a = Some err" by auto
    have rest: "ping_loop ping pick broker until (t + d + ping_pause) (Suc i) = (r, t', n)"
      using "1.prems"(1) True p by (subst (asm) ping_loop.simps) auto
    have cond: "t + d + ping_pause < until \<or> t + d + ping_pause = until \<and> pick" using True by simp
    then have le: "t + d + ping_pause \<le> until" by auto
    note ih = "1.IH" [OF p [symmetric] a cond rest le]
    have "n - 1 - i = Suc (n - 1 - Suc i)" using ih by linarith
    then have "t + (n - 1 - i) * ping_pause \<le> t + d + ping_pause + (n - 1 - Suc i) * ping_pause" by simp
    then have "t + (n - 1 - i) * ping_pause \<le> until" using ih by linarith
    moreover have "fst (ping j) \<noteq> None" if "i \<le> j" "j < n - 1" for j
      using ih that p a by (cases "j = i") auto
    ultimately show ?thesis using ih by auto
  next
    case False
    then have "n = Suc i \<and> (r = None \<longleftrightarrow> a = None) \<and> (r \<noteq> None \<longrightarrow> until \<le> t')"
      using "1.prems"(1) p by (subst (asm) ping_loop.simps) (auto split: option.splits if_splits)
    then show ?thesis using p "1.prems"(2) by auto
  qed
qed

section \<open>Properties\<close>

text \<open>
  Waiting for the broker ends: whatever the pings answer and however long they take, the loop returns
  after finitely many, at most 721 for the three minutes \<open>Start\<close> gives it. It succeeds exactly on the
  first ping that is answered, and gives up only when the whole timeout has passed.
\<close>

theorem waitForBroker_bounds:
  assumes "waitForBroker None ping pick broker timeout = (r, t, n)"
  shows "0 < n \<and> (n - 1) * ping_pause \<le> timeout \<and> (\<forall>j < n - 1. fst (ping j) \<noteq> None) \<and>
    (r = None \<longleftrightarrow> fst (ping (n - 1)) = None) \<and> (r \<noteq> None \<longrightarrow> timeout \<le> t) \<and>
    (timeout = ready_timeout \<longrightarrow> n \<le> 721)"
proof -
  from assms have run: "ping_loop ping pick broker timeout 0 0 = (r, t, n)" by (simp add: waitForBroker_def)
  note b = ping_loop_bounds [OF run]
  then have "n \<le> 721" if "timeout = ready_timeout" using that by (auto simp: ping_pause_def ready_timeout_def)
  with b show ?thesis by auto
qed

theorem waitForBroker_bounds_witness:
  "snd (snd (waitForBroker None (\<lambda>i. (if i < 3 then Some Canceled else None, 7)) False ''b:1'' ready_timeout)) \<le> 721"
  using waitForBroker_bounds [of "\<lambda>i. (if i < 3 then Some Canceled else None, 7)" False "''b:1''" ready_timeout]
  by (metis prod.collapse)

text \<open>
  C38. What \<^verbatim>\<open>kafkatest.Start\<close> leaves behind, on every path. After a success the broker runs and is shared;
  stopping always takes back what is shared, removes the container unless terminating it failed and left
  it there, and prints a warning exactly when terminating failed. After an error nothing is shared, and
  the container is gone unless starting it was what failed and left it there (the container returned
  beside that error is dropped) or terminating it on the way out failed and left it there (that error is
  dropped too). It panics, with the container running and nothing shared, exactly when the container is
  up, its address is known, and executing the shell failed without a reader to read its output from.
\<close>

theorem kafkatest_Start_accounts:
  assumes "kafkatest_Start False cs (None, []) = (r, v, tr)"
  shows "(case r of
      Some (Inr _) \<Rightarrow> still_open [] tr = [KafkaCtr] \<and> kafkatest_Shared False (v, tr) = Got (the v) \<and>
        (\<forall>out. \<exists>warning tr'. kafkatest_stop False out (v, tr) = (warning, None, tr') \<and>
           still_open [] tr' = (if stays_up out then [KafkaCtr] else []) \<and> (warning = [] \<longleftrightarrow> out = TermOk))
    | Some (Inl _) \<Rightarrow> v = None \<and>
        still_open [] tr =
          (if (\<exists>err. kc_docker cs gated_broker = RunFailed err True) \<or>
              kc_docker cs gated_broker = RunOk \<and> stays_up (kc_terminate cs) then [KafkaCtr] else [])
    | None \<Rightarrow> v = None \<and> still_open [] tr = [KafkaCtr]) \<and>
    (r = None \<longleftrightarrow> kc_docker cs gated_broker = RunOk \<and>
      (\<exists>broker. kafka_hostAddress (kc_host cs) (kc_port cs) = Inr broker \<and>
         (let a = kc_exec cs [''/bin/sh'', ''-c'', gate_script broker] in
          (ea_err a \<noteq> None \<or> ea_code a \<noteq> 0) \<and> ea_out a = None)))"
proof (cases "kc_docker cs gated_broker")
  case (RunFailed err created)
  then show ?thesis using assms by (auto simp: kafkatest_Start_def runGatedBroker_def container_defs)
next
  case RunOk
  let ?tr' = "snd (TerminateContainer KafkaCtr (kc_terminate cs) [Acquired KafkaCtr])"
  have aborted: "still_open [] ?tr' = (if stays_up (kc_terminate cs) then [KafkaCtr] else [])"
    by (simp add: container_defs split: term_outcome.split)
  have up: "runGatedBroker (kc_docker cs) [] = (Inr (), [Acquired KafkaCtr])"
    using RunOk by (simp add: runGatedBroker_def container_defs)
  show ?thesis
  proof (cases "kafka_hostAddress (kc_host cs) (kc_port cs)")
    case (Inl err)
    then show ?thesis using assms RunOk up aborted by (auto simp: kafkatest_Start_def Let_def)
  next
    case (Inr broker)
    let ?a = "kc_exec cs [''/bin/sh'', ''-c'', gate_script broker]"
    have gate: "openStartGate (kc_exec cs) broker = None \<longleftrightarrow> (ea_err ?a \<noteq> None \<or> ea_code ?a \<noteq> 0) \<and> ea_out ?a = None"
      by (auto simp: openStartGate_def Let_def split: option.splits)
    obtain w n where wait: "waitForBroker (kc_client cs) (kc_ping cs) (kc_pick cs) broker ready_timeout = (w, n)"
      by (cases "waitForBroker (kc_client cs) (kc_ping cs) (kc_pick cs) broker ready_timeout")
    consider (panic) "openStartGate (kc_exec cs) broker = None" "r = None" "v = None" "tr = [Acquired KafkaCtr]"
      | (failed) e where "openStartGate (kc_exec cs) broker \<noteq> None" "r = Some (Inl e)" "v = None" "tr = ?tr'"
      | (started) "openStartGate (kc_exec cs) broker \<noteq> None" "r = Some (Inr ())" "v = Some [broker]" "tr = [Acquired KafkaCtr]"
      using assms up Inr wait by (cases "openStartGate (kc_exec cs) broker")
        (auto simp: kafkatest_Start_def Let_def split: option.splits)
    then show ?thesis
    proof cases
      case panic
      then show ?thesis using gate RunOk Inr by (simp add: Let_def)
    next
      case failed
      then show ?thesis using gate RunOk Inr aborted by (auto simp: Let_def)
    next
      case started
      then show ?thesis using gate RunOk Inr
        by (auto simp: Let_def kafkatest_Shared_def kafkatest_stop_def container_defs terminate_warning_def
            split: term_outcome.splits)
    qed
  qed
qed

definition ready_kafka :: kafka_calls where
  "ready_kafka =
     \<lparr>kc_docker = (\<lambda>_. RunOk), kc_host = Inr ''localhost'', kc_port = Inr ''32768'',
      kc_exec = (\<lambda>_. \<lparr>ea_code = 0, ea_out = Some [], ea_err = None\<rparr>), kc_client = None,
      kc_ping = (\<lambda>_. (None, 1)), kc_pick = False, kc_terminate = TermOk\<rparr>"

theorem kafkatest_Start_accounts_witness:
  "(\<exists>tr. kafkatest_Start False ready_kafka (None, []) = (Some (Inr ()), Some [''localhost:32768''], tr) \<and>
     still_open [] tr = [KafkaCtr]) \<and>
   fst (kafkatest_Start False (ready_kafka\<lparr>kc_exec := (\<lambda>_. \<lparr>ea_code = 0, ea_out = None, ea_err = Some Canceled\<rparr>)\<rparr>) (None, [])) = None"
proof -
  let ?no_shell = "ready_kafka\<lparr>kc_exec := (\<lambda>_. \<lparr>ea_code = 0, ea_out = None, ea_err = Some Canceled\<rparr>)\<rparr>"
  obtain tr where run: "kafkatest_Start False ready_kafka (None, []) = (Some (Inr ()), Some [''localhost:32768''], tr)"
    by (simp add: kafkatest_Start_def ready_kafka_def runGatedBroker_def container_defs kafka_hostAddress_def
        openStartGate_def waitForBroker_def ping_loop.simps Let_def)
  obtain r v tr' where run': "kafkatest_Start False ?no_shell (None, []) = (r, v, tr')"
    by (cases "kafkatest_Start False ?no_shell (None, [])")
  have "r = None" using kafkatest_Start_accounts [OF run']
    by (simp add: ready_kafka_def kafka_hostAddress_def Let_def)
  with run run' kafkatest_Start_accounts [OF run] show ?thesis by simp
qed

text \<open>
  The same for the Postgres and the registry container: with a container whose start cannot fail
  half-way and that goes when it is terminated, a failed \<^verbatim>\<open>Start\<close> leaves nothing running, and stopping a
  started one leaves nothing either.
\<close>

theorem other_containers_account:
  assumes "never_half_started (pgc_run pcs pg_Image pg_options)" "pgtest_Start False pcs (None, []) = (r, v, tr)"
    and "never_half_started (rc_docker rcs registry_request)" "srtest_Start False rcs (None, []) = (r', v', tr')"
    and "\<not> stays_up (pgc_terminate pcs)" "\<not> stays_up (rc_terminate rcs)" "\<not> stays_up out"
  shows "still_open [] tr = (case r of Inl _ \<Rightarrow> [] | Inr _ \<Rightarrow> [PostgresCtr]) \<and>
    still_open [] tr' = (case r' of Inl _ \<Rightarrow> [] | Inr _ \<Rightarrow> [RegistryCtr]) \<and>
    (r = Inr () \<longrightarrow> still_open [] (snd (snd (pgtest_stop False out (v, tr)))) = []) \<and>
    (r' = Inr () \<longrightarrow> still_open [] (snd (snd (srtest_stop False out (v', tr')))) = [])"
  using pgtest.nothing_left [of pcs "[]" r v tr] srtest.nothing_left [of rcs "[]" r' v' tr'] assms
  by (simp add: Start_returns_def split: sum.splits)

theorem other_containers_account_witness:
  "still_open [] (snd (snd (pgtest_Start False \<lparr>pgc_run = (\<lambda>_ _. RunOk), pgc_dsn = (\<lambda>_. Inl Canceled), pgc_terminate = TermOk\<rparr> (None, [])))) = []"
  using other_containers_account [of "\<lparr>pgc_run = (\<lambda>_ _. RunOk), pgc_dsn = (\<lambda>_. Inl Canceled), pgc_terminate = TermOk\<rparr>"
      "Inl (Errorf ''pgtest: connection string: '' Canceled [])" None "[Acquired PostgresCtr, Released PostgresCtr]"
      "\<lparr>rc_docker = (\<lambda>_. RunFailed Canceled False), rc_host = Inr [], rc_port = Inr [], rc_terminate = TermOk\<rparr>"
      _ _ _ TermOk]
  by (simp add: container_defs pgtest_Start_def srtest_Start_def runRegistry_def)

end
