(* ===== verification/Spec2Isabelle.thy ===== *)
theory Spec2Isabelle
  imports Inventory Overdue Cluster Promises Redelivery Migrations Election Cmd Generated TestDatabases
begin

text \<open>
  The inventory service of \<^verbatim>\<open>sagaflow\<close>: event-sourced seat holds with optimistic locking, a
  transactional outbox and inbox, durable deadline timers, Kafka consumers and a browsing view.

  \<^bold>\<open>Parts and theories.\<close> Each theory models one part, with the source's names where Isabelle allows
  them; paths are under \<^verbatim>\<open>src/internal\<close> unless they say otherwise.

  \<^item> \<open>Prelude\<close>: Go errors as a datatype with \<^verbatim>\<open>errors.Is\<close>/\<^verbatim>\<open>As\<close> and their texts, integer
    formatting, the sequencing of calls that return \<^verbatim>\<open>(value, error)\<close> (\<open>bindE\<close>, \<open>wrapE\<close>), traces of
    what is acquired and released, and two shared contracts: \<open>frame\<close> (what a sequence of calls leaves
    alone) and \<open>claim_once\<close>.
  \<^item> \<open>Contracts\<close>: the six messages of \<^verbatim>\<open>contracts/sagaflow/inventory/v1\<close> as the program sees them.
    \<open>Protobuf\<close> and \<open>Generated\<close>: the six generated files, with the raw descriptors they carry and a
    reader of the wire format to say what those declare.
  \<^item> \<open>Envelope\<close>: \<^verbatim>\<open>platform/envelope\<close>. \<open>Codec\<close>: \<^verbatim>\<open>platform/codec\<close>, over the parameter \<open>protolib\<close>
    (protojson, the type registry, timestamp conversion).
  \<^item> \<open>Database\<close>: the tables of \<^verbatim>\<open>inventory/migrations\<close> and \<^verbatim>\<open>platform/pg\<close>'s \<open>WithTx\<close>. \<open>Laws\<close>: rely and
    guarantee over it.
  \<^item> \<open>EventStore\<close>, \<open>Inbox\<close>, \<open>Outbox\<close>, \<open>Timers\<close>: the four tables' packages, one definition per SQL
    statement and per function.
  \<^item> \<open>Seat\<close> (\<^verbatim>\<open>inventory/seat.go\<close>), \<open>SeatStore\<close> (\<^verbatim>\<open>store.go\<close>), \<open>Commands\<close> (\<^verbatim>\<open>commands.go\<close>),
    \<open>Scheduler\<close> (\<^verbatim>\<open>platform/timers/scheduler.go\<close>), \<open>Expiry\<close> (\<^verbatim>\<open>expiry.go\<close>), \<open>Projection\<close>
    (\<^verbatim>\<open>projection.go\<close>), \<open>Consumers\<close> (\<^verbatim>\<open>consumers.go\<close>).
  \<^item> \<open>OutboxPoller\<close> and \<open>Election\<close> (\<^verbatim>\<open>platform/outbox/poller.go\<close>: draining; being the one that does),
    \<open>Kafka\<close> (\<^verbatim>\<open>platform/kafka\<close>) and \<open>Group\<close> (its consumers over rebalances and restarts), \<open>Schema\<close>
    (\<^verbatim>\<open>platform/schema\<close> and \<^verbatim>\<open>src/cmd/schemactl\<close>), \<open>Wire\<close> (\<^verbatim>\<open>inventory/wire.go\<close>, \<^verbatim>\<open>pg.Open\<close>,
    \<^verbatim>\<open>pg.Migrate\<close>), \<open>Cmd\<close> (the two commands from their arguments to their exit status).
  \<^item> \<open>System\<close>: all sessions of all instances over one database and one broker, as an inductive step
    relation. Its invariants are in \<open>Integrity\<close> (streams and constraints), \<open>Delivery\<close> (outbox),
    \<open>Deadlines\<close> (timers), \<open>LiveView\<close> (view), \<open>Answers\<close> (inbox) and \<open>Promises\<close> (what the messages say); \<open>Scenario\<close> is a run
    for their witnesses. \<open>Inventory\<close> is the abstract machine that its runs refine, \<open>Overdue\<close> one pass of
    the scheduler and \<open>Redelivery\<close> one repeated command inside such a run, \<open>Cluster\<close> the consumer groups
    over the database the service shares.
  \<^item> \<open>Migrations\<close>: the SQL files of \<^verbatim>\<open>inventory/migrations\<close> (and \<^verbatim>\<open>booking/migrations\<close>), and the tables of
    the model read as the tables they declare.
  \<^item> \<open>TestContainers\<close> and \<open>TestDatabases\<close>: \<^verbatim>\<open>testsupport/pgtest\<close>, \<^verbatim>\<open>kafkatest\<close> and \<^verbatim>\<open>srtest\<close>.

  \<^bold>\<open>The database.\<close> A transaction is a record: the committed tables as the session would leave them on
  a rollback (\<open>base\<close>), the tables its next statement sees (\<open>view\<close>), the sequences, pending
  notifications and whether it is aborted. An \<open>env\<close> says what happens around it: before the \<open>n\<close>-th
  statement other sessions commit \<open>others n\<close> (READ COMMITTED, which is what \<^verbatim>\<open>pool.Begin\<close> opens) and draw
  from the sequences, any statement, the \<^verbatim>\<open>BEGIN\<close> and the \<^verbatim>\<open>COMMIT\<close> may fail, and a failed commit may have
  been applied. \<open>meanwhile\<close> relates what a transaction found to what is there when it left nothing of
  its own. \<open>quiet\<close> is an environment without failures and other sessions, \<open>alone\<close> one with failures but
  no other sessions.

  \<^bold>\<open>The service.\<close> \<open>service_step\<close> is one operation of one session (a
  command with its retries, a pass of the scheduler, a drain, a projection, a rebuild, a prune), and
  while it runs the others commit \<open>service_steps\<close> between its statements: the two are
  defined together, so a law shown by rule induction holds for every interleaving of any number of
  instances. \<open>reachable\<close> states are those a run leads to from the empty database. The
  broker is the set \<open>B\<close> of what it has accepted by the end of the run; the flag
  \<open>rb\<close> says whether anybody rebuilds the view during it, which two properties of the view
  exclude.

  \<^bold>\<open>Interfaces.\<close> \<open>aggregate\<close> (fold and decisions; interpreted on the
  seat), an optimistically locked log (on \<open>Append\<close> and \<open>Load\<close>),
  \<open>claim_once\<close> (on the inbox and on the timers), \<open>firer\<close> (what the scheduler
  needs of a Firer; on \<open>Fire\<close>), \<open>publisher\<close> (what the poller needs of a
  Publisher; on the Kafka producer), \<open>frame\<close> (on what a transaction leaves of everybody
  else's data, of the seat streams and of the timers), \<open>table_law\<close> (what a law needs so
  that a transaction keeps it; on the runs of the service themselves and through
  \<open>bookkeeping_law\<close>, \<open>statement_law\<close> and \<open>service_law\<close>, which ask
  it of each statement and of each operation, on streams, constraints, outbox, announcements, answers,
  promises, deadlines, pending timers, view and the versions of its rows), \<open>record_effect\<close>
  and \<open>shared_effect\<close> (what accepting a record achieves and nobody takes back; on the
  commands and the projections handler), \<open>generated_type\<close> (the methods of a generated
  message; on all six), \<open>test_container\<close> (what starting and stopping promise; on the three
  test packages).

  \<^bold>\<open>What is shown.\<close> Every run of the service is a run of an abstract inventory, in
  which a seat is taken only while it is free and freed only of its own hold. Of every reachable state:
  no seat is held twice; every live hold has its timer armed; every event is announced, in the outbox or
  on the broker; whatever the inbox records as consumed is answered; every message in the outbox is
  borne out by the stream of its seat, then and later; a row is marked published only when its record is
  on the broker, and none is lost; every row of the view is the fold of a prefix of its stream; streams
  only grow; the tables keep what the migrations declare, file by file; a hold still live after a pass
  of the scheduler is not overdue, is newer than the pass or has its failure logged; every command below
  a committed offset has been executed and answered, or dead-lettered, and the view of a seat is as
  recent as the seat was before any record about it that has since been committed. The first rests on
  \<open>seats_ok\<close> (every stream is numbered without a gap and decodes to a history with at most
  one live hold at a time) and on the argument the code relies on: an append that got through was
  decided from the state it is applied to. Around it: atomicity of a command and of a fired timer, a
  repeated command that writes nothing, the retry of a lost race, publishing in order, one active
  poller, isolation of failing timers, correctness of a rebuild and rows of the view that never go back,
  the consumer's retry budget and dead letters, the agreement of the generated structs with their
  descriptors, migrations that can be taken back, startup and shutdown of the commands, and the
  isolation of the integration tests. Four properties state where the code does less than its comments
  say: a stalled partition, a standby poller, a rebuild's snapshot, a container that is left running.

  \<^bold>\<open>Bounds and fuel.\<close> Loops that wait for the outside (\<open>Scheduler_Run\<close>, \<open>poll_loop\<close>, \<open>Consumer_Run\<close>,
  \<open>Service_Run\<close>) run along the list of what they are woken by, and give \<open>None\<close> while it has not made
  them return. \<open>drainAll\<close> has fuel, and one unit per full batch and one more is proved to be enough.
  The consumer's retry loop and the wait for the test broker are total functions; the backoff is on
  64-bit words. Row versions are checked against \<^verbatim>\<open>INT\<close>; other integers of the program (counters, offsets,
  row ids) are unbounded.

  \<^bold>\<open>Not modelled.\<close> The wire and JSON encodings, franz-go, pgx, tern, the registry, testcontainers and
  \<^verbatim>\<open>net/url\<close>, which are parameters with the laws relied on as named hypotheses (\<open>codec_ok\<close>, \<open>framing_ok\<close>,
  \<open>url_ok\<close>) or, for the consumer group, the step relation around \<open>poll\<close>; logging and the delivery of
  signals; what the protobuf runtime builds from the descriptors; the tests; the booking service beyond
  its migrations, which are all it has so far; the package comments.

  This theory holds the properties that span components.
\<close>

section \<open>Facts\<close>

text \<open>A message the service sent, as its own projection consumer gets to see it.\<close>

lemma reply_parses:
  assumes "msg_Headers m = Headers env" "env_ID env \<noteq> []" "env_Source env \<noteq> []" "env_Type env \<noteq> []"
  shows "Parse (r_Headers (toRecord (record_of m))) = Inr env"
proof -
  have "map_of (r_Headers (toRecord (record_of m))) = map_of (msg_Headers m)"
    using assms(1) distinct_Headers by (intro toRecord_headers) simp
  then have "Parse (r_Headers (toRecord (record_of m))) = Parse (Headers env)"
    using Parse_cong assms(1) by metis
  then show ?thesis using assms(2-4) by (simp add: Parse_ok_iff map_get_Headers envelope_of_Headers)
qed

lemma command_applied_view:
  assumes "command_applied L e key s out msgs T T'" "view_ok L e T"
  shows "view_ok L e T'"
proof (rule view_ok_extend [OF assms(2)])
  show "seat_availability T' = seat_availability T" using assms(1) by (simp add: command_applied_def)
  fix s'
  show "\<exists>ms'. seat_messages L T' s' = (case seat_messages L T s' of Inl x \<Rightarrow> Inl x | Inr ms \<Rightarrow> Inr (ms @ ms'))"
  proof (cases "s' = s")
    case True
    then show ?thesis using assms(1) by (auto simp: command_applied_def)
  next
    case False
    then have "seat_messages L T' s' = seat_messages L T s'"
      using assms(1) by (simp add: command_applied_def seat_messages_def)
    then show ?thesis by (intro exI [of _ "[]"]) (simp split: sum.split)
  qed
qed

lemma markSQL_frame:
  "events (snd (markSQL e is T)) = events T" "seat_availability (snd (markSQL e is T)) = seat_availability T"
  by (simp_all add: markSQL_def)

text \<open>Draining a database whose only outbox row is one waiting message.\<close>

lemma drain_one:
  assumes "quiet e" "outbox (tbl db) = outbox_rows n [m]"
  shows "\<exists>db'. drainAll (Publish (\<lambda>_. Acked)) (\<lambda>_. e) nobody 0 1 (db, log) = (Some None, db', log @ [record_of m]) \<and>
    waiting (tbl db') = [] \<and> events (tbl db') = events (tbl db) \<and>
    seat_availability (tbl db') = seat_availability (tbl db)"
proof -
  let ?row = "hd (outbox_rows n [m])"
  have w: "waiting (tbl db) = [?row]" using assms(2) by (simp add: waiting_def)
  have cl: "claimSQL nobody (tbl db) = [?row]" using w by (simp add: claimSQL_nobody BatchSize_def)
  have msg: "row_message ?row = m" by (simp add: row_message_def)
  obtain db' where "Drain (Publish (\<lambda>_. Acked)) e nobody (db, log) = (Inr 1, db', log @ [record_of m])"
    and t: "tbl db' = snd (markSQL e (map ob_id [?row]) (tbl db))"
    using quiet_Drain [where pub = "Publish (\<lambda>_. Acked)" and locked = nobody and db = db and b = log, OF assms(1)]
      Publish_all_acked [of "[m]" log] msg unfolding cl by auto
  moreover have "waiting (tbl db') = []"
    using waiting_marked [of "tbl db" e 1] assms(2) unfolding t w by (simp add: outbox_ids_def)
  ultimately show ?thesis using markSQL_frame by (simp add: t BatchSize_def)
qed

section \<open>Properties\<close>

text \<open>
  C1. No seat is ever held twice, in any run of the whole service: from the empty database, whatever
  commands arrive, however often and in whatever order, whichever timers fire, whatever the poller,
  the projection and the pruning do, however many instances run, however their statements interleave
  and whatever fails, every seat's committed stream decodes, and in it every hold that follows another
  is preceded by the release or the expiry of the earlier one.
\<close>

theorem no_seat_held_twice:
  assumes "reachable L enc tz B rb (T, S)"
  shows "\<exists>ms. seat_messages L T s = Inr ms \<and>
    (\<forall>a x b y c. ms = a @ SeatHeldMsg x # b @ SeatHeldMsg y # c \<longrightarrow>
       (\<exists>m \<in> set b. ends_hold (sh_HoldId x) m))"
proof -
  have "seats_ok L T" using reachable_streams [OF assms] by simp
  then obtain ms where "seat_messages L T s = Inr ms" "valid_history ms" using seats_okD by blast
  then show ?thesis by (auto intro: valid_history_held_again)
qed

theorem no_seat_held_twice_witness:
  "\<exists>T S. demo_reach {} (T, S) \<and>
     seat_messages demo_lib T ''14A'' = Inr ([] @ demo_held ''h1'' # [demo_released ''h1''] @ demo_held ''h2'' # []) \<and>
     (\<exists>m \<in> set [demo_released ''h1'']. ends_hold ''h1'' m)"
proof -
  obtain T S where T: "demo_reach {} (T, S)"
    "seat_messages demo_lib T ''14A'' = Inr ([] @ demo_held ''h1'' # [demo_released ''h1''] @ demo_held ''h2'' # [])"
    using demo_service_run by fastforce
  obtain ms where ms: "seat_messages demo_lib T ''14A'' = Inr ms"
    and sep: "\<And>a x b y c. ms = a @ SeatHeldMsg x # b @ SeatHeldMsg y # c \<Longrightarrow> \<exists>m \<in> set b. ends_hold (sh_HoldId x) m"
    using no_seat_held_twice [OF T(1), of "''14A''"] by blast
  have "ms = [] @ demo_held ''h1'' # [demo_released ''h1''] @ demo_held ''h2'' # []" using ms T(2) by simp
  from sep [OF this [unfolded demo_held_def]] show ?thesis using T by auto
qed

text \<open>
  C11. History is never rewritten: from any state the service can reach, whatever it does next only
  appends to the streams; what a seat's stream said then is a prefix of what it says later, and no
  event row is ever changed or deleted.
\<close>

theorem history_only_grows:
  assumes "reachable L enc tz B rb (T, S)" "service_steps L enc tz B rb (T, S) (T', S')"
  shows "set (events T) \<subseteq> set (events T') \<and>
    (\<exists>ms later. seat_messages L T s = Inr ms \<and> seat_messages L T' s = Inr (ms @ later) \<and>
       prefix (stream_rows T s) (stream_rows T' s))"
proof -
  have ok: "seats_ok L T" using reachable_streams [OF assms(1)] by simp
  have step: "seats_step L T T'"
    using streams_service.service_obeys(2) [OF assms(2)] by (simp add: streams_law_def)
  then have ok': "seats_ok L T'" and ext: "extends T T'" using ok by (simp_all add: seats_step_def)
  obtain ms where ms: "seat_messages L T s = Inr ms" using seats_okD [OF ok] by blast
  moreover obtain later where "seat_messages L T' s = Inr (ms @ later)"
    using messages_extend [OF ok ok' ext, of s] ms by auto
  moreover have "set (events T) \<subseteq> set (events T')"
    using schema_service.service_obeys(2) [OF assms(2)] reachable_schema [OF assms(1)]
    by (simp add: schema_law_def rows_kept_def)
  ultimately show ?thesis using ext by (auto simp: extends_def)
qed

theorem history_only_grows_witness:
  "\<exists>T S later. demo_reach {} (T, S) \<and> seat_messages demo_lib T ''14A'' = Inr ([] @ later) \<and> later \<noteq> []"
proof -
  obtain T S where T: "demo_reach {} (T, S)" "seat_messages demo_lib T ''14A'' = Inr [demo_held ''h1'']"
    using demo_held_step by blast
  have "seat_messages demo_lib (tbl empty_db) ''14A'' = Inr []" using seat_messages_empty by simp
  then show ?thesis
    using history_only_grows [OF reachable_start T(1) [unfolded reachable_def], of "''14A''"] T by auto
qed

text \<open>
  The tables keep their types: in every state the service can reach, every table satisfies what its
  migration declares (primary keys, the unique stream versions, versions within \<^verbatim>\<open>INT\<close>, no id past
  its sequence), and no row holds empty text where the packages promise some.
\<close>

theorem schema_always_holds:
  assumes "reachable L enc tz B rb x"
  shows "schema_ok x"
  using assms by (rule reachable_schema)

theorem schema_always_holds_witness:
  "\<exists>x. schema_ok x \<and> seat_messages demo_lib (fst x) ''14A'' = Inr [demo_held ''h1'', demo_released ''h1'', demo_held ''h2'']"
proof -
  obtain x where "demo_reach {} x"
    "seat_messages demo_lib (fst x) ''14A'' = Inr [demo_held ''h1'', demo_released ''h1'', demo_held ''h2'']"
    using demo_service_run by blast
  then show ?thesis using schema_always_holds by blast
qed

text \<open>
  C14. A command's effect reaches the browsing view: in a quiet database with nothing else in the
  outbox, a command that is applied leaves exactly one message; one drain publishes it and leaves
  nothing waiting; and the projection consumer, given that very record as it comes off the broker,
  brings the seat's row to the state the whole stream now folds to.
\<close>

theorem command_reaches_the_view:
  assumes "quiet e" "codec_ok L e" "seats_ok L (tbl db)" "SeatID cmd = Inr s"
    and "s \<noteq> []" "env_Source inc \<noteq> []" "env_ID inc \<noteq> []"
    and "(Consumer, env_Source inc, env_ID inc) \<notin> consumed (tbl db)"
    and "seat_messages L (tbl db) s = Inr ms" "Fold L ms = Inr st" "Decide L st cmd = Inr out"
    and "encode_all L s (command_meta inc) (out_Events out) = Inr stored" "storable e (length ms) stored"
    and "outgoing enc ids (Messages out) (reply_envelope inc s) = Inr msgs"
    and "list_all (\<lambda>m. msg_Payload m \<noteq> []) msgs"
    and "view_ok L e (tbl db)" "outbox (tbl db) = []" "ids 0 \<noteq> []"
    and "ms @ out_Events out \<noteq> []" "Fold L (ms @ out_Events out) = Inr st'"
  shows "\<exists>db1 db2 m sv. applyInOneTransaction L enc e ids inc cmd db = (Inr (), db1) \<and>
    drainAll (Publish (\<lambda>_. Acked)) (\<lambda>_. e) nobody 0 1 (db1, log) = (Some None, db2, log @ [record_of m]) \<and>
    waiting (tbl db2) = [] \<and>
    Projections_handler L (\<lambda>_. e) (toRecord (record_of m)) \<lparr>sv_db = db2, sv_handled = n\<rparr> = (None, sv) \<and>
    row_for (tbl (sv_db sv)) s = Some (availability_row e s st')"
proof -
  obtain db1 where run: "applyInOneTransaction L enc e ids inc cmd db = (Inr (), db1)" "length msgs = 1"
    and app: "command_applied L e (Consumer, env_Source inc, env_ID inc) s out msgs (tbl db) (tbl db1)"
    using quiet_command [OF assms(1-15)] by blast
  then obtain m where m: "msgs = [m]" by (cases msgs) auto
  obtain k where "outbox (tbl db1) = outbox_rows k [m]" using app m assms(17) by (auto simp: command_applied_def)
  from drain_one [OF assms(1) this] obtain db2 where
    drain: "drainAll (Publish (\<lambda>_. Acked)) (\<lambda>_. e) nobody 0 1 (db1, log) = (Some None, db2, log @ [record_of m])"
      "waiting (tbl db2) = []"
    and frame: "events (tbl db2) = events (tbl db1)" "seat_availability (tbl db2) = seat_availability (tbl db1)" by blast
  have rows: "stream_rows (tbl db2) = stream_rows (tbl db1)" using frame(1) by (rule stream_rows_same_events)
  have sm: "seat_messages L (tbl db2) s = Inr (ms @ out_Events out)"
    using app assms(9) by (auto simp: command_applied_def seat_messages_def rows)
  have "view_ok L e (tbl db1)" using command_applied_view [OF app assms(16)] .
  then have vok: "view_ok L e (tbl db2)"
    by (rule view_ok_extend) (auto simp: frame seat_messages_def rows intro!: exI [of _ "[]"] split: sum.split)
  have "seats_ok L (tbl db1)"
    using applyInOneTransaction_step [OF seats_rely_quiet [OF assms(1)] assms(2) run(1)] assms(3)
    by (simp add: seats_step_def)
  then have log2: "log_ok (tbl db2)" using seats_ok_log by (fastforce simp: log_ok_iff versions_ok_def rows)
  obtain reply p where hd: "Messages out = [reply]" "FullName reply \<noteq> []"
    "m = outgoing_message (ids 0) (reply_envelope inc s) reply p"
    using Decide_reply [OF assms(11)] assms(14) m by (auto simp: outgoing_def split: sum.splits)
  have parse: "Parse (r_Headers (toRecord (record_of m))) =
      Inr ((reply_envelope inc s)\<lparr>env_ID := ids 0, env_Type := TypeName reply\<rparr>)"
    using hd(2,3) assms(18)
    by (intro reply_parses)
      (auto simp: outgoing_message_def Let_def reply_envelope_def Source_def TypeName_def)
  let ?db3 = "db2\<lparr>tbl := snd (upsertAvailabilitySQL (availability_row e s st') (tbl db2))\<rparr>"
  have "Project L e s db2 = (Inr (), ?db3)" using quiet_Project [OF assms(1) log2 sm assms(20,19)] .
  then have handled: "Projections_handler L (\<lambda>_. e) (toRecord (record_of m)) \<lparr>sv_db = db2, sv_handled = n\<rparr> =
      (None, \<lparr>sv_db = ?db3, sv_handled = n + 1\<rparr>)"
    using parse assms(5) by (simp add: Projections_handler_def reply_envelope_def)
  have "row_for (tbl (sv_db \<lparr>sv_db = ?db3, sv_handled = n + 1\<rparr>)) s = Some (availability_row e s st')"
    using upsert_derived [OF vok sm assms(20)] by simp
  with run(1) drain handled show ?thesis by blast
qed

theorem command_reaches_the_view_witness:
  "\<exists>db1 db2 m sv. applyInOneTransaction demo_lib demo_enc calm_env demo_ids (demo_envelope ''c1'')
      (demo_hold ''h1'') empty_db = (Inr (), db1) \<and>
    drainAll (Publish (\<lambda>_. Acked)) (\<lambda>_. calm_env) nobody 0 1 (db1, []) = (Some None, db2, [] @ [record_of m]) \<and>
    waiting (tbl db2) = [] \<and>
    Projections_handler demo_lib (\<lambda>_. calm_env) (toRecord (record_of m)) \<lparr>sv_db = db2, sv_handled = 0\<rparr> = (None, sv) \<and>
    row_for (tbl (sv_db sv)) ''14A'' = Some (availability_row calm_env ''14A'' demo_state)"
proof -
  let ?inc = "demo_envelope ''c1''" and ?m = "demo_held ''h1''"
  let ?out = "\<lparr>out_Events = [?m], out_Replies = [], out_Timers = [\<lparr>st_FireAt = 900, st_Token = ''h1''\<rparr>]\<rparr>"
  let ?ev = "\<lparr>es_Type = FullName ?m, es_Data = ''1'', es_Meta = command_meta ?inc\<rparr>"
  let ?msg = "outgoing_message (demo_ids 0) (reply_envelope ?inc ''14A'') ?m (FullName ?m)"
  have "view_ok demo_lib calm_env (tbl empty_db)"
    by (simp add: view_ok_def view_ids_def empty_db_def empty_tables_def)
  then show ?thesis
    by (intro command_reaches_the_view [where st = zero_SeatState and ms = "[]" and stored = "[?ev]"
          and out = ?out and msgs = "[?msg]", OF quiet_calm_env codec_ok_demo])
      (simp_all add: demo_command_defs demo_ids_def demo_state_def)
qed

end
